(* ===== verification/Prelude.thy ===== *)
theory Prelude
  imports Main
begin

text \<open>
  What every component shares: the width of the machine integers, the clock, nil pointers,
  error values and the sequencing of checks that return the first error.

  \<^item> A Go \<open>int\<close> or \<open>int64\<close> is an \<open>int\<close>; every addition and decrement of the source goes
    through \<open>i64\<close>, the two's complement wrap to 64 bits.
  \<^item> A \<open>time.Time\<close> is an \<open>int\<close>: nanoseconds since the zero time, so that \<open>IsZero\<close> is
    \<open>= 0\<close>, \<open>Before\<close> is \<open><\<close> and \<open>Add\<close> is \<open>+\<close>. A \<open>time.Duration\<close> is its nanoseconds.
  \<^item> A pointer that may be nil is an \<open>option\<close>; a call \<open>(T, error)\<close> is a sum with the error
    on the left; a call that returns only an \<open>error\<close> is an \<open>option\<close> with the error in it.
\<close>

type_synonym go_int = int
type_synonym go_time = int
type_synonym duration = int

named_theorems step_inv \<open>one operation keeps the invariant of its component\<close>
named_theorems frame \<open>fields an operation does not write\<close>

section \<open>Machine integers\<close>

definition i64 :: "int \<Rightarrow> int" where
  "i64 x = signed_take_bit 63 x"

abbreviation max_int64 :: int where
  "max_int64 \<equiv> 9223372036854775807"

lemma i64_range: "- 9223372036854775808 \<le> i64 x \<and> i64 x \<le> max_int64"
  using signed_take_bit_int_greater_eq_minus_exp [of 63 x] signed_take_bit_int_less_exp [of 63 x]
  by (simp add: i64_def)

lemma i64_id [simp]: "- 9223372036854775808 \<le> x \<Longrightarrow> x \<le> max_int64 \<Longrightarrow> i64 x = x"
  unfolding i64_def by (rule signed_take_bit_int_eq_self) simp_all

lemma i64_i64 [simp]: "i64 (i64 x) = i64 x"
  by (simp add: i64_def)

lemma i64_add: "i64 (i64 x + i64 y) = i64 (x + y)"
  by (simp add: i64_def signed_take_bit_add)

lemma i64_add_left [simp]: "i64 (i64 x + y) = i64 (x + y)"
  by (metis i64_add i64_i64)

lemma i64_add_right [simp]: "i64 (x + i64 y) = i64 (x + y)"
  by (metis i64_add i64_i64)

definition is_int64 :: "int \<Rightarrow> bool" where
  "is_int64 x \<longleftrightarrow> - 9223372036854775808 \<le> x \<and> x \<le> max_int64"

lemma i64_is_int64 [simp]: "is_int64 (i64 x)"
  using i64_range [of x] by (simp add: is_int64_def)

section \<open>Durations\<close>

abbreviation millisecond :: duration where "millisecond \<equiv> 1000000"
abbreviation second :: duration where "second \<equiv> 1000000000"

section \<open>Errors\<close>

text \<open>Checks in the order the code makes them: the first error is the result.\<close>

fun first_err :: "'e option list \<Rightarrow> 'e option" where
  "first_err [] = None"
| "first_err (Some e # cs) = Some e"
| "first_err (None # cs) = first_err cs"

definition fail_if :: "bool \<Rightarrow> 'e \<Rightarrow> 'e option" where
  "fail_if b e = (if b then Some e else None)"

lemma fail_if_None [simp]: "fail_if b e = None \<longleftrightarrow> \<not> b"
  by (simp add: fail_if_def)

lemma fail_if_Some [simp]: "fail_if b e = Some e' \<longleftrightarrow> b \<and> e' = e"
  by (auto simp: fail_if_def)

lemma first_err_None [simp]: "first_err cs = None \<longleftrightarrow> (\<forall>c \<in> set cs. c = None)"
  by (induction cs rule: first_err.induct) auto

lemma first_err_Cons: "first_err (c # cs) = (case c of None \<Rightarrow> first_err cs | Some e \<Rightarrow> Some e)"
  by (cases c) simp_all

lemma first_err_in: "first_err cs = Some e \<Longrightarrow> Some e \<in> set cs"
  by (induction cs rule: first_err.induct) auto

text \<open>Sequencing of calls that return a value or an error.\<close>

fun res_bind :: "'e + 'a \<Rightarrow> ('a \<Rightarrow> 'e + 'b) \<Rightarrow> 'e + 'b" where
  "res_bind (Inl e) f = Inl e"
| "res_bind (Inr x) f = f x"

lemma res_bind_Inr: "res_bind r f = Inr y \<longleftrightarrow> (\<exists>x. r = Inr x \<and> f x = Inr y)"
  by (cases r) simp_all

lemma res_bind_Inl: "res_bind r f = Inl e \<longleftrightarrow> r = Inl e \<or> (\<exists>x. r = Inr x \<and> f x = Inl e)"
  by (cases r) simp_all

text \<open>The loop of a fallible body over a slice: it stops at the first error.\<close>

fun res_map :: "('a \<Rightarrow> 'e + 'b) \<Rightarrow> 'a list \<Rightarrow> 'e + 'b list" where
  "res_map f [] = Inr []"
| "res_map f (x # xs) = res_bind (f x) (\<lambda>y. res_bind (res_map f xs) (\<lambda>ys. Inr (y # ys)))"

lemma res_map_Inr: "res_map f xs = Inr ys \<longleftrightarrow> list_all2 (\<lambda>x y. f x = Inr y) xs ys"
proof (induction xs arbitrary: ys)
  case Nil
  then show ?case by auto
next
  case (Cons x xs)
  then show ?case by (auto simp: res_bind_Inr list_all2_Cons1)
qed

lemma res_map_total: "(\<And>x. x \<in> set xs \<Longrightarrow> \<exists>y. f x = Inr y) \<Longrightarrow> \<exists>ys. res_map f xs = Inr ys"
proof (induction xs)
  case Nil
  then show ?case by simp
next
  case (Cons x xs)
  then obtain y ys where "f x = Inr y" and "res_map f xs = Inr ys" by fastforce
  then show ?case by simp
qed

section \<open>Lists with positions\<close>

lemma nth_list_update_split:
  "i < length xs \<Longrightarrow> (xs[i := y]) ! j = (if j = i then y else xs ! j)"
  by (cases "j = i") simp_all

end
