(* ===== verification/Go_Strings.thy ===== *)
theory Go_Strings
  imports Prelude "HOL-Library.Sublist"
begin

text \<open>
  The part of Go's \<^verbatim>\<open>strings\<close> and \<^verbatim>\<open>strconv\<close> packages the gateway uses, on byte strings: a Go
  string is a list of bytes, so is a HOL \<open>string\<close>, and a character outside ASCII is the
  bytes of its UTF-8 encoding.
\<close>

section \<open>Prefixes and suffixes\<close>

definition has_prefix :: "string \<Rightarrow> string \<Rightarrow> bool" where
  "has_prefix s p \<longleftrightarrow> take (length p) s = p"

definition has_suffix :: "string \<Rightarrow> string \<Rightarrow> bool" where
  "has_suffix s p \<longleftrightarrow> has_prefix (rev s) (rev p)"

definition trim_prefix :: "string \<Rightarrow> string \<Rightarrow> string" where
  "trim_prefix s p = (if has_prefix s p then drop (length p) s else s)"

definition trim_suffix :: "string \<Rightarrow> string \<Rightarrow> string" where
  "trim_suffix s p = (if has_suffix s p then take (length s - length p) s else s)"

lemma has_prefix_iff: "has_prefix s p \<longleftrightarrow> (\<exists>t. s = p @ t)"
  unfolding has_prefix_def by (metis append_eq_conv_conj append_take_drop_id)

lemma has_suffix_iff: "has_suffix s p \<longleftrightarrow> (\<exists>t. s = t @ p)"
  unfolding has_suffix_def has_prefix_iff by (metis rev_append rev_rev_ident)

lemma has_prefix_Nil [simp]: "has_prefix s []"
  by (simp add: has_prefix_def)

lemma has_prefix_append [simp]: "has_prefix (p @ t) p"
  by (simp add: has_prefix_def)

lemma has_prefix_Cons1: "has_prefix s [c] \<longleftrightarrow> s \<noteq> [] \<and> hd s = c"
  by (cases s) (auto simp: has_prefix_def)

lemma has_suffix_snoc1: "has_suffix s [c] \<longleftrightarrow> s \<noteq> [] \<and> last s = c"
  by (simp add: has_suffix_def has_prefix_Cons1 hd_rev)

lemma trim_prefix_append [simp]: "trim_prefix (p @ t) p = t"
  by (simp add: trim_prefix_def)

lemma trim_suffix_append [simp]: "trim_suffix (t @ p) p = t"
  by (simp add: trim_suffix_def has_suffix_iff)

section \<open>TrimRight over one byte\<close>

definition trim_right :: "string \<Rightarrow> char \<Rightarrow> string" where
  "trim_right s c = rev (dropWhile (\<lambda>x. x = c) (rev s))"

lemma trim_right_last: "trim_right s c = [] \<or> last (trim_right s c) \<noteq> c"
proof (cases "dropWhile (\<lambda>x. x = c) (rev s) = []")
  case True
  then show ?thesis unfolding trim_right_def by simp
next
  case False
  then have "hd (dropWhile (\<lambda>x. x = c) (rev s)) \<noteq> c" by (rule hd_dropWhile)
  then show ?thesis unfolding trim_right_def last_rev by blast
qed

lemma trim_right_split: "\<exists>n. s = trim_right s c @ replicate n c"
proof -
  have tw: "takeWhile (\<lambda>x. x = c) (rev s) = replicate (length (takeWhile (\<lambda>x. x = c) (rev s))) c"
    by (induction s rule: rev_induct) auto
  have "s = rev (takeWhile (\<lambda>x. x = c) (rev s) @ dropWhile (\<lambda>x. x = c) (rev s))" by simp
  also have "\<dots> = trim_right s c @ rev (takeWhile (\<lambda>x. x = c) (rev s))"
    by (simp only: rev_append trim_right_def)
  finally show ?thesis by (metis tw rev_replicate)
qed

lemma trim_right_id: "s = [] \<or> last s \<noteq> c \<Longrightarrow> trim_right s c = s"
  by (cases s rule: rev_cases) (auto simp: trim_right_def)

lemma trim_right_idem [simp]: "trim_right (trim_right s c) c = trim_right s c"
  by (rule trim_right_id) (rule trim_right_last)

section \<open>TrimSpace\<close>

text \<open>
  The encodings of the code points \<^verbatim>\<open>unicode.IsSpace\<close> accepts: tab, newline, vertical tab,
  form feed, carriage return, space, and in UTF-8 U+0085, U+00A0, U+1680, U+2000 to U+200A,
  U+2028, U+2029, U+202F, U+205F and U+3000.
\<close>

definition byte :: "nat \<Rightarrow> char" where
  "byte n = char_of n"

definition spaces :: "string list" where
  "spaces = map (\<lambda>n. [byte n]) [9, 10, 11, 12, 13, 32]
     @ map (map byte)
        ([[194, 133], [194, 160], [225, 154, 128]]
         @ map (\<lambda>n. [226, 128, n]) [128, 129, 130, 131, 132, 133, 134, 135, 136, 137, 138, 168, 169, 175]
         @ [[226, 129, 159], [227, 128, 128]])"

text \<open>Dropping words of a list from the front, as often as one of them stands there.\<close>

function strip_words :: "string list \<Rightarrow> string \<Rightarrow> string" where
  "strip_words ws s =
     (case find (\<lambda>w. w \<noteq> [] \<and> has_prefix s w) ws of
        None \<Rightarrow> s
      | Some w \<Rightarrow> strip_words ws (drop (length w) s))"
  by pat_completeness auto
termination
  by (relation "measure (\<lambda>(ws, s). length s)") (auto simp: find_Some_iff has_prefix_iff)

declare strip_words.simps [simp del]

definition trim_space :: "string \<Rightarrow> string" where
  "trim_space s = rev (strip_words (map rev spaces) (rev (strip_words spaces s)))"

text \<open>No word of the list stands at the front.\<close>

definition bare :: "string list \<Rightarrow> string \<Rightarrow> bool" where
  "bare ws s \<longleftrightarrow> (\<forall>w \<in> set ws. w \<noteq> [] \<longrightarrow> \<not> has_prefix s w)"

lemma bare_find: "bare ws s \<longleftrightarrow> find (\<lambda>w. w \<noteq> [] \<and> has_prefix s w) ws = None"
  by (auto simp: bare_def find_None_iff)

lemma strip_words_bare: "bare ws (strip_words ws s)"
proof (induction ws s rule: strip_words.induct)
  case (1 ws s)
  then show ?case
    by (subst strip_words.simps) (auto simp: bare_find split: option.split)
qed

lemma strip_words_id: "bare ws s \<Longrightarrow> strip_words ws s = s"
  by (subst strip_words.simps) (simp add: bare_find)

lemma strip_words_suffix: "\<exists>p. s = p @ strip_words ws s"
proof (induction ws s rule: strip_words.induct)
  case (1 ws s)
  show ?case
  proof (cases "find (\<lambda>w. w \<noteq> [] \<and> has_prefix s w) ws")
    case None
    then show ?thesis by (subst strip_words.simps) simp
  next
    case (Some w)
    with "1" obtain p where "drop (length w) s = p @ strip_words ws (drop (length w) s)" by blast
    then have "s = (take (length w) s @ p) @ strip_words ws (drop (length w) s)"
      by (metis append.assoc append_take_drop_id)
    with Some show ?thesis
      by (subst strip_words.simps) (simp del: append_assoc, rule exI)
  qed
qed

lemma bare_append: "bare ws (s @ t) \<Longrightarrow> bare ws s"
  by (force simp: bare_def has_prefix_iff)

definition trimmed :: "string \<Rightarrow> bool" where
  "trimmed s \<longleftrightarrow> bare spaces s \<and> bare (map rev spaces) (rev s)"

lemma trim_space_id: "trimmed s \<Longrightarrow> trim_space s = s"
  by (simp add: trimmed_def trim_space_def strip_words_id)

lemma trim_space_trimmed: "trimmed (trim_space s)"
proof -
  let ?l = "strip_words spaces s"
  obtain p where "rev ?l = p @ rev (trim_space s)"
    using strip_words_suffix [of "rev ?l" "map rev spaces"] by (auto simp: trim_space_def)
  then have "?l = trim_space s @ rev p" by (metis rev_append rev_rev_ident)
  then have "bare spaces (trim_space s)"
    using strip_words_bare [of spaces s] bare_append by metis
  moreover have "bare (map rev spaces) (rev (trim_space s))"
    by (simp add: trim_space_def strip_words_bare)
  ultimately show ?thesis by (simp add: trimmed_def)
qed

lemma trim_space_idem [simp]: "trim_space (trim_space s) = trim_space s"
  by (rule trim_space_id) (rule trim_space_trimmed)

lemma trim_space_Nil [simp]: "trim_space [] = []"
  by (rule trim_space_id) (simp add: trimmed_def bare_def has_prefix_def)

text \<open>The first byte of a space, and the last one: no other byte can begin or end one.\<close>

definition space_head :: "char \<Rightarrow> bool" where
  "space_head c \<longleftrightarrow> c \<in> set (map hd spaces)"

definition space_last :: "char \<Rightarrow> bool" where
  "space_last c \<longleftrightarrow> c \<in> set (map last spaces)"

lemma spaces_nonempty: "w \<in> set spaces \<Longrightarrow> w \<noteq> []"
  by (auto simp: spaces_def)

lemma bare_spaces_head:
  assumes "s \<noteq> []" and "\<not> space_head (hd s)"
  shows "bare spaces s"
  unfolding bare_def
proof (intro ballI impI notI)
  fix w assume w: "w \<in> set spaces" "w \<noteq> []" and "has_prefix s w"
  then obtain t where "s = w @ t" by (auto simp: has_prefix_iff)
  with w have "hd s \<in> set (map hd spaces)" by auto
  with assms(2) show False by (simp add: space_head_def)
qed

lemma bare_spaces_last:
  assumes "s \<noteq> []" and "\<not> space_last (last s)"
  shows "bare (map rev spaces) (rev s)"
  unfolding bare_def
proof (intro ballI impI notI)
  fix v assume "v \<in> set (map rev spaces)" "v \<noteq> []" and "has_prefix (rev s) v"
  then obtain w t where w: "w \<in> set spaces" "w \<noteq> []" and "rev s = rev w @ t"
    by (auto simp: has_prefix_iff)
  then have "s = rev t @ w" by (metis rev_append rev_rev_ident)
  with w have "last s \<in> set (map last spaces)" by auto
  with assms(2) show False by (simp add: space_last_def)
qed

lemma trimmed_ends:
  "s \<noteq> [] \<Longrightarrow> \<not> space_head (hd s) \<Longrightarrow> \<not> space_last (last s) \<Longrightarrow> trimmed s"
  by (simp add: trimmed_def bare_spaces_head bare_spaces_last)

definition printable :: "char \<Rightarrow> bool" where
  "printable c \<longleftrightarrow> 33 \<le> (of_char c :: nat) \<and> (of_char c :: nat) \<le> 126"

lemma of_char_byte: "n < 256 \<Longrightarrow> (of_char (byte n) :: nat) = n"
  by (simp add: byte_def)

lemma printable_not_space: "printable c \<Longrightarrow> \<not> space_head c \<and> \<not> space_last c"
  by (auto simp: printable_def space_head_def space_last_def spaces_def of_char_byte)

lemma trim_space_printable:
  "s \<noteq> [] \<Longrightarrow> printable (hd s) \<Longrightarrow> printable (last s) \<Longrightarrow> trim_space s = s"
  by (intro trim_space_id trimmed_ends) (simp_all add: printable_not_space)

section \<open>IndexByte\<close>

fun index_byte :: "string \<Rightarrow> char \<Rightarrow> nat option" where
  "index_byte [] c = None"
| "index_byte (x # xs) c = (if x = c then Some 0 else map_option Suc (index_byte xs c))"

lemma index_byte_None: "index_byte s c = None \<longleftrightarrow> c \<notin> set s"
  by (induction s) auto

lemma index_byte_append: "c \<notin> set s \<Longrightarrow> index_byte (s @ c # t) c = Some (length s)"
  by (induction s) auto

lemma index_byte_Some:
  "index_byte s c = Some i \<Longrightarrow> i < length s \<and> s ! i = c \<and> c \<notin> set (take i s)"
  by (induction s arbitrary: i) (auto split: if_splits)

section \<open>Decimal numbers\<close>

fun udigits :: "nat \<Rightarrow> string" where
  "udigits n = (if n < 10 then [byte (48 + n)] else udigits (n div 10) @ [byte (48 + n mod 10)])"

declare udigits.simps [simp del]

definition itoa :: "int \<Rightarrow> string" where
  "itoa i = (if i < 0 then ''-'' @ udigits (nat (- i)) else udigits (nat i))"

fun undigits :: "string \<Rightarrow> nat" where
  "undigits s = foldl (\<lambda>acc c. 10 * acc + (of_char c - 48)) 0 s"

lemma undigits_udigits [simp]: "undigits (udigits n) = n"
proof (induction n rule: udigits.induct)
  case (1 n)
  show ?case
  proof (cases "n < 10")
    case True
    then show ?thesis by (subst udigits.simps) (simp add: of_char_byte)
  next
    case False
    with "1" have "undigits (udigits (n div 10)) = n div 10" by simp
    with False show ?thesis by (subst udigits.simps) (simp add: of_char_byte)
  qed
qed

lemma udigits_inj: "udigits m = udigits n \<longleftrightarrow> m = n"
  by (metis undigits_udigits)

lemma udigits_digit: "c \<in> set (udigits n) \<Longrightarrow> 48 \<le> (of_char c :: nat) \<and> (of_char c :: nat) \<le> 57"
proof (induction n rule: udigits.induct)
  case (1 n)
  then show ?case
    by (subst (asm) (2) udigits.simps) (auto simp: of_char_byte split: if_splits)
qed

end
