(* ===== verification/Http.thy ===== *)
theory Http
  imports Go_Strings
begin

text \<open>
  What the gateway uses of \<^verbatim>\<open>net/http\<close> and \<^verbatim>\<open>net/url\<close>: URLs, headers with canonical keys,
  requests with their context, and response writers. A response writer is either the connection
  itself or a recorder (\<^verbatim>\<open>statusRecorder\<close> of \<^verbatim>\<open>internal/server/middleware.go\<close>) around one. Status
  codes are those \<^verbatim>\<open>WriteHeader\<close> accepts, 100 to 999.
\<close>

section \<open>URLs\<close>

record url =
  url_Scheme :: string
  url_Host :: string
  url_Path :: string
  url_RawPath :: string
  url_RawQuery :: string
  url_Rest :: string

type_synonym url_parser = "string \<Rightarrow> string + url"

section \<open>Headers\<close>

type_synonym header = "string \<Rightarrow> string list"

definition code_of :: "char \<Rightarrow> nat" where
  "code_of c = of_char c"

definition lower_ascii :: "char \<Rightarrow> bool" where
  "lower_ascii c \<longleftrightarrow> 97 \<le> code_of c \<and> code_of c \<le> 122"

definition upper_ascii :: "char \<Rightarrow> bool" where
  "upper_ascii c \<longleftrightarrow> 65 \<le> code_of c \<and> code_of c \<le> 90"

definition digit_ascii :: "char \<Rightarrow> bool" where
  "digit_ascii c \<longleftrightarrow> 48 \<le> code_of c \<and> code_of c \<le> 57"

definition token_char :: "char \<Rightarrow> bool" where
  "token_char c \<longleftrightarrow> lower_ascii c \<or> upper_ascii c \<or> digit_ascii c \<or>
     code_of c \<in> {33, 35, 36, 37, 38, 39, 42, 43, 45, 46, 94, 95, 96, 124, 126}"

fun canonical :: "bool \<Rightarrow> string \<Rightarrow> string" where
  "canonical upper [] = []"
| "canonical upper (c # cs) =
     (let c' = (if upper \<and> lower_ascii c then byte (code_of c - 32)
                else if \<not> upper \<and> upper_ascii c then byte (code_of c + 32) else c)
      in c' # canonical (c' = CHR ''-'') cs)"

text \<open>\<^verbatim>\<open>textproto.CanonicalMIMEHeaderKey\<close>: a key with a byte that no token has stays as it is.\<close>

definition header_key :: "string \<Rightarrow> string" where
  "header_key k = (if list_all token_char k then canonical True k else k)"

definition header_set :: "string \<Rightarrow> string \<Rightarrow> header \<Rightarrow> header" where
  "header_set k v h = h(header_key k := [v])"

definition header_del :: "string \<Rightarrow> header \<Rightarrow> header" where
  "header_del k h = h(header_key k := [])"

definition header_get :: "string \<Rightarrow> header \<Rightarrow> string" where
  "header_get k h = (case h (header_key k) of [] \<Rightarrow> '''' | v # _ \<Rightarrow> v)"

lemma header_get_set_same [simp]: "header_get k (header_set k v h) = v"
  by (simp add: header_get_def header_set_def)

lemma header_set_other: "header_key k \<noteq> header_key k' \<Longrightarrow> header_get k (header_set k' v h) = header_get k h"
  by (simp add: header_get_def header_set_def)

lemma header_del_get [simp]: "header_get k (header_del k h) = ''''"
  by (simp add: header_get_def header_del_def)

lemma header_keys [simp]:
  "header_key ''X-Gateway'' = ''X-Gateway''"
  "header_key ''X-Gateway-Route'' = ''X-Gateway-Route''"
  "header_key ''X-Gateway-Upstream'' = ''X-Gateway-Upstream''"
  "header_key ''X-Gateway-Backend-Health'' = ''X-Gateway-Backend-Health''"
  "header_key ''X-Trace-ID'' = ''X-Trace-Id''"
  "header_key ''X-Admin-Token'' = ''X-Admin-Token''"
  "header_key ''X-Forwarded-For'' = ''X-Forwarded-For''"
  "header_key ''X-Forwarded-Host'' = ''X-Forwarded-Host''"
  "header_key ''X-Forwarded-Proto'' = ''X-Forwarded-Proto''"
  "header_key ''Content-Type'' = ''Content-Type''"
  "header_key ''Content-Length'' = ''Content-Length''"
  "header_key ''X-Content-Type-Options'' = ''X-Content-Type-Options''"
  by code_simp+

section \<open>Requests\<close>

text \<open>
  The values the gateway puts into a request's context: the upstream chosen for it (a position),
  the route it matched, and the deadline of the timeout middleware.
\<close>

record req_context =
  ctx_upstream :: "nat option"
  ctx_routeID :: "string option"
  ctx_deadline :: "go_time option"

record http_request =
  rq_Method :: string
  rq_URL :: url
  rq_Host :: string
  rq_RemoteAddr :: string
  rq_TLS :: bool
  rq_Header :: header
  rq_Context :: req_context

section \<open>Response writers\<close>

text \<open>
  The connection: the header map a handler edits, the informational statuses sent, the final
  status with the headers that went with it, and the body.
\<close>

record conn =
  cn_header :: header
  cn_informed :: "int list"
  cn_status :: "int option"
  cn_sent :: header
  cn_body :: string

record statusRecorder =
  sr_statusCode :: int
  sr_bytesWritten :: int
  sr_wroteHeader :: bool
  sr_routeID :: string

datatype writer = Conn conn | Recorder statusRecorder writer

definition new_conn :: conn where
  "new_conn = \<lparr>cn_header = (\<lambda>_. []), cn_informed = [], cn_status = None, cn_sent = (\<lambda>_. []), cn_body = ''''\<rparr>"

definition newStatusRecorder :: "writer \<Rightarrow> writer" where
  "newStatusRecorder w =
     Recorder \<lparr>sr_statusCode = 0, sr_bytesWritten = 0, sr_wroteHeader = False, sr_routeID = ''''\<rparr> w"

fun the_conn :: "writer \<Rightarrow> conn" where
  "the_conn (Conn c) = c"
| "the_conn (Recorder r w) = the_conn w"

fun edit_header :: "(header \<Rightarrow> header) \<Rightarrow> writer \<Rightarrow> writer" where
  "edit_header f (Conn c) = Conn (c\<lparr>cn_header := f (cn_header c)\<rparr>)"
| "edit_header f (Recorder r w) = Recorder r (edit_header f w)"

text \<open>An informational status other than 101 is sent at once and leaves the final one open.\<close>

definition informational :: "int \<Rightarrow> bool" where
  "informational status \<longleftrightarrow> 100 \<le> status \<and> status \<le> 199 \<and> status \<noteq> 101"

definition conn_WriteHeader :: "int \<Rightarrow> conn \<Rightarrow> conn" where
  "conn_WriteHeader status c =
     (if cn_status c \<noteq> None then c
      else if informational status then c\<lparr>cn_informed := cn_informed c @ [status]\<rparr>
      else c\<lparr>cn_status := Some status, cn_sent := cn_header c\<rparr>)"

fun w_WriteHeader :: "int \<Rightarrow> writer \<Rightarrow> writer" where
  "w_WriteHeader status (Conn c) = Conn (conn_WriteHeader status c)"
| "w_WriteHeader status (Recorder r w) =
     (if sr_wroteHeader r then Recorder r w
      else Recorder (r\<lparr>sr_statusCode := status, sr_wroteHeader := True\<rparr>) (w_WriteHeader status w))"

fun layers :: "writer \<Rightarrow> nat" where
  "layers (Conn c) = 0"
| "layers (Recorder r w) = Suc (layers w)"

lemma layers_WriteHeader [simp]: "layers (w_WriteHeader status w) = layers w"
  by (induction w) simp_all

text \<open>\<^verbatim>\<open>Write\<close>, for a connection that takes all the bytes; the byte counter is an \<^verbatim>\<open>int64\<close>.\<close>

definition count_bytes :: "string \<Rightarrow> statusRecorder \<Rightarrow> statusRecorder" where
  "count_bytes data r = r\<lparr>sr_bytesWritten := i64 (sr_bytesWritten r + int (length data))\<rparr>"

function w_Write :: "string \<Rightarrow> writer \<Rightarrow> writer" where
  "w_Write data (Conn c) =
     (let c' = conn_WriteHeader 200 c in Conn (c'\<lparr>cn_body := cn_body c' @ data\<rparr>))"
| "w_Write data (Recorder r w) =
     (if \<not> sr_wroteHeader r
      then Recorder (count_bytes data (r\<lparr>sr_statusCode := 200, sr_wroteHeader := True\<rparr>))
             (w_Write data (w_WriteHeader 200 w))
      else Recorder (count_bytes data r) (w_Write data w))"
  by pat_completeness auto
termination
  by (relation "measure (\<lambda>(data, w). layers w)") simp_all

text \<open>\<^verbatim>\<open>Flush\<close>: a pending header is written first.\<close>

function w_Flush :: "writer \<Rightarrow> writer" where
  "w_Flush (Conn c) = Conn (conn_WriteHeader 200 c)"
| "w_Flush (Recorder r w) =
     (if \<not> sr_wroteHeader r
      then Recorder (r\<lparr>sr_statusCode := 200, sr_wroteHeader := True\<rparr>) (w_Flush (w_WriteHeader 200 w))
      else Recorder r (w_Flush w))"
  by pat_completeness auto
termination
  by (relation "measure layers") simp_all

text \<open>\<^verbatim>\<open>http.Error\<close>\<close>

definition http_Error :: "string \<Rightarrow> int \<Rightarrow> writer \<Rightarrow> writer" where
  "http_Error msg status w =
     w_Write (msg @ [byte 10])
       (w_WriteHeader status
         (edit_header (header_set ''X-Content-Type-Options'' ''nosniff'')
           (edit_header (header_set ''Content-Type'' ''text/plain; charset=utf-8'')
             (edit_header (header_del ''Content-Length'') w))))"

definition StatusText :: "int \<Rightarrow> string" where
  "StatusText status =
     (if status = 502 then ''Bad Gateway'' else if status = 504 then ''Gateway Timeout'' else '''')"

text \<open>A writer nothing has been written to.\<close>

fun untouched :: "writer \<Rightarrow> bool" where
  "untouched (Conn c) = (cn_status c = None \<and> cn_body c = '''')"
| "untouched (Recorder r w) =
     (\<not> sr_wroteHeader r \<and> sr_statusCode r = 0 \<and> sr_bytesWritten r = 0 \<and> untouched w)"

lemma untouched_edit [simp]: "untouched (edit_header f w) = untouched w"
  by (induction w) simp_all

lemma untouched_new [simp]: "untouched (newStatusRecorder w) = untouched w" "untouched (Conn new_conn)"
  by (simp_all add: newStatusRecorder_def new_conn_def)

lemma new_conn_fields [simp]:
  "cn_status new_conn = None" "cn_body new_conn = ''''" "cn_header new_conn = (\<lambda>_. [])"
  "cn_informed new_conn = []"
  by (simp_all add: new_conn_def)

lemma the_conn_edit [simp]:
  "the_conn (edit_header f w) = (the_conn w)\<lparr>cn_header := f (cn_header (the_conn w))\<rparr>"
  by (induction w) simp_all

lemma the_conn_newRecorder [simp]: "the_conn (newStatusRecorder w) = the_conn w"
  by (simp add: newStatusRecorder_def)

lemma the_conn_WriteHeader: "untouched w \<Longrightarrow> the_conn (w_WriteHeader status w) = conn_WriteHeader status (the_conn w)"
  by (induction w) simp_all


text \<open>A writer on which the final status has been written, through every layer.\<close>

fun written :: "writer \<Rightarrow> bool" where
  "written (Conn c) = (cn_status c \<noteq> None)"
| "written (Recorder r w) = (sr_wroteHeader r \<and> written w)"

lemma written_WriteHeader:
  "untouched w \<Longrightarrow> \<not> informational status \<Longrightarrow> written (w_WriteHeader status w)"
  by (induction w) (auto simp: conn_WriteHeader_def)

lemma written_Write: "written w \<Longrightarrow> written (w_Write data w)"
  by (induction w) (auto simp: conn_WriteHeader_def count_bytes_def)

lemma written_fixed [simp]: "written w \<Longrightarrow> w_WriteHeader status w = w"
  by (cases w) (auto simp: conn_WriteHeader_def)

lemma the_conn_Write:
  "written w \<Longrightarrow> the_conn (w_Write data w) = (the_conn w)\<lparr>cn_body := cn_body (the_conn w) @ data\<rparr>"
  by (induction w) (auto simp: conn_WriteHeader_def)

lemma written_status: "written w \<Longrightarrow> cn_status (the_conn w) \<noteq> None"
  by (induction w) auto

definition error_header :: "header \<Rightarrow> header" where
  "error_header h = header_set ''X-Content-Type-Options'' ''nosniff''
     (header_set ''Content-Type'' ''text/plain; charset=utf-8'' (header_del ''Content-Length'' h))"

lemma untouched_conn: "untouched w \<Longrightarrow> cn_status (the_conn w) = None \<and> cn_body (the_conn w) = ''''"
  by (induction w) auto

lemma http_Error_conn:
  assumes "untouched w" and "\<not> informational status"
  shows "the_conn (http_Error msg status w) =
    (the_conn w)\<lparr>cn_header := error_header (cn_header (the_conn w)), cn_status := Some status,
      cn_sent := error_header (cn_header (the_conn w)), cn_body := msg @ [byte 10]\<rparr>"
proof -
  let ?w = "edit_header (header_set ''X-Content-Type-Options'' ''nosniff'')
    (edit_header (header_set ''Content-Type'' ''text/plain; charset=utf-8'')
      (edit_header (header_del ''Content-Length'') w))"
  have u: "untouched ?w" using assms(1) by simp
  have "the_conn (http_Error msg status w) =
      (conn_WriteHeader status (the_conn ?w))\<lparr>cn_body := cn_body (conn_WriteHeader status (the_conn ?w)) @ msg @ [byte 10]\<rparr>"
    unfolding http_Error_def using written_WriteHeader [OF u assms(2)]
    by (simp only: the_conn_Write the_conn_WriteHeader [OF u])
  then show ?thesis
    using untouched_conn [OF assms(1)] assms(2) by (simp add: conn_WriteHeader_def error_header_def)
qed

text \<open>What a recorder directly around the connection has counted after an error page.\<close>

lemma http_Error_recorder:
  assumes "untouched (Recorder r w)" and "\<not> informational status"
  shows "\<exists>w'. http_Error msg status (Recorder r w) =
    Recorder (r\<lparr>sr_statusCode := status, sr_wroteHeader := True,
      sr_bytesWritten := i64 (int (length msg) + 1)\<rparr>) w'"
  using assms by (simp add: http_Error_def count_bytes_def algebra_simps)

end
