(* ===== verification/Go_Float.thy ===== *)
theory Go_Float
  imports Complex_Main "HOL-Library.Log_Nat"
begin

text \<open>
  Go's \<^verbatim>\<open>float64\<close> where the gateway computes with it: values are rationals, and every operation
  rounds to 53 significant bits, to the nearest value and to the even one of two. All values that
  occur lie far inside the range of normal numbers, so exponents are not bounded.
\<close>

definition round_half_even :: "rat \<Rightarrow> int" where
  "round_half_even y =
     (let f = \<lfloor>y\<rfloor>; d = y - of_int f
      in if d < 1 / 2 then f else if 1 / 2 < d then f + 1 else if even f then f else f + 1)"

definition exponent :: "rat \<Rightarrow> int" where
  "exponent x =
     (let (p, q) = quotient_of x; e = bitlen p - bitlen q - 53
      in if x < 2 powi (e + 53) then e else e + 1)"

definition fl :: "rat \<Rightarrow> rat" where
  "fl x =
     (if x = 0 then 0
      else let y = \<bar>x\<bar>; e = exponent y in sgn x * (of_int (round_half_even (y / 2 powi e)) * 2 powi e))"

definition fl_mul :: "rat \<Rightarrow> rat \<Rightarrow> rat" where
  "fl_mul a b = fl (a * b)"

definition fl_div :: "rat \<Rightarrow> rat \<Rightarrow> rat" where
  "fl_div a b = fl (a / b)"

section \<open>Rounding error\<close>

lemma round_half_even_error: "\<bar>of_int (round_half_even y) - y\<bar> \<le> 1 / 2"
proof -
  have "0 \<le> y - of_int \<lfloor>y\<rfloor>" "y - of_int \<lfloor>y\<rfloor> < 1" by linarith+
  then show ?thesis by (auto simp: round_half_even_def Let_def abs_le_iff)
qed

lemma round_half_even_int [simp]: "round_half_even (of_int i) = i"
  by (simp add: round_half_even_def)

lemma bitlen_range:
  assumes "0 < p"
  shows "(2 :: rat) powi (bitlen p - 1) \<le> of_int p \<and> of_int p < (2 :: rat) powi bitlen p"
proof -
  have pos: "1 \<le> bitlen p" using bitlen_ge_iff_power [of 1 p] assms by simp
  have b: "2 ^ nat (bitlen p - 1) \<le> p" "p < 2 ^ nat (bitlen p)"
    using bitlen_bounds [of p] assms by simp_all
  have "(2 :: rat) powi (bitlen p - 1) = of_int (2 ^ nat (bitlen p - 1))"
    using pos by (simp add: power_int_def)
  moreover have "(2 :: rat) powi bitlen p = of_int (2 ^ nat (bitlen p))"
    using pos by (simp add: power_int_def)
  ultimately show ?thesis using b by (simp only: of_int_le_iff of_int_less_iff)
qed

lemma exponent_range:
  assumes "0 < x"
  shows "2 ^ 52 \<le> x / 2 powi exponent x"
proof -
  obtain p q where pq: "quotient_of x = (p, q)" by (cases "quotient_of x")
  have q: "0 < q" using pq quotient_of_denom_pos by blast
  have x: "x = of_int p / of_int q" using pq quotient_of_div by blast
  with assms q have p: "0 < p" by (simp add: zero_less_divide_iff)
  let ?e = "bitlen p - bitlen q - 53"
  have "(2 :: rat) powi (?e + 52) * of_int q \<le> 2 powi (?e + 52) * 2 powi bitlen q"
    using bitlen_range [OF q] by (intro mult_left_mono) simp_all
  also have "\<dots> = 2 powi (bitlen p - 1)" by (simp add: power_int_add [symmetric])
  also have "\<dots> \<le> of_int p" using bitlen_range [OF p] by simp
  finally have "2 powi (?e + 52) \<le> x" using q by (simp add: x field_simps)
  then have "2 powi (exponent x + 52) \<le> x"
    by (simp add: exponent_def pq Let_def)
  then have "2 powi exponent x * 2 ^ 52 \<le> x" by (simp add: power_int_add)
  then show ?thesis by (simp add: field_simps)
qed

lemma fl_error:
  assumes "0 < x"
  shows "\<bar>fl x - x\<bar> \<le> x / 2 ^ 53"
proof -
  let ?s = "(2 :: rat) powi exponent x"
  let ?y = "x / ?s"
  have s: "0 < ?s" by simp
  have half: "1 / 2 \<le> ?y / 2 ^ 53" using exponent_range [OF assms] by (simp add: field_simps)
  have "\<bar>of_int (round_half_even ?y) - ?y\<bar> \<le> ?y / 2 ^ 53"
    using round_half_even_error [of ?y] half by (rule order_trans)
  then have "\<bar>of_int (round_half_even ?y) - ?y\<bar> * ?s \<le> ?y / 2 ^ 53 * ?s"
    using s by (intro mult_right_mono) simp_all
  moreover have "\<bar>of_int (round_half_even ?y) - ?y\<bar> * ?s = \<bar>fl x - x\<bar>"
  proof -
    have "fl x - x = (of_int (round_half_even ?y) - ?y) * ?s"
      using s assms by (simp add: fl_def Let_def left_diff_distrib)
    then show ?thesis using s by (simp add: abs_mult)
  qed
  ultimately show ?thesis using s by simp
qed

lemma fl_bounds:
  assumes "0 \<le> x"
  shows "x * (1 - 1 / 2 ^ 53) \<le> fl x" and "fl x \<le> x * (1 + 1 / 2 ^ 53)" and "0 \<le> fl x"
proof -
  have *: "x * (1 - 1 / 2 ^ 53) \<le> fl x \<and> fl x \<le> x * (1 + 1 / 2 ^ 53)"
  proof (cases "x = 0")
    case False
    with assms have "\<bar>fl x - x\<bar> \<le> x / 2 ^ 53" by (intro fl_error) simp
    then have "x - x / 2 ^ 53 \<le> fl x \<and> fl x \<le> x + x / 2 ^ 53"
      unfolding abs_le_iff by (simp add: algebra_simps)
    moreover have "x * (1 - 1 / 2 ^ 53) = x - x / 2 ^ 53" "x * (1 + 1 / 2 ^ 53) = x + x / 2 ^ 53"
      by (simp_all add: algebra_simps)
    ultimately show ?thesis by simp
  qed (simp add: fl_def)
  then show "x * (1 - 1 / 2 ^ 53) \<le> fl x" and "fl x \<le> x * (1 + 1 / 2 ^ 53)" by auto
  have "0 \<le> x * (1 - 1 / 2 ^ 53)" using assms by simp
  with * show "0 \<le> fl x" by (blast intro: order_trans)
qed

text \<open>Integers below \<open>2 ^ 53\<close> are represented exactly.\<close>

lemma fl_int:
  assumes "0 \<le> n" and "n < 2 ^ 53"
  shows "fl (of_int n) = of_int n"
proof (cases "n = 0")
  case False
  with assms have n: "0 < n" by simp
  have "bitlen n \<le> 53"
    using assms n bitlen_le_iff_power [of n 53] by simp
  then have "exponent (of_int n) \<le> 0" by (simp add: exponent_def Let_def bitlen_def floorlog_def)
  then obtain k where k: "exponent (of_int n) = - int k" by (metis nonpos_int_cases)
  have "of_int n / 2 powi exponent (of_int n) = (of_int (n * 2 ^ k) :: rat)"
    by (simp add: k power_int_minus field_simps)
  then have "of_int (round_half_even (of_int n / 2 powi exponent (of_int n))) = (of_int (n * 2 ^ k) :: rat)"
    by (simp only: round_half_even_int)
  then show ?thesis
    using n by (simp add: fl_def Let_def k power_int_minus field_simps)
qed (simp add: fl_def)

end
