(* ===== verification/Metrics.thy ===== *)
theory Metrics
  imports Http Go_Float "HOL-Library.AList" "HOL-Library.List_Lexorder" "HOL-Library.Char_ord"
begin

text \<open>
  \<^verbatim>\<open>internal/metrics/registry.go\<close>: counters for all requests and for each route. Counters are
  \<^verbatim>\<open>int64\<close> and wrap; a Go map is an association list with distinct keys, so that its keys can be
  listed and sorted; seconds and milliseconds are \<^verbatim>\<open>float64\<close> values, rounded as Go rounds them.
\<close>

section \<open>Data\<close>

definition defaultDurationBucketsSeconds :: "rat list" where
  "defaultDurationBucketsSeconds =
     [fl (1 / 1000), fl (5 / 1000), fl (1 / 100), fl (25 / 1000), fl (5 / 100), fl (1 / 10),
      fl (25 / 100), fl (5 / 10), fl 1, fl (25 / 10), fl 5, fl 10]"

record bucket =
  b_requests :: int
  b_bytesWritten :: int
  b_totalLatencyNs :: int
  b_maxLatencyNs :: int
  b_statusCodes :: "(int \<times> int) list"
  b_durationBucketCounts :: "int list"

record registry =
  reg_startTime :: go_time
  reg_total :: bucket
  reg_routes :: "(string \<times> bucket) list"

record metricsRecord =
  mr_RouteID :: string
  mr_StatusCode :: go_int
  mr_ByteWritten :: int
  mr_Latency :: duration

record histogramSnapshot =
  hgs_Buckets :: "(string \<times> int) list"
  hgs_SumSeconds :: rat
  hgs_Count :: int

record bucketSnapshot =
  bs_Requests :: int
  bs_BytesWritten :: int
  bs_AvgLatencyMs :: rat
  bs_MaxLatencyMs :: rat
  bs_StatusCodes :: "(string \<times> int) list"
  bs_DurationHistogram :: histogramSnapshot

record metricsSnapshot =
  ms_Uptime :: duration
  ms_UptimeSeconds :: rat
  ms_Total :: bucketSnapshot
  ms_Routes :: "(string \<times> bucketSnapshot) list"

section \<open>Recording\<close>

definition newBucket :: bucket where
  "newBucket = \<lparr>b_requests = 0, b_bytesWritten = 0, b_totalLatencyNs = 0, b_maxLatencyNs = 0,
     b_statusCodes = [], b_durationBucketCounts = replicate (length defaultDurationBucketsSeconds) 0\<rparr>"

definition NewRegistry :: "go_time \<Rightarrow> registry" where
  "NewRegistry now = \<lparr>reg_startTime = now, reg_total = newBucket, reg_routes = []\<rparr>"

definition float64_of :: "int \<Rightarrow> rat" where
  "float64_of n = fl (of_int n)"

text \<open>The loop over the bounds; the counts have one entry for each of them.\<close>

fun bump_counts :: "rat \<Rightarrow> rat list \<Rightarrow> int list \<Rightarrow> int list" where
  "bump_counts latencySeconds (upperBound # bs) (n # ns) =
     (if latencySeconds \<le> upperBound then i64 (n + 1) else n) # bump_counts latencySeconds bs ns"
| "bump_counts latencySeconds bs ns = ns"

definition recordBucket :: "int \<Rightarrow> int \<Rightarrow> int \<Rightarrow> bucket \<Rightarrow> bucket" where
  "recordBucket statusCode bytesWritten latencyNs b =
     (let count = (case map_of (b_statusCodes b) statusCode of None \<Rightarrow> 0 | Some n \<Rightarrow> n);
          latencySeconds = fl_div (float64_of latencyNs) (float64_of second)
      in b\<lparr>b_requests := i64 (b_requests b + 1),
           b_bytesWritten := i64 (b_bytesWritten b + bytesWritten),
           b_totalLatencyNs := i64 (b_totalLatencyNs b + latencyNs),
           b_statusCodes := AList.update statusCode (i64 (count + 1)) (b_statusCodes b),
           b_maxLatencyNs := (if latencyNs > b_maxLatencyNs b then latencyNs else b_maxLatencyNs b),
           b_durationBucketCounts :=
             bump_counts latencySeconds defaultDurationBucketsSeconds (b_durationBucketCounts b)\<rparr>)"

definition record_defaults :: "metricsRecord \<Rightarrow> metricsRecord" where
  "record_defaults r =
     r\<lparr>mr_RouteID := (if mr_RouteID r = '''' then ''unknown'' else mr_RouteID r),
       mr_StatusCode := (if mr_StatusCode r \<le> 0 then 200 else mr_StatusCode r),
       mr_Latency := (if mr_Latency r < 0 then 0 else mr_Latency r)\<rparr>"

definition Record :: "metricsRecord \<Rightarrow> registry \<Rightarrow> registry" where
  "Record rec0 reg =
     (let rec = record_defaults rec0;
          add = recordBucket (mr_StatusCode rec) (mr_ByteWritten rec) (mr_Latency rec);
          routeBucket = (case map_of (reg_routes reg) (mr_RouteID rec) of None \<Rightarrow> newBucket | Some b \<Rightarrow> b)
      in reg\<lparr>reg_total := add (reg_total reg),
             reg_routes := AList.update (mr_RouteID rec) (add routeBucket) (reg_routes reg)\<rparr>)"

section \<open>Snapshots\<close>

text \<open>
  \<^verbatim>\<open>strconv.FormatFloat(value, 'f', -1, 64)\<close> of the twelve bounds, which it is applied to: the
  shortest decimal that rounds to the value.
\<close>

definition bucket_labels :: "string list" where
  "bucket_labels = [''0.001'', ''0.005'', ''0.01'', ''0.025'', ''0.05'', ''0.1'', ''0.25'', ''0.5'',
     ''1'', ''2.5'', ''5'', ''10'']"

definition formatBucketBoundary :: "rat \<Rightarrow> string" where
  "formatBucketBoundary value = the (map_of (zip defaultDurationBucketsSeconds bucket_labels) value)"

definition snapshotHistogram :: "bucket \<Rightarrow> histogramSnapshot" where
  "snapshotHistogram b =
     \<lparr>hgs_Buckets = AList.update ''+Inf'' (b_requests b)
        (fold (\<lambda>(upperBound, n). AList.update (formatBucketBoundary upperBound) n)
          (zip defaultDurationBucketsSeconds (b_durationBucketCounts b)) []),
      hgs_SumSeconds = fl_div (float64_of (b_totalLatencyNs b)) (float64_of second),
      hgs_Count = b_requests b\<rparr>"

definition emptyHistogramSnapshot :: histogramSnapshot where
  "emptyHistogramSnapshot =
     \<lparr>hgs_Buckets = AList.update ''+Inf'' 0
        (fold (\<lambda>upperBound. AList.update (formatBucketBoundary upperBound) 0) defaultDurationBucketsSeconds []),
      hgs_SumSeconds = 0, hgs_Count = 0\<rparr>"

fun snapshotBucket :: "bucket option \<Rightarrow> bucketSnapshot" where
  "snapshotBucket None =
     \<lparr>bs_Requests = 0, bs_BytesWritten = 0, bs_AvgLatencyMs = 0, bs_MaxLatencyMs = 0, bs_StatusCodes = [],
      bs_DurationHistogram = emptyHistogramSnapshot\<rparr>"
| "snapshotBucket (Some b) =
     \<lparr>bs_Requests = b_requests b, bs_BytesWritten = b_bytesWritten b,
      bs_AvgLatencyMs = (if b_requests b > 0
        then fl_div (fl_div (float64_of (b_totalLatencyNs b)) (float64_of (b_requests b))) (float64_of millisecond)
        else 0),
      bs_MaxLatencyMs = fl_div (float64_of (b_maxLatencyNs b)) (float64_of millisecond),
      bs_StatusCodes = map (\<lambda>code. (itoa code, the (map_of (b_statusCodes b) code)))
        (sort (map fst (b_statusCodes b))),
      bs_DurationHistogram = snapshotHistogram b\<rparr>"

text \<open>\<^verbatim>\<open>Duration.Seconds\<close>\<close>

definition duration_seconds :: "duration \<Rightarrow> rat" where
  "duration_seconds d =
     fl (float64_of (sgn d * (\<bar>d\<bar> div second)) + fl_div (float64_of (sgn d * (\<bar>d\<bar> mod second))) (fl 1000000000))"

definition metrics_Snapshot :: "go_time \<Rightarrow> registry \<Rightarrow> metricsSnapshot" where
  "metrics_Snapshot now reg =
     (let uptime = now - reg_startTime reg
      in \<lparr>ms_Uptime = uptime, ms_UptimeSeconds = duration_seconds uptime,
          ms_Total = snapshotBucket (Some (reg_total reg)),
          ms_Routes = map (\<lambda>routeID. (routeID, snapshotBucket (map_of (reg_routes reg) routeID)))
            (sort (map fst (reg_routes reg)))\<rparr>)"

section \<open>The histogram's bounds\<close>

text \<open>The bounds in nanoseconds.\<close>

definition bounds_ns :: "int list" where
  "bounds_ns = [1000000, 5000000, 10000000, 25000000, 50000000, 100000000, 250000000, 500000000,
     1000000000, 2500000000, 5000000000, 10000000000]"

lemma default_buckets_ns:
  "defaultDurationBucketsSeconds = map (\<lambda>B. fl (of_int B / 10 ^ 9)) bounds_ns"
  by (simp add: defaultDurationBucketsSeconds_def bounds_ns_def)

lemma bounds_ns_range: "list_all (\<lambda>B. 1 \<le> B \<and> B \<le> 10 ^ 10) bounds_ns"
  by (simp add: bounds_ns_def)

lemma bounds_length [simp]: "length bounds_ns = 12" "length defaultDurationBucketsSeconds = 12"
  "length bucket_labels = 12"
  by (simp_all add: bounds_ns_def defaultDurationBucketsSeconds_def bucket_labels_def)

text \<open>
  The comparison in \<^verbatim>\<open>float64\<close> is the comparison of the nanoseconds: the rounding of the latency,
  of the quotient and of the bound never puts a latency on the wrong side.
\<close>

lemma float_error_below: "(b :: rat) \<le> 10 ^ 10 \<Longrightarrow> 1 \<le> b \<Longrightarrow>
    (b - 1) * (1 + 1 / 2 ^ 53) < b * (1 - 1 / 2 ^ 53)"
  by (simp add: field_simps)

lemma float_error_above: "(b :: rat) \<le> 10 ^ 10 \<Longrightarrow> 1 \<le> b \<Longrightarrow>
    b * (1 + 1 / 2 ^ 53) < (b + 1) * (1 - 1 / 2 ^ 53) * (1 - 1 / 2 ^ 53)"
  by (simp add: field_simps)

lemma second_float: "float64_of second = 10 ^ 9"
  using fl_int [of second] by (simp add: float64_of_def)

lemma latency_le_bound:
  assumes "0 \<le> ns" and "1 \<le> B" and "B \<le> 10 ^ 10"
  shows "fl_div (float64_of ns) (float64_of second) \<le> fl (of_int B / 10 ^ 9) \<longleftrightarrow> ns \<le> B"
proof -
  let ?b = "of_int B :: rat"
  let ?q = "fl_div (float64_of ns) (float64_of second)" and ?c = "fl (?b / 10 ^ 9)"
  have b: "1 \<le> ?b" "?b \<le> 10 ^ 10" using assms(2,3) by simp_all
  have q: "?q = fl (fl (of_int ns) / 10 ^ 9)" by (simp add: fl_div_def second_float) (simp add: float64_of_def)
  have c: "?b / 10 ^ 9 * (1 - 1 / 2 ^ 53) \<le> ?c" "?c \<le> ?b / 10 ^ 9 * (1 + 1 / 2 ^ 53)"
    using b by (intro fl_bounds; simp)+
  show ?thesis
  proof (cases "ns \<le> B")
    case le: True
    with assms have ns: "fl (of_int ns) = of_int ns" by (intro fl_int) simp_all
    show ?thesis
    proof (cases "ns = B")
      case True
      then have "?q = ?c" unfolding q ns by simp
      with True show ?thesis by simp
    next
      case False
      then have lt: "of_int ns \<le> ?b - 1" using le by (metis of_int_1 of_int_diff of_int_le_iff zle_diff1_eq order_le_less)
      have "?q \<le> of_int ns / 10 ^ 9 * (1 + 1 / 2 ^ 53)"
        unfolding q ns using assms(1) by (intro fl_bounds) simp
      also have "\<dots> = of_int ns * (1 + 1 / 2 ^ 53) / 10 ^ 9" by simp
      also have "\<dots> \<le> (?b - 1) * (1 + 1 / 2 ^ 53) / 10 ^ 9"
        using lt by (intro divide_right_mono mult_right_mono) simp_all
      also have "\<dots> \<le> ?b * (1 - 1 / 2 ^ 53) / 10 ^ 9"
        using float_error_below [OF b(2,1)] by (intro divide_right_mono) simp_all
      also have "\<dots> \<le> ?c" using c(1) by simp
      finally show ?thesis using le by simp
    qed
  next
    case False
    then have "B + 1 \<le> ns" by simp
    then have gt: "?b + 1 \<le> of_int ns" by (metis of_int_1 of_int_add of_int_le_iff)
    have x: "of_int ns * (1 - 1 / 2 ^ 53) \<le> fl (of_int ns)" and x0: "0 \<le> fl (of_int ns)"
      using assms(1) by (intro fl_bounds; simp)+
    have "?c \<le> ?b * (1 + 1 / 2 ^ 53) / 10 ^ 9" using c(2) by simp
    also have "\<dots> < (?b + 1) * (1 - 1 / 2 ^ 53) * (1 - 1 / 2 ^ 53) / 10 ^ 9"
      using float_error_above [OF b(2,1)] by (intro divide_strict_right_mono) simp_all
    also have "\<dots> \<le> of_int ns * (1 - 1 / 2 ^ 53) * (1 - 1 / 2 ^ 53) / 10 ^ 9"
      using gt by (intro divide_right_mono mult_right_mono) simp_all
    also have "\<dots> \<le> fl (of_int ns) * (1 - 1 / 2 ^ 53) / 10 ^ 9"
      using x by (intro divide_right_mono mult_right_mono) simp_all
    also have "\<dots> = fl (of_int ns) / 10 ^ 9 * (1 - 1 / 2 ^ 53)" by simp
    also have "\<dots> \<le> ?q" unfolding q using x0 by (intro fl_bounds) simp
    finally show ?thesis using False by simp
  qed
qed

section \<open>What a bucket counts\<close>

text \<open>A request as a bucket counts it: status, bytes, nanoseconds.\<close>

type_synonym sample = "int \<times> int \<times> int"

definition add_sample :: "sample \<Rightarrow> bucket \<Rightarrow> bucket" where
  "add_sample s = recordBucket (fst s) (fst (snd s)) (snd (snd s))"

lemma bump_counts_nth:
  "length bs = length ns \<Longrightarrow> bump_counts l bs ns = map (\<lambda>(b, n). if l \<le> b then i64 (n + 1) else n) (zip bs ns)"
  by (induction l bs ns rule: bump_counts.induct) simp_all

text \<open>The counters of a bucket as functions of the list of its samples.\<close>

definition counts_samples :: "sample list \<Rightarrow> bucket \<Rightarrow> bool" where
  "counts_samples ss b \<longleftrightarrow>
     b_requests b = i64 (int (length ss)) \<and>
     b_bytesWritten b = i64 (sum_list (map (fst \<circ> snd) ss)) \<and>
     b_totalLatencyNs b = i64 (sum_list (map (snd \<circ> snd) ss)) \<and>
     b_maxLatencyNs b = fold max (map (snd \<circ> snd) ss) 0 \<and>
     distinct (map fst (b_statusCodes b)) \<and>
     (\<forall>code. map_of (b_statusCodes b) code =
        (if code \<in> set (map fst ss) then Some (i64 (int (length (filter (\<lambda>s. fst s = code) ss)))) else None)) \<and>
     b_durationBucketCounts b =
       map (\<lambda>B. i64 (int (length (filter (\<lambda>s. snd (snd s) \<le> B) ss)))) bounds_ns"

lemma counts_samples_new: "counts_samples [] newBucket"
  by (simp add: counts_samples_def newBucket_def bounds_ns_def defaultDurationBucketsSeconds_def numeral_eq_Suc)

lemma bump_counts_samples:
  assumes "0 \<le> ns"
  shows "bump_counts (fl_div (float64_of ns) (float64_of second)) defaultDurationBucketsSeconds (map f bounds_ns) =
    map (\<lambda>B. if ns \<le> B then i64 (f B + 1) else f B) bounds_ns"
proof -
  let ?l = "fl_div (float64_of ns) (float64_of second)"
  have "bump_counts ?l defaultDurationBucketsSeconds (map f bounds_ns) =
      map (\<lambda>B. if ?l \<le> fl (of_int B / 10 ^ 9) then i64 (f B + 1) else f B) bounds_ns"
    by (subst bump_counts_nth) (simp_all add: default_buckets_ns zip_map_map zip_same_conv_map comp_def)
  also have "\<dots> = map (\<lambda>B. if ns \<le> B then i64 (f B + 1) else f B) bounds_ns"
    using latency_le_bound [OF assms] bounds_ns_range by (intro map_cong) (auto simp: list_all_iff)
  finally show ?thesis .
qed

lemma fold_max_snoc: "fold max (xs @ [x]) (a :: int) = max x (fold max xs a)"
  by simp

lemma counts_samples_add:
  assumes "counts_samples ss b" and "0 \<le> snd (snd s)"
  shows "counts_samples (ss @ [s]) (add_sample s b)"
proof -
  obtain code bytes ns where s: "s = (code, bytes, ns)" by (cases s)
  note c = assms(1) [unfolded counts_samples_def]
  have counts: "bump_counts (fl_div (float64_of ns) (float64_of second)) defaultDurationBucketsSeconds
      (b_durationBucketCounts b) =
      map (\<lambda>B. i64 (int (length (filter (\<lambda>s. snd (snd s) \<le> B) (ss @ [s]))))) bounds_ns"
  proof -
    have "b_durationBucketCounts b = map (\<lambda>B. i64 (int (length (filter (\<lambda>s. snd (snd s) \<le> B) ss)))) bounds_ns"
      using c by blast
    moreover have "0 \<le> ns" using assms(2) s by simp
    ultimately show ?thesis
      by (simp only: bump_counts_samples) (simp add: s algebra_simps)
  qed
  have none: "filter (\<lambda>s. fst s = k) ss = []" if "k \<notin> fst ` set ss" for k
    using that by (auto simp: filter_empty_conv)
  have codes: "map_of (AList.update code (i64 ((case map_of (b_statusCodes b) code of None \<Rightarrow> 0 | Some n \<Rightarrow> n) + 1))
      (b_statusCodes b)) k =
      (if k \<in> set (map fst (ss @ [s])) then Some (i64 (int (length (filter (\<lambda>s. fst s = k) (ss @ [s]))))) else None)" for k
    using c none [of code] by (auto simp: s update_conv' algebra_simps)
  have "distinct (map fst (b_statusCodes b))" using c by blast
  then show ?thesis
    unfolding counts_samples_def add_sample_def recordBucket_def Let_def
    using c counts codes by (simp add: s distinct_update max_def algebra_simps)
qed

lemma counts_samples_fold:
  "counts_samples ss b \<Longrightarrow> list_all (\<lambda>s. 0 \<le> snd (snd s)) ss' \<Longrightarrow> counts_samples (ss @ ss') (fold add_sample ss' b)"
proof (induction ss' arbitrary: ss b)
  case (Cons s ss')
  then have "counts_samples ((ss @ [s]) @ ss') (fold add_sample ss' (add_sample s b))"
    by (intro Cons.IH counts_samples_add) simp_all
  then show ?case by simp
qed simp

section \<open>The registry\<close>

definition route_of :: "metricsRecord \<Rightarrow> string" where
  "route_of r = mr_RouteID (record_defaults r)"

definition sample_of :: "metricsRecord \<Rightarrow> sample" where
  "sample_of r = (let d = record_defaults r in (mr_StatusCode d, mr_ByteWritten d, mr_Latency d))"

lemma sample_of_latency [simp]: "0 \<le> snd (snd (sample_of r))"
  by (simp add: sample_of_def record_defaults_def Let_def)

lemma Record_eq:
  "Record r reg = reg\<lparr>reg_total := add_sample (sample_of r) (reg_total reg),
     reg_routes := AList.update (route_of r)
       (add_sample (sample_of r)
         (case map_of (reg_routes reg) (route_of r) of None \<Rightarrow> newBucket | Some b \<Rightarrow> b))
       (reg_routes reg)\<rparr>"
  by (simp add: Record_def Let_def add_sample_def sample_of_def route_of_def)

text \<open>The registry as a function of the list of the records made so far.\<close>

definition of_route :: "string \<Rightarrow> metricsRecord list \<Rightarrow> sample list" where
  "of_route k rs = map sample_of (filter (\<lambda>r. route_of r = k) rs)"

definition counts_records :: "metricsRecord list \<Rightarrow> registry \<Rightarrow> bool" where
  "counts_records rs reg \<longleftrightarrow>
     counts_samples (map sample_of rs) (reg_total reg) \<and> distinct (map fst (reg_routes reg)) \<and>
     set (map fst (reg_routes reg)) = route_of ` set rs \<and>
     (\<forall>k b. map_of (reg_routes reg) k = Some b \<longrightarrow> counts_samples (of_route k rs) b)"

lemma counts_records_new: "counts_records [] (NewRegistry t)"
  by (simp add: counts_records_def NewRegistry_def counts_samples_new)

lemma of_route_snoc:
  "of_route k (rs @ [r]) = (if route_of r = k then of_route k rs @ [sample_of r] else of_route k rs)"
  by (simp add: of_route_def)

lemma counts_records_Record:
  assumes "counts_records rs reg"
  shows "counts_records (rs @ [r]) (Record r reg)"
proof -
  let ?k = "route_of r" and ?s = "sample_of r"
  let ?old = "case map_of (reg_routes reg) ?k of None \<Rightarrow> newBucket | Some b \<Rightarrow> b"
  note c = assms [unfolded counts_records_def]
  have total: "counts_samples (map sample_of (rs @ [r])) (add_sample ?s (reg_total reg))"
    using c counts_samples_add [of "map sample_of rs" _ ?s] by simp
  have old: "counts_samples (of_route ?k rs) ?old"
  proof (cases "map_of (reg_routes reg) ?k")
    case None
    then have "?k \<notin> route_of ` set rs" using c by (simp add: map_of_eq_None_iff)
    then have "of_route ?k rs = []" by (simp add: of_route_def filter_empty_conv) (metis imageI)
    with None show ?thesis by (simp add: counts_samples_new)
  qed (use c in simp)
  have "counts_samples (of_route k (rs @ [r])) b"
    if "map_of (AList.update ?k (add_sample ?s ?old) (reg_routes reg)) k = Some b" for k b
  proof (cases "k = ?k")
    case True
    with that have "b = add_sample ?s ?old" by (simp add: update_conv')
    with True show ?thesis using counts_samples_add [OF old, of ?s] by (simp add: of_route_snoc)
  next
    case False
    with that have "map_of (reg_routes reg) k = Some b" by (simp add: update_conv')
    with c have "counts_samples (of_route k rs) b" by blast
    with False show ?thesis by (simp add: of_route_snoc)
  qed
  moreover have "distinct (map fst (AList.update ?k (add_sample ?s ?old) (reg_routes reg)))"
    using c by (simp add: distinct_update)
  moreover have "fst ` set (AList.update ?k (add_sample ?s ?old) (reg_routes reg)) = route_of ` set (rs @ [r])"
    using c by (simp add: dom_update)
  ultimately show ?thesis
    using total unfolding counts_records_def Record_eq by simp
qed

lemma counts_records_fold: "counts_records (rs @ rs') (fold Record rs' reg)" if "counts_records rs reg"
  using that
proof (induction rs' arbitrary: rs reg)
  case (Cons r rs')
  then show ?case using Cons.IH [of "rs @ [r]" "Record r reg"] counts_records_Record by simp
qed simp

definition after :: "metricsRecord list \<Rightarrow> go_time \<Rightarrow> registry" where
  "after rs t = fold Record rs (NewRegistry t)"

lemma counts_records_after: "counts_records rs (after rs t)"
  using counts_records_fold [OF counts_records_new, of rs t] by (simp add: after_def)

section \<open>Properties\<close>

text \<open>
  C16: The registry is a function of the records made: after any list of them the total counts all
  of them, there is a bucket for exactly the routes that occur, and each counts exactly the
  records of its route; every counter of a bucket (requests, bytes, latency, maximum, the number
  for each status, the twelve histogram counts) is the corresponding sum, count or maximum, modulo
  the wrap of \<^verbatim>\<open>int64\<close>. In particular a request is in the histogram bucket of a bound exactly if
  its latency in nanoseconds is at most the bound, in spite of the floating-point comparison.
\<close>

theorem registry_counts_records:
  "counts_records rs (fold Record rs (NewRegistry t))"
  using counts_records_after by (simp add: after_def)

lemma count_mono: "B \<le> C \<Longrightarrow> length (filter (\<lambda>s. snd (snd s) \<le> B) ss) \<le> length (filter (\<lambda>s. snd (snd s) \<le> (C :: int)) ss)"
  by (induction ss) auto

lemma sorted_bounds: "sorted bounds_ns"
  by (simp add: bounds_ns_def)

lemma sorted_map_mono: "sorted xs \<Longrightarrow> (\<And>x y. x \<le> y \<Longrightarrow> f x \<le> f y) \<Longrightarrow> sorted (map f xs)"
  by (induction xs) auto

lemma counts_cumulative:
  assumes "counts_samples ss b" and "int (length ss) \<le> max_int64"
  shows "sorted (b_durationBucketCounts b @ [b_requests b]) \<and> list_all (\<lambda>n. 0 \<le> n) (b_durationBucketCounts b)"
proof -
  let ?n = "\<lambda>B. int (length (filter (\<lambda>s. snd (snd s) \<le> B) ss))"
  have le: "?n B \<le> int (length ss)" for B by simp
  have small: "i64 (?n B) = ?n B" for B using le [of B] assms(2) by (intro i64_id) linarith+
  have "b_durationBucketCounts b = map ?n bounds_ns" and "b_requests b = int (length ss)"
    using assms small by (simp_all add: counts_samples_def)
  moreover have "sorted (map ?n bounds_ns)" using sorted_bounds count_mono by (intro sorted_map_mono) simp_all
  ultimately show ?thesis using le by (auto simp: sorted_append list_all_iff)
qed

text \<open>
  The histograms are what Prometheus requires: in the total and in every route's bucket the
  counts do not decrease from one bound to the next, and none exceeds the number of requests, which
  is the \<open>+Inf\<close> bucket (for fewer than \<open>2 ^ 63\<close> requests).
\<close>

theorem histogram_cumulative:
  assumes "int (length rs) \<le> max_int64"
    and "b = reg_total (after rs t) \<or> map_of (reg_routes (after rs t)) k = Some b"
  shows "sorted (b_durationBucketCounts b @ [b_requests b]) \<and> list_all (\<lambda>n. 0 \<le> n) (b_durationBucketCounts b)"
proof -
  note c = counts_records_after [of rs t, unfolded counts_records_def]
  have "length (of_route k rs) \<le> length rs" by (simp add: of_route_def)
  then have le: "int (length (of_route k rs)) \<le> max_int64" using assms(1) by linarith
  from assms(2) show ?thesis
  proof
    assume "b = reg_total (after rs t)"
    then have "counts_samples (map sample_of rs) b" using c by blast
    moreover have "int (length (map sample_of rs)) \<le> max_int64" using assms(1) by (simp only: length_map)
    ultimately show ?thesis by (rule counts_cumulative)
  next
    assume "map_of (reg_routes (after rs t)) k = Some b"
    then have "counts_samples (of_route k rs) b" using c by blast
    then show ?thesis using le by (rule counts_cumulative)
  qed
qed

definition demo_records :: "metricsRecord list" where
  "demo_records =
     [\<lparr>mr_RouteID = ''demo'', mr_StatusCode = 200, mr_ByteWritten = 100, mr_Latency = 10 * millisecond\<rparr>,
      \<lparr>mr_RouteID = ''demo'', mr_StatusCode = 429, mr_ByteWritten = 20, mr_Latency = 2 * millisecond\<rparr>,
      \<lparr>mr_RouteID = '''', mr_StatusCode = 0, mr_ByteWritten = 7, mr_Latency = - 1\<rparr>]"

theorem histogram_cumulative_witness:
  "sorted (b_durationBucketCounts (reg_total (after demo_records 5)) @ [b_requests (reg_total (after demo_records 5))])"
  using histogram_cumulative [of demo_records "reg_total (after demo_records 5)" 5] by (simp add: demo_records_def)

text \<open>The sum of a counter over the routes.\<close>

definition route_sum :: "(bucket \<Rightarrow> int) \<Rightarrow> registry \<Rightarrow> int" where
  "route_sum f reg = sum_list (map (f \<circ> snd) (reg_routes reg))"

lemma sum_update:
  "distinct (map fst al) \<Longrightarrow> sum_list (map (f \<circ> snd) (AList.update k v al)) =
    sum_list (map (f \<circ> snd) al) - (case map_of al k of None \<Rightarrow> 0 | Some w \<Rightarrow> f w) + (f v :: int)"
proof (induction al)
  case (Cons kw al)
  then show ?case by (cases kw; cases "fst kw = k") (auto simp: map_of_eq_None_iff split: option.splits)
qed simp

lemma conservation_step:
  assumes f: "f newBucket = 0" "\<And>b. f (add_sample (sample_of r) b) = i64 (f b + d)"
    and inv: "distinct (map fst (reg_routes reg))" "i64 (route_sum f reg) = i64 (f (reg_total reg))"
  shows "i64 (route_sum f (Record r reg)) = i64 (f (reg_total (Record r reg)))"
proof -
  let ?old = "case map_of (reg_routes reg) (route_of r) of None \<Rightarrow> 0 | Some w \<Rightarrow> f w"
  have "f (case map_of (reg_routes reg) (route_of r) of None \<Rightarrow> newBucket | Some b \<Rightarrow> b) = ?old"
    using f(1) by (simp split: option.split)
  then have "route_sum f (Record r reg) = route_sum f reg - ?old + i64 (?old + d)"
    using inv(1) by (simp add: route_sum_def Record_eq sum_update f(2))
  then have "i64 (route_sum f (Record r reg)) = i64 (route_sum f reg + d)"
    by simp
  also have "\<dots> = i64 (i64 (route_sum f reg) + d)" by simp
  also have "\<dots> = i64 (f (reg_total reg) + d)" using inv(2) by simp
  finally show ?thesis by (simp add: Record_eq f(2))
qed

lemma conservation:
  assumes f: "f newBucket = 0" and "\<And>r b. f (add_sample (sample_of r) b) = i64 (f b + d r)"
  shows "i64 (route_sum f (after rs t)) = i64 (f (reg_total (after rs t)))"
proof (induction rs rule: rev_induct)
  case Nil
  then show ?case by (simp add: after_def NewRegistry_def route_sum_def f)
next
  case (snoc r rs)
  have "after (rs @ [r]) t = Record r (after rs t)" by (simp add: after_def)
  then show ?case
    using conservation_step [of f r "d r" "after rs t"] assms snoc counts_records_after [of rs t]
    by (simp add: counts_records_def)
qed

text \<open>
  The total is the sum of the routes: requests, bytes and latency, after any records, modulo the
  wrap of \<^verbatim>\<open>int64\<close>; no request is counted in the total and in no route, or in two routes.
\<close>

theorem total_is_sum_of_routes:
  "i64 (route_sum b_requests (after rs t)) = i64 (b_requests (reg_total (after rs t)))
   \<and> i64 (route_sum b_bytesWritten (after rs t)) = i64 (b_bytesWritten (reg_total (after rs t)))
   \<and> i64 (route_sum b_totalLatencyNs (after rs t)) = i64 (b_totalLatencyNs (reg_total (after rs t)))"
  using conservation [of b_requests "\<lambda>_. 1"]
    conservation [of b_bytesWritten "\<lambda>r. fst (snd (sample_of r))"]
    conservation [of b_totalLatencyNs "\<lambda>r. snd (snd (sample_of r))"]
  by (simp add: newBucket_def add_sample_def recordBucket_def Let_def)

end
