(* ===== verification/Prometheus.thy ===== *)
theory Prometheus
  imports Metrics
begin

text \<open>
  \<^verbatim>\<open>internal/metrics/prometheus.go\<close>: the registry as text in the exposition format of Prometheus.
  A string builder is the string it holds; each \<^verbatim>\<open>Fprintf\<close> is the text it appends. A nil registry
  is \<open>None\<close>.
\<close>

section \<open>Formatting\<close>

definition nl :: string where "nl = [CHR 0x0A]"

text \<open>\<^verbatim>\<open>%.nf\<close>: the exact value rounded to \<open>n\<close> decimals, to the nearest and to the even one of two.\<close>

definition pad_zeros :: "nat \<Rightarrow> string \<Rightarrow> string" where
  "pad_zeros n s = replicate (n - length s) (CHR ''0'') @ s"

definition format_fixed :: "nat \<Rightarrow> rat \<Rightarrow> string" where
  "format_fixed n x =
     (let m = round_half_even (\<bar>x\<bar> * 10 ^ n); q = m div 10 ^ n; r = m mod 10 ^ n
      in (if x < 0 then ''-'' else '''') @ itoa q @ ''.'' @ pad_zeros n (itoa r))"

fun replace_all :: "char \<Rightarrow> string \<Rightarrow> string \<Rightarrow> string" where
  "replace_all c new [] = []"
| "replace_all c new (x # xs) = (if x = c then new @ replace_all c new xs else x # replace_all c new xs)"

abbreviation backslash :: char where "backslash \<equiv> CHR 0x5C"
abbreviation newline :: char where "newline \<equiv> CHR 0x0A"
abbreviation quotemark :: char where "quotemark \<equiv> CHR 0x22"

definition escapeLabelValue :: "string \<Rightarrow> string" where
  "escapeLabelValue value0 =
     (let value1 = replace_all backslash [backslash, backslash] value0;
          value2 = replace_all newline [backslash, CHR ''n''] value1
      in replace_all quotemark [backslash, quotemark] value2)"

definition quoted :: "string \<Rightarrow> string" where
  "quoted s = [quotemark] @ s @ [quotemark]"

fun join_comma :: "string list \<Rightarrow> string" where
  "join_comma [] = ''''"
| "join_comma [x] = x"
| "join_comma (x # y # xs) = x @ '','' @ join_comma (y # xs)"

type_synonym labels = "(string \<times> string) list"

definition formatLabels :: "labels \<Rightarrow> string" where
  "formatLabels labels =
     (if labels = [] then ''''
      else ''{'' @ join_comma (map (\<lambda>key. key @ ''='' @ quoted (escapeLabelValue (the (map_of labels key))))
        (sort (map fst labels))) @ ''}'')"

text \<open>The index of the bound a label stands for; an unknown label comes after all of them.\<close>

fun label_index :: "nat \<Rightarrow> rat list \<Rightarrow> string \<Rightarrow> nat" where
  "label_index i [] label = length defaultDurationBucketsSeconds"
| "label_index i (b # bs) label = (if label = formatBucketBoundary b then i else label_index (i + 1) bs label)"

definition bucketLabelValue :: "string \<Rightarrow> nat" where
  "bucketLabelValue label = label_index 0 defaultDurationBucketsSeconds label"

definition sortedHistogramBucketLabels :: "(string \<times> int) list \<Rightarrow> string list" where
  "sortedHistogramBucketLabels buckets =
     sort_key bucketLabelValue (filter (\<lambda>label. label \<noteq> ''+Inf'') (map fst buckets)) @ [''+Inf'']"

section \<open>The text\<close>

definition writeHelp :: "string \<Rightarrow> string \<Rightarrow> string" where
  "writeHelp name help = ''# HELP '' @ name @ '' '' @ help @ nl"

definition writeType :: "string \<Rightarrow> string \<Rightarrow> string" where
  "writeType name metricType = ''# TYPE '' @ name @ '' '' @ metricType @ nl"

definition writeHistogram :: "string \<Rightarrow> labels \<Rightarrow> histogramSnapshot \<Rightarrow> string" where
  "writeHistogram name labels histogram =
     concat (map (\<lambda>upperBound.
       name @ ''_bucket'' @ formatLabels (AList.update ''le'' upperBound labels) @ '' '' @
       itoa (case map_of (hgs_Buckets histogram) upperBound of None \<Rightarrow> 0 | Some n \<Rightarrow> n) @ nl)
       (sortedHistogramBucketLabels (hgs_Buckets histogram))) @
     name @ ''_sum'' @ formatLabels labels @ '' '' @ format_fixed 9 (hgs_SumSeconds histogram) @ nl @
     name @ ''_count'' @ formatLabels labels @ '' '' @ itoa (hgs_Count histogram) @ nl"

definition sortedRouteIDs :: "(string \<times> bucketSnapshot) list \<Rightarrow> string list" where
  "sortedRouteIDs routes = sort (map fst routes)"

definition sortedStatusCodes :: "(string \<times> int) list \<Rightarrow> string list" where
  "sortedStatusCodes statusCodes = sort (map fst statusCodes)"

text \<open>A family with one line for each route, sorted by route.\<close>

definition per_route :: "(string \<times> bucketSnapshot) list \<Rightarrow> (string \<Rightarrow> bucketSnapshot \<Rightarrow> string) \<Rightarrow> string" where
  "per_route routes line =
     concat (map (\<lambda>routeID. line routeID (the (map_of routes routeID))) (sortedRouteIDs routes))"

definition route_line :: "string \<Rightarrow> string \<Rightarrow> string \<Rightarrow> string" where
  "route_line name routeID value =
     name @ ''{route='' @ quoted (escapeLabelValue routeID) @ ''} '' @ value @ nl"

definition status_lines :: "string \<Rightarrow> string \<Rightarrow> (string \<times> int) list \<Rightarrow> string" where
  "status_lines name before codes =
     concat (map (\<lambda>status. name @ ''{'' @ before @ ''status='' @ quoted (escapeLabelValue status) @ ''} '' @
       itoa (the (map_of codes status)) @ nl) (sortedStatusCodes codes))"

definition prometheus_of :: "metricsSnapshot \<Rightarrow> string" where
  "prometheus_of snapshot =
     (let total = ms_Total snapshot; routes = ms_Routes snapshot
      in writeHelp ''gateway_uptime_seconds'' ''Gateway process uptime in seconds.'' @
         writeType ''gateway_uptime_seconds'' ''gauge'' @
         ''gateway_uptime_seconds '' @ format_fixed 6 (ms_UptimeSeconds snapshot) @ nl @ nl @

         writeHelp ''gateway_http_requests_total'' ''Total number of HTTP requests.'' @
         writeType ''gateway_http_requests_total'' ''counter'' @
         ''gateway_http_requests_total '' @ itoa (bs_Requests total) @ nl @ nl @

         writeHelp ''gateway_http_bytes_written_total'' ''Total number of response bytes written.'' @
         writeType ''gateway_http_bytes_written_total'' ''counter'' @
         ''gateway_http_bytes_written_total '' @ itoa (bs_BytesWritten total) @ nl @ nl @

         writeHelp ''gateway_http_request_duration_avg_milliseconds'' ''Average HTTP request duration in milliseconds.'' @
         writeType ''gateway_http_request_duration_avg_milliseconds'' ''gauge'' @
         ''gateway_http_request_duration_avg_milliseconds '' @ format_fixed 6 (bs_AvgLatencyMs total) @ nl @ nl @

         writeHelp ''gateway_http_request_duration_max_milliseconds'' ''Maximum observed HTTP request duration in milliseconds.'' @
         writeType ''gateway_http_request_duration_max_milliseconds'' ''gauge'' @
         ''gateway_http_request_duration_max_milliseconds '' @ format_fixed 6 (bs_MaxLatencyMs total) @ nl @ nl @

         writeHelp ''gateway_http_status_requests_total'' ''Total number of HTTP requests by status code.'' @
         writeType ''gateway_http_status_requests_total'' ''counter'' @
         status_lines ''gateway_http_status_requests_total'' '''' (bs_StatusCodes total) @ nl @

         writeHelp ''gateway_http_request_duration_seconds'' ''HTTP request duration in seconds.'' @
         writeType ''gateway_http_request_duration_seconds'' ''histogram'' @
         writeHistogram ''gateway_http_request_duration_seconds'' [] (bs_DurationHistogram total) @ nl @

         writeHelp ''gateway_route_http_requests_total'' ''Total number of HTTP requests by route.'' @
         writeType ''gateway_route_http_requests_total'' ''counter'' @
         per_route routes (\<lambda>r b. route_line ''gateway_route_http_requests_total'' r (itoa (bs_Requests b))) @ nl @

         writeHelp ''gateway_route_http_bytes_written_total'' ''Total number of response bytes written by route.'' @
         writeType ''gateway_route_http_bytes_written_total'' ''counter'' @
         per_route routes (\<lambda>r b. route_line ''gateway_route_http_bytes_written_total'' r (itoa (bs_BytesWritten b))) @ nl @

         writeHelp ''gateway_route_http_status_requests_total'' ''Total number of HTTP requests by route and status code.'' @
         writeType ''gateway_route_http_status_requests_total'' ''counter'' @
         per_route routes (\<lambda>r b. status_lines ''gateway_route_http_status_requests_total''
           (''route='' @ quoted (escapeLabelValue r) @ '','') (bs_StatusCodes b)) @ nl @

         writeHelp ''gateway_route_http_request_duration_avg_milliseconds''
           ''Average HTTP request duration by route in milliseconds.'' @
         writeType ''gateway_route_http_request_duration_avg_milliseconds'' ''gauge'' @
         per_route routes (\<lambda>r b. route_line ''gateway_route_http_request_duration_avg_milliseconds'' r
           (format_fixed 6 (bs_AvgLatencyMs b))) @ nl @

         writeHelp ''gateway_route_http_request_duration_max_milliseconds''
           ''Maximum observed HTTP request duration by route in milliseconds.'' @
         writeType ''gateway_route_http_request_duration_max_milliseconds'' ''gauge'' @
         per_route routes (\<lambda>r b. route_line ''gateway_route_http_request_duration_max_milliseconds'' r
           (format_fixed 6 (bs_MaxLatencyMs b))) @ nl @

         writeHelp ''gateway_route_http_request_duration_seconds'' ''HTTP request duration by route in seconds.'' @
         writeType ''gateway_route_http_request_duration_seconds'' ''histogram'' @
         per_route routes (\<lambda>r b. writeHistogram ''gateway_route_http_request_duration_seconds''
           [(''route'', r)] (bs_DurationHistogram b)) @ nl)"

definition PrometheusText :: "go_time \<Rightarrow> registry option \<Rightarrow> string" where
  "PrometheusText now reg =
     (case reg of None \<Rightarrow> '''' | Some r \<Rightarrow> prometheus_of (metrics_Snapshot now r))"

section \<open>Reading a label value back\<close>

text \<open>
  How a reader of the format takes a quoted value off the front of a text: up to the first quote
  that no backslash escapes, with the three escapes undone.
\<close>

fun read_value :: "string \<Rightarrow> (string \<times> string) option" where
  "read_value [] = None"
| "read_value (c # s) =
     (if c = quotemark then Some ('''', s)
      else if c = backslash then
        (case s of
           [] \<Rightarrow> None
         | d # s' \<Rightarrow> map_option (\<lambda>(v, t). ((if d = CHR ''n'' then newline else d) # v, t)) (read_value s'))
      else map_option (\<lambda>(v, t). (c # v, t)) (read_value s))"

fun escape_char :: "char \<Rightarrow> string" where
  "escape_char c =
     (if c = backslash then [backslash, backslash]
      else if c = newline then [backslash, CHR ''n'']
      else if c = quotemark then [backslash, quotemark] else [c])"

lemma replace_all_append [simp]: "replace_all c new (s @ t) = replace_all c new s @ replace_all c new t"
  by (induction s) simp_all

text \<open>The three passes do not interfere: together they escape every character by itself.\<close>

lemma escapeLabelValue_chars: "escapeLabelValue s = concat (map escape_char s)"
  by (induction s) (simp_all add: escapeLabelValue_def Let_def)

lemma read_value_escaped: "read_value (escapeLabelValue s @ quotemark # rest) = Some (s, rest)"
  unfolding escapeLabelValue_chars by (induction s) simp_all

lemma read_value_shorter: "read_value s = Some (v, t) \<Longrightarrow> length t < length s"
proof (induction s arbitrary: v rule: read_value.induct)
  case (2 c s)
  then show ?case by (fastforce split: if_splits list.splits)
qed simp

lemma pair_shorter:
  assumes "dropWhile P s = e # q # t" and "read_value t = Some (v, c # t')"
  shows "length t' < length s"
proof -
  have "length (e # q # t) \<le> length s" unfolding assms(1) [symmetric] by (rule length_dropWhile_le)
  with read_value_shorter [OF assms(2)] show ?thesis by simp
qed

text \<open>A reader of a label set: \<open>key="value"\<close> pairs between braces, with commas between them.\<close>

function read_pairs :: "string \<Rightarrow> labels option" where
  "read_pairs s =
     (case dropWhile (\<lambda>c. c \<noteq> CHR ''='') s of
        e # q # t \<Rightarrow>
          if q \<noteq> quotemark then None
          else (case read_value t of
                  Some (v, c # t') \<Rightarrow>
                    if c = CHR '','' then
                      map_option (Cons (takeWhile (\<lambda>c. c \<noteq> CHR ''='') s, v)) (read_pairs t')
                    else if c = CHR ''}'' \<and> t' = [] then Some [(takeWhile (\<lambda>c. c \<noteq> CHR ''='') s, v)]
                    else None
                | _ \<Rightarrow> None)
      | _ \<Rightarrow> None)"
  by pat_completeness auto
termination
  by (relation "measure length") (auto dest: pair_shorter)

declare read_pairs.simps [simp del]

definition read_labels :: "string \<Rightarrow> labels option" where
  "read_labels s = (case s of [] \<Rightarrow> Some [] | c # t \<Rightarrow> if c = CHR ''{'' then read_pairs t else None)"

definition pair_text :: "labels \<Rightarrow> string \<Rightarrow> string" where
  "pair_text labels key = key @ ''='' @ quoted (escapeLabelValue (the (map_of labels key)))"

lemma read_pairs_text:
  assumes "keys \<noteq> []" and "\<forall>k \<in> set keys. CHR ''='' \<notin> set k"
  shows "read_pairs (join_comma (map (pair_text labels) keys) @ ''}'') =
    Some (map (\<lambda>k. (k, the (map_of labels k))) keys)"
  using assms
proof (induction keys)
  case (Cons k keys)
  have tw: "takeWhile (\<lambda>c. c \<noteq> CHR ''='') (k @ CHR ''='' # r) = k"
    "dropWhile (\<lambda>c. c \<noteq> CHR ''='') (k @ CHR ''='' # r) = CHR ''='' # r" for r
    using Cons.prems(2) by (auto simp: takeWhile_append dropWhile_append)
  show ?case
  proof (cases keys)
    case Nil
    have "join_comma (map (pair_text labels) [k]) @ ''}'' =
        k @ CHR ''='' # quotemark # escapeLabelValue (the (map_of labels k)) @ quotemark # ''}''"
      by (simp add: pair_text_def quoted_def)
    then show ?thesis
      unfolding Nil by (subst read_pairs.simps) (simp add: tw read_value_escaped)
  next
    case (Cons k' keys')
    let ?rest = "join_comma (map (pair_text labels) keys) @ ''}''"
    have "join_comma (map (pair_text labels) (k # keys)) @ ''}'' =
        k @ CHR ''='' # quotemark # escapeLabelValue (the (map_of labels k)) @ quotemark # CHR '','' # ?rest"
      by (simp add: pair_text_def quoted_def Cons)
    moreover have "read_pairs ?rest = Some (map (\<lambda>k. (k, the (map_of labels k))) keys)"
      using Cons.IH Cons.prems Cons by simp
    ultimately show ?thesis
      by (subst read_pairs.simps) (simp add: tw read_value_escaped)
  qed
qed simp



section \<open>The lines of a histogram\<close>

lemma bucket_strict:
  assumes "1 \<le> B" and "B < C" and "C \<le> 10 ^ 10"
  shows "fl (of_int B / 10 ^ 9) < fl (of_int C / 10 ^ 9)"
proof -
  have "fl_div (float64_of C) (float64_of second) \<le> fl (of_int C / 10 ^ 9)"
    using latency_le_bound [of C C] assms by simp
  moreover have "\<not> fl_div (float64_of C) (float64_of second) \<le> fl (of_int B / 10 ^ 9)"
    using latency_le_bound [of C B] assms by simp
  ultimately show ?thesis by linarith
qed

lemma default_buckets_distinct: "distinct defaultDurationBucketsSeconds"
proof -
  have "inj_on (\<lambda>B. fl (of_int B / 10 ^ 9)) (set bounds_ns)"
  proof (rule inj_onI)
    fix B C assume *: "B \<in> set bounds_ns" "C \<in> set bounds_ns" "fl (of_int B / 10 ^ 9) = fl (of_int C / 10 ^ 9)"
    then have "1 \<le> B" "B \<le> 10 ^ 10" "1 \<le> C" "C \<le> 10 ^ 10" using bounds_ns_range by (auto simp: list_all_iff)
    then show "B = C" using bucket_strict [of B C] bucket_strict [of C B] *(3) by (metis linorder_neqE order_less_irrefl)
  qed
  moreover have "distinct bounds_ns" by (simp add: bounds_ns_def)
  ultimately show ?thesis by (simp add: default_buckets_ns distinct_map)
qed

lemma format_boundaries: "map formatBucketBoundary defaultDurationBucketsSeconds = bucket_labels"
proof (rule nth_equalityI)
  fix i assume "i < length (map formatBucketBoundary defaultDurationBucketsSeconds)"
  then show "map formatBucketBoundary defaultDurationBucketsSeconds ! i = bucket_labels ! i"
    using map_of_zip_nth [of defaultDurationBucketsSeconds bucket_labels i] default_buckets_distinct
    by (simp add: formatBucketBoundary_def)
qed simp

lemma label_index_nth:
  "j < length bs \<Longrightarrow> distinct (map formatBucketBoundary bs) \<Longrightarrow>
    label_index i bs (formatBucketBoundary (bs ! j)) = i + j"
proof (induction bs arbitrary: i j)
  case (Cons b bs)
  show ?case
  proof (cases j)
    case (Suc j')
    then have "formatBucketBoundary (bs ! j') \<in> formatBucketBoundary ` set bs" using Cons.prems by simp
    then have "formatBucketBoundary (bs ! j') \<noteq> formatBucketBoundary b" using Cons.prems by auto
    with Suc Cons show ?thesis by simp
  qed simp
qed simp

lemma bucketLabelValue_nth: "j < 12 \<Longrightarrow> bucketLabelValue (bucket_labels ! j) = j"
proof -
  assume j: "j < 12"
  have "bucket_labels ! j = formatBucketBoundary (defaultDurationBucketsSeconds ! j)"
    using j by (simp flip: format_boundaries)
  moreover have "distinct bucket_labels" by (simp add: bucket_labels_def)
  ultimately show ?thesis
    using label_index_nth [of j defaultDurationBucketsSeconds 0] j
    by (simp add: bucketLabelValue_def format_boundaries)
qed

lemma bucket_labels_sorted: "sort_key bucketLabelValue bucket_labels = bucket_labels"
proof -
  have "map bucketLabelValue bucket_labels = [0..<12]"
    using bucketLabelValue_nth by (intro nth_equalityI) simp_all
  then show ?thesis by (intro sort_key_id_if_sorted) simp
qed

lemma update_new: "k \<notin> fst ` set al \<Longrightarrow> AList.update k v al = al @ [(k, v)]"
  by (induction al) auto

lemma fold_update_new:
  "distinct (map fst al @ map fst ps) \<Longrightarrow> fold (\<lambda>(k, v). AList.update k v) ps al = al @ ps"
proof (induction ps arbitrary: al)
  case (Cons p ps)
  obtain k v where p: "p = (k, v)" by (cases p)
  have "AList.update k v al = al @ [(k, v)]" using Cons.prems p by (intro update_new) auto
  then show ?case using Cons p by simp
qed simp

lemma snapshotHistogram_buckets:
  assumes "length (b_durationBucketCounts b) = 12"
  shows "hgs_Buckets (snapshotHistogram b) =
    zip bucket_labels (b_durationBucketCounts b) @ [(''+Inf'', b_requests b)]"
proof -
  let ?n = "b_durationBucketCounts b"
  have "fold (\<lambda>(u, n). AList.update (formatBucketBoundary u) n) (zip defaultDurationBucketsSeconds ?n) [] =
      fold (\<lambda>(k, v). AList.update k v) (zip bucket_labels ?n) []"
    unfolding format_boundaries [symmetric] zip_map1 fold_map by (simp add: split_def comp_def)
  also have "\<dots> = zip bucket_labels ?n"
    using assms fold_update_new [of "[]" "zip bucket_labels ?n"] by (simp add: bucket_labels_def)
  finally have f: "fold (\<lambda>(u, n). AList.update (formatBucketBoundary u) n) (zip defaultDurationBucketsSeconds ?n) [] =
      zip bucket_labels ?n" .
  have "''+Inf'' \<notin> fst ` set (zip bucket_labels ?n)"
    by (auto simp: bucket_labels_def dest!: set_zip_leftD)
  then show ?thesis unfolding snapshotHistogram_def by (simp add: f update_new)
qed

text \<open>
  C29: The histogram of a bucket is exported with one line for each of the twelve bounds, in their
  order and with their counts, then the line of \<open>+Inf\<close> with the number of requests, then the sum
  and the count, each line with the labels of the family besides \<open>le\<close>.
\<close>

theorem writeHistogram_lines:
  assumes "length (b_durationBucketCounts b) = 12"
  shows "writeHistogram name labels (snapshotHistogram b) =
    concat (map (\<lambda>(bound, n). name @ ''_bucket'' @ formatLabels (AList.update ''le'' bound labels) @ '' '' @ itoa n @ nl)
      (zip bucket_labels (b_durationBucketCounts b) @ [(''+Inf'', b_requests b)])) @
    name @ ''_sum'' @ formatLabels labels @ '' '' @ format_fixed 9 (hgs_SumSeconds (snapshotHistogram b)) @ nl @
    name @ ''_count'' @ formatLabels labels @ '' '' @ itoa (b_requests b) @ nl"
proof -
  let ?ps = "zip bucket_labels (b_durationBucketCounts b)"
  let ?all = "?ps @ [(''+Inf'', b_requests b)]"
  have fst: "map fst ?ps = bucket_labels" using assms by simp
  have "filter (\<lambda>label. label \<noteq> ''+Inf'') (map fst ?all) = bucket_labels"
    using fst by (simp add: bucket_labels_def)
  then have order: "sortedHistogramBucketLabels ?all = map fst ?all"
    using fst by (simp add: sortedHistogramBucketLabels_def bucket_labels_sorted)
  have "distinct (map fst ?all)" using fst by (simp add: bucket_labels_def)
  then have look: "map_of ?all k = Some v" if "(k, v) \<in> set ?all" for k v
    using that by (intro map_of_is_SomeI)
  let ?line = "\<lambda>bound n. name @ ''_bucket'' @ formatLabels (AList.update ''le'' bound labels) @ '' '' @ itoa n @ nl"
  have lines: "map (\<lambda>bound. ?line bound (case map_of ?all bound of None \<Rightarrow> 0 | Some n \<Rightarrow> n)) (map fst ?all) =
      map (\<lambda>(bound, n). ?line bound n) ?all"
    unfolding map_map
  proof (intro map_cong refl)
    fix p assume p: "p \<in> set ?all"
    obtain k v where kv: "p = (k, v)" by (cases p)
    have "map_of ?all k = Some v" using p unfolding kv by (rule look)
    then show "((\<lambda>bound. ?line bound (case map_of ?all bound of None \<Rightarrow> 0 | Some n \<Rightarrow> n)) \<circ> fst) p =
        (case p of (bound, n) \<Rightarrow> ?line bound n)"
      by (simp only: kv o_def fst_conv case_prod_conv option.case)
  qed
  have "hgs_Count (snapshotHistogram b) = b_requests b" by (simp add: snapshotHistogram_def)
  then show ?thesis
    unfolding writeHistogram_def snapshotHistogram_buckets [OF assms] order lines by (rule arg_cong)
qed

theorem writeHistogram_lines_witness:
  "writeHistogram ''h'' [] (snapshotHistogram newBucket) =
    concat (map (\<lambda>(bound, n). ''h_bucket'' @ formatLabels [(''le'', bound)] @ '' '' @ itoa n @ nl)
      (zip bucket_labels (replicate 12 0) @ [(''+Inf'', 0)])) @
    ''h_sum '' @ format_fixed 9 (hgs_SumSeconds (snapshotHistogram newBucket)) @ nl @ ''h_count '' @ itoa 0 @ nl"
proof -
  have len: "length (b_durationBucketCounts newBucket) = 12" by (simp add: newBucket_def)
  have n: "b_durationBucketCounts newBucket = replicate 12 0" "b_requests newBucket = 0"
    by (simp_all add: newBucket_def)
  have f: "formatLabels [] = ''''" by (simp add: formatLabels_def)
  show ?thesis
    using writeHistogram_lines [OF len, of "''h''" "[]"] unfolding n f by simp
qed

end
