(* ===== verification/Go_Duration.thy ===== *)
theory Go_Duration
  imports Http Go_Float
begin

text \<open>
  Go's \<^verbatim>\<open>time.ParseDuration\<close>, which reads every duration of the configuration. Its 64-bit unsigned
  values are integers, with the wrap-around of the one sum that can overflow written out, its fractions with the \<^verbatim>\<open>float64\<close> operations of
  \<^verbatim>\<open>Go_Float\<close>.
\<close>

datatype duration_error =
    InvalidDuration string
  | MissingUnit string
  | UnknownUnit string string

definition digit_value :: "char \<Rightarrow> int" where
  "digit_value c = int (code_of c) - 48"

fun leading_int :: "int \<Rightarrow> string \<Rightarrow> (int \<times> string) option" where
  "leading_int x [] = Some (x, [])"
| "leading_int x (c # cs) =
     (if \<not> digit_ascii c then Some (x, c # cs)
      else if x > 2 ^ 63 div 10 then None
      else (let x' = x * 10 + digit_value c in if x' > 2 ^ 63 then None else leading_int x' cs))"

fun leading_fraction :: "int \<Rightarrow> rat \<Rightarrow> bool \<Rightarrow> string \<Rightarrow> int \<times> rat \<times> string" where
  "leading_fraction x scale overflow [] = (x, scale, [])"
| "leading_fraction x scale overflow (c # cs) =
     (if \<not> digit_ascii c then (x, scale, c # cs)
      else if overflow then leading_fraction x scale overflow cs
      else if x > (2 ^ 63 - 1) div 10 then leading_fraction x scale True cs
      else (let y = x * 10 + digit_value c
            in if y > 2 ^ 63 then leading_fraction x scale True cs
               else leading_fraction y (fl_mul scale 10) overflow cs))"

definition unit_map :: "string \<Rightarrow> int option" where
  "unit_map u = map_of
     [(''ns'', 1), (''us'', 1000), ([byte 194, byte 181, CHR ''s''], 1000),
      ([byte 206, byte 188, CHR ''s''], 1000), (''ms'', 1000000), (''s'', 1000000000),
      (''m'', 60000000000), (''h'', 3600000000000)] u"

definition unit_char :: "char \<Rightarrow> bool" where
  "unit_char c \<longleftrightarrow> \<not> (c = CHR ''.'' \<or> digit_ascii c)"

text \<open>The part after a decimal point, if one is there, and whether it has a digit.\<close>

definition parse_fraction :: "string \<Rightarrow> int \<times> rat \<times> string \<times> bool" where
  "parse_fraction s =
     (if s \<noteq> [] \<and> hd s = CHR ''.''
      then (let (f, scale, t) = leading_fraction 0 1 False (tl s) in (f, scale, t, length (tl s) \<noteq> length t))
      else (0, 1, s, False))"

text \<open>One turn of the loop: a number with its unit, in nanoseconds, and what is left.\<close>

definition parse_part :: "string \<Rightarrow> string \<Rightarrow> duration_error + int \<times> string" where
  "parse_part orig s =
     (if \<not> (s \<noteq> [] \<and> (hd s = CHR ''.'' \<or> digit_ascii (hd s))) then Inl (InvalidDuration orig)
      else case leading_int 0 s of
        None \<Rightarrow> Inl (InvalidDuration orig)
      | Some (v, s1) \<Rightarrow>
          (case parse_fraction s1 of (f, scale, s2, post) \<Rightarrow>
            if length s = length s1 \<and> \<not> post then Inl (InvalidDuration orig)
            else if takeWhile unit_char s2 = [] then Inl (MissingUnit orig)
            else case unit_map (takeWhile unit_char s2) of
              None \<Rightarrow> Inl (UnknownUnit (takeWhile unit_char s2) orig)
            | Some unit \<Rightarrow>
                if v > 2 ^ 63 div unit then Inl (InvalidDuration orig)
                else if f > 0
                then (let v2 = v * unit + \<lfloor>fl_mul (fl (of_int f)) (fl_div (fl (of_int unit)) scale)\<rfloor>
                      in if v2 > 2 ^ 63 then Inl (InvalidDuration orig) else Inr (v2, dropWhile unit_char s2))
                else Inr (v * unit, dropWhile unit_char s2)))"

lemma leading_int_shorter: "leading_int x s = Some (v, t) \<Longrightarrow> length t \<le> length s"
  by (induction x s rule: leading_int.induct) (auto simp: Let_def split: if_splits)

lemma leading_fraction_shorter: "leading_fraction x sc ov s = (f, sc', t) \<Longrightarrow> length t \<le> length s"
  by (induction x sc ov s rule: leading_fraction.induct) (auto simp: Let_def split: if_splits)

lemma parse_fraction_shorter: "parse_fraction s = (f, sc, t, post) \<Longrightarrow> length t \<le> length s"
  using leading_fraction_shorter [of 0 1 False "tl s"]
  by (auto simp: parse_fraction_def split: if_splits prod.splits dest: order_trans)

lemma dropWhile_shorter: "takeWhile P s \<noteq> [] \<Longrightarrow> length (dropWhile P s) < length s"
  by (cases s) (auto simp: length_dropWhile_le less_Suc_eq_le split: if_splits)

lemma parse_part_shorter:
  assumes "parse_part orig s = Inr (v, t)"
  shows "length t < length s"
proof -
  obtain v1 s1 where s1: "leading_int 0 s = Some (v1, s1)"
    using assms by (auto simp: parse_part_def split: if_splits option.splits)
  obtain f sc s2 post where s2: "parse_fraction s1 = (f, sc, s2, post)" by (cases "parse_fraction s1")
  have t: "takeWhile unit_char s2 \<noteq> []" "t = dropWhile unit_char s2"
    using assms by (auto simp: parse_part_def s1 s2 Let_def split: if_splits option.splits)
  from dropWhile_shorter [OF t(1)] leading_int_shorter [OF s1] parse_fraction_shorter [OF s2]
  show ?thesis unfolding t(2) by linarith
qed

function parse_parts :: "string \<Rightarrow> int \<Rightarrow> string \<Rightarrow> duration_error + int" where
  "parse_parts orig d s =
     (if s = '''' then Inr d
      else case parse_part orig s of
        Inl e \<Rightarrow> Inl e
      | Inr (v, t) \<Rightarrow>
          (let d' = (d + v) mod 2 ^ 64
           in if d' > 2 ^ 63 then Inl (InvalidDuration orig) else parse_parts orig d' t))"
  by pat_completeness auto
termination
  by (relation "measure (\<lambda>(orig, d, s). length s)") (auto dest: parse_part_shorter)

declare parse_parts.simps [simp del]

definition ParseDuration :: "string \<Rightarrow> duration_error + duration" where
  "ParseDuration orig =
     (let signed = (orig \<noteq> '''' \<and> (hd orig = CHR ''-'' \<or> hd orig = CHR ''+''));
          neg = (signed \<and> hd orig = CHR ''-'');
          s = (if signed then tl orig else orig)
      in if s = ''0'' then Inr 0
         else if s = '''' then Inl (InvalidDuration orig)
         else case parse_parts orig 0 s of
           Inl e \<Rightarrow> Inl e
         | Inr d \<Rightarrow>
             if neg then Inr (i64 (- i64 d))
             else if d > 2 ^ 63 - 1 then Inl (InvalidDuration orig)
             else Inr (i64 d))"

lemma ParseDuration_empty [simp]: "ParseDuration '''' = Inl (InvalidDuration '''')"
  by (simp add: ParseDuration_def)

lemma ParseDuration_int64: "ParseDuration s = Inr d \<Longrightarrow> is_int64 d"
  by (auto simp: ParseDuration_def Let_def split: if_splits sum.splits) (auto simp: is_int64_def)

section \<open>Whole numbers\<close>

definition digits_from :: "int \<Rightarrow> string \<Rightarrow> int" where
  "digits_from x s = foldl (\<lambda>acc c. acc * 10 + digit_value c) x s"

lemma digit_value_range: "digit_ascii c \<Longrightarrow> 0 \<le> digit_value c"
proof -
  assume "digit_ascii c"
  then have "48 \<le> (of_char c :: nat)" by (simp add: digit_ascii_def code_of_def)
  then show ?thesis by (simp add: digit_value_def code_of_def)
qed

lemma digits_from_ge: "0 \<le> x \<Longrightarrow> list_all digit_ascii s \<Longrightarrow> x \<le> digits_from x s"
proof (induction s arbitrary: x)
  case (Cons c s)
  then have d: "0 \<le> digit_value c" by (simp add: digit_value_range)
  then have "x * 10 + digit_value c \<le> digits_from (x * 10 + digit_value c) s"
    using Cons by (intro Cons.IH) simp_all
  moreover have "x \<le> x * 10 + digit_value c" using d Cons.prems(1) by simp
  ultimately show ?case by (simp add: digits_from_def)
qed (simp add: digits_from_def)

lemma leading_int_digits:
  "0 \<le> x \<Longrightarrow> list_all digit_ascii s \<Longrightarrow> digits_from x s \<le> 2 ^ 63 \<Longrightarrow>
    leading_int x (s @ t) = leading_int (digits_from x s) t"
proof (induction s arbitrary: x)
  case (Cons c s)
  let ?x = "x * 10 + digit_value c"
  have d: "0 \<le> digit_value c" using Cons.prems by (simp add: digit_value_range)
  have le: "?x \<le> 2 ^ 63"
    using Cons.prems d digits_from_ge [of ?x s] by (simp add: digits_from_def)
  then have "x \<le> 2 ^ 63 div 10" using d by simp
  with Cons le d show ?case by (simp add: digits_from_def Let_def)
qed (simp add: digits_from_def)

lemma udigits_ascii: "list_all digit_ascii (udigits n)"
  unfolding list_all_iff digit_ascii_def code_of_def using udigits_digit by blast

lemma udigits_not_Nil [simp]: "udigits n \<noteq> ''''"
  by (subst udigits.simps) simp

lemma digits_from_undigits:
  "list_all digit_ascii s \<Longrightarrow>
    digits_from (int x) s = int (foldl (\<lambda>acc c. 10 * acc + (of_char c - 48)) x s)"
proof (induction s arbitrary: x)
  case (Cons c s)
  have "48 \<le> (of_char c :: nat)" using Cons.prems by (simp add: digit_ascii_def code_of_def)
  then have step: "int x * 10 + digit_value c = int (10 * x + (of_char c - 48))"
    by (simp add: digit_value_def code_of_def of_nat_diff)
  have "digits_from (int x) (c # s) = digits_from (int (10 * x + (of_char c - 48))) s"
    by (simp only: digits_from_def foldl_Cons step)
  also have "\<dots> = int (foldl (\<lambda>acc c. 10 * acc + (of_char c - 48)) (10 * x + (of_char c - 48)) s)"
    using Cons.prems by (intro Cons.IH) simp
  finally show ?case by simp
qed (simp add: digits_from_def)

lemma digits_from_udigits: "digits_from 0 (udigits n) = int n"
  using digits_from_undigits [OF udigits_ascii, of 0 n] undigits_udigits [of n] by simp

lemma digit_neq: "digit_ascii c \<Longrightarrow> c \<noteq> CHR ''-'' \<and> c \<noteq> CHR ''+'' \<and> c \<noteq> CHR ''.''"
  by (auto simp: digit_ascii_def code_of_def)

lemma ParseDuration_whole:
  assumes "unit_map u = Some k" and "u \<noteq> ''''" and "list_all unit_char u"
    and "int n * k < 2 ^ 63" and "0 < k"
  shows "ParseDuration (udigits n @ u) = Inr (int n * k)"
proof -
  let ?s = "udigits n @ u"
  have hd: "digit_ascii (hd ?s)" using udigits_ascii [of n] by (cases "udigits n") auto
  have n: "int n \<le> 2 ^ 63 div k"
    using assms(4,5) by (simp add: zdiv_mono1 pos_imp_zdiv_nonneg_iff) (metis assms(5) less_imp_le nonzero_mult_div_cancel_right zdiv_mono1 order_less_irrefl)
  have "int n * 1 \<le> int n * k" using assms(5) by (intro mult_left_mono) simp_all
  then have n63: "int n \<le> 2 ^ 63" using assms(4) by simp
  obtain c u' where u: "u = c # u'" "unit_char c" using assms(2,3) by (cases u) auto
  then have c: "\<not> digit_ascii c" "c \<noteq> CHR ''.''" by (auto simp: unit_char_def)
  have li: "leading_int 0 ?s = Some (int n, u)"
    using leading_int_digits [OF _ udigits_ascii, of 0 n u] digits_from_udigits [of n] n63 u c by simp
  have pf: "parse_fraction u = (0, 1, u, False)" using u c by (simp add: parse_fraction_def)
  have tw: "takeWhile unit_char u = u" "dropWhile unit_char u = []"
    using assms(3) by (simp_all add: list_all_iff)
  have part: "parse_part ?s ?s = Inr (int n * k, [])"
    using hd n assms(1,2) by (simp add: parse_part_def li pf tw)
  have nk: "0 \<le> int n * k" using assms(5) by simp
  have "parse_parts ?s 0 ?s = Inr (int n * k)"
    using assms(2,4) part nk by (subst parse_parts.simps) (simp add: Let_def parse_parts.simps)
  moreover have "?s \<noteq> ''0''"
    using assms(2) by (cases "udigits n") (auto simp: append_eq_Cons_conv)
  moreover have "i64 (int n * k) = int n * k" using nk assms(4) by (intro i64_id) simp_all
  ultimately show ?thesis
    using digit_neq [OF hd] assms(4) by (simp add: ParseDuration_def Let_def)
qed

end
