(* ===== verification/Config_Env.thy ===== *)
theory Config_Env
  imports Go_Duration
begin

text \<open>
  The configuration's data (the structs of \<^verbatim>\<open>internal/config/config.go\<close>) and
  \<^verbatim>\<open>internal/config/env.go\<close>: the expansion of \<^verbatim>\<open>${NAME}\<close> and \<^verbatim>\<open>${NAME:default}\<close> in its strings.
  The environment, \<^verbatim>\<open>os.LookupEnv\<close>, is a parameter. Go \<^verbatim>\<open>int\<close> fields are integers.
\<close>

section \<open>The configuration\<close>

record serverConfig =
  sc_Addr :: string
  sc_RequestTimeout :: string
  sc_ShutdownTimeout :: string
  sc_RateLimitRPS :: go_int
  sc_RateLimitBurst :: go_int
  sc_MaxConcurrency :: go_int

record adminConfig =
  ac_Enabled :: bool
  ac_Addr :: string
  ac_Token :: string
  ac_MetricsRequireToken :: bool
  ac_PprofEnabled :: bool

record upstreamConfig =
  uc_ID :: string
  uc_URL :: string

record healthCheckConfig =
  hcc_Enabled :: bool
  hcc_Path :: string
  hcc_Interval :: string
  hcc_Timeout :: string

record passiveHealthConfig =
  phc_Enabled :: bool
  phc_FailureThreshold :: go_int
  phc_SuccessThreshold :: go_int
  phc_UnhealthyDuration :: string

record circuitBreakerConfig =
  cbc_Enabled :: bool
  cbc_FailureThreshold :: go_int
  cbc_OpenDuration :: string
  cbc_HalfOpenMaxRequests :: go_int

record routeConfig =
  rc_ID :: string
  rc_Prefix :: string
  rc_StripPrefix :: string
  rc_Target :: string
  rc_Upstreams :: "upstreamConfig list"
  rc_RateLimitRPS :: go_int
  rc_RateLimitBurst :: go_int
  rc_MaxConcurrency :: go_int
  rc_HealthCheck :: healthCheckConfig
  rc_PassiveHealth :: passiveHealthConfig
  rc_CircuitBreaker :: circuitBreakerConfig

record config =
  cfg_Server :: serverConfig
  cfg_Admin :: adminConfig
  cfg_Routes :: "routeConfig list"

section \<open>Expansion of a string\<close>

type_synonym environment = "string \<Rightarrow> string option"

datatype env_error =
    MissingClosing string
  | EmptyExpression
  | EmptyVariableName string
  | VariableRequired string

definition splitEnvExpression :: "string \<Rightarrow> string \<times> string \<times> bool" where
  "splitEnvExpression expr =
     (case index_byte expr (CHR '':'') of
        None \<Rightarrow> (expr, '''', False)
      | Some index \<Rightarrow> (take index expr, drop (index + 1) expr, True))"

definition expandEnvExpression :: "environment \<Rightarrow> string \<Rightarrow> env_error + string" where
  "expandEnvExpression lookup expr0 =
     (let expr = trim_space expr0
      in if expr = '''' then Inl EmptyExpression
         else
           (let (name0, defaultValue, hasDefault) = splitEnvExpression expr;
                name = trim_space name0
            in if name = '''' then Inl (EmptyVariableName expr)
               else
                 (case lookup name of
                    Some value \<Rightarrow>
                      if value \<noteq> '''' then Inr value
                      else if hasDefault then Inr defaultValue else Inl (VariableRequired name)
                  | None \<Rightarrow> if hasDefault then Inr defaultValue else Inl (VariableRequired name))))"

text \<open>The loop: \<open>builder\<close> holds what has been written, the last argument is \<^verbatim>\<open>value[i:]\<close>.\<close>

function expand_loop :: "environment \<Rightarrow> string \<Rightarrow> string \<Rightarrow> env_error + string" where
  "expand_loop lookup builder [] = Inr builder"
| "expand_loop lookup builder (c # cs) =
     (if c \<noteq> CHR ''$'' \<or> cs = [] \<or> hd cs \<noteq> CHR ''{'' then expand_loop lookup (builder @ [c]) cs
      else case index_byte (tl cs) (CHR ''}'') of
        None \<Rightarrow> Inl (MissingClosing (c # cs))
      | Some e \<Rightarrow>
          (case expandEnvExpression lookup (take e (tl cs)) of
             Inl err \<Rightarrow> Inl err
           | Inr expanded \<Rightarrow> expand_loop lookup (builder @ expanded) (drop (e + 1) (tl cs))))"
  by pat_completeness auto
termination
  by (relation "measure (\<lambda>(lookup, builder, s). length s)") auto

definition expandEnvString :: "environment \<Rightarrow> string \<Rightarrow> env_error + string" where
  "expandEnvString lookup value = expand_loop lookup '''' value"

section \<open>Templates\<close>

text \<open>
  A string without \<^verbatim>\<open>${\<close>, and a template: pieces of such text, each followed by an expression in
  braces, and a tail.
\<close>

fun plain :: "string \<Rightarrow> bool" where
  "plain (c # d # s) = (\<not> (c = CHR ''$'' \<and> d = CHR ''{'') \<and> plain (d # s))"
| "plain s = True"

fun render :: "(string \<times> string) list \<Rightarrow> string \<Rightarrow> string" where
  "render [] tail = tail"
| "render ((l, e) # ps) tail = l @ ''${'' @ e @ ''}'' @ render ps tail"

definition template :: "(string \<times> string) list \<Rightarrow> bool" where
  "template ps \<longleftrightarrow> list_all (\<lambda>(l, e). plain l \<and> CHR ''}'' \<notin> set e) ps"

lemma expand_plain_then:
  "plain l \<Longrightarrow> rest = [] \<or> hd rest \<noteq> CHR ''{'' \<Longrightarrow>
    expand_loop lookup b (l @ rest) = expand_loop lookup (b @ l) rest"
proof (induction l arbitrary: b)
  case (Cons c l)
  have "c \<noteq> CHR ''$'' \<or> l @ rest = [] \<or> hd (l @ rest) \<noteq> CHR ''{''" and "plain l"
    using Cons.prems by (cases l; auto)+
  then show ?case using Cons.IH [of "b @ [c]"] Cons.prems(2) by auto
qed simp

lemma expand_braces:
  "CHR ''}'' \<notin> set e \<Longrightarrow>
    expand_loop lookup b (''${'' @ e @ ''}'' @ rest) =
      res_bind (expandEnvExpression lookup e) (\<lambda>x. expand_loop lookup (b @ x) rest)"
  using index_byte_append [of "CHR ''}''" e rest] by (simp split: sum.split)

lemma expand_builder: "expand_loop lookup b s = res_bind (expand_loop lookup '''' s) (\<lambda>r. Inr (b @ r))"
proof (induction "length s" arbitrary: b s rule: less_induct)
  case less
  show ?case
  proof (cases s)
    case (Cons c cs)
    note IH = less.hyps
    show ?thesis
    proof (cases "c \<noteq> CHR ''$'' \<or> cs = [] \<or> hd cs \<noteq> CHR ''{''")
      case True
      then have "expand_loop lookup b s = expand_loop lookup (b @ [c]) cs"
        "expand_loop lookup '''' s = expand_loop lookup [c] cs" by (simp_all add: Cons)
      then show ?thesis
        using IH [of cs "b @ [c]"] IH [of cs "[c]"] by (cases "expand_loop lookup '''' cs") (simp_all add: Cons)
    next
      case False
      show ?thesis
      proof (cases "index_byte (tl cs) (CHR ''}'')")
        case None
        with False show ?thesis by (simp add: Cons)
      next
        case (Some e)
        let ?rest = "drop (Suc e) (tl cs)"
        show ?thesis
        proof (cases "expandEnvExpression lookup (take e (tl cs))")
          case (Inl err)
          with False Some show ?thesis by (simp add: Cons)
        next
          case (Inr x)
          then have "expand_loop lookup b s = expand_loop lookup (b @ x) ?rest"
            "expand_loop lookup '''' s = expand_loop lookup x ?rest" using False Some by (simp_all add: Cons)
          then show ?thesis
            using IH [of ?rest "b @ x"] IH [of ?rest x]
            by (cases "expand_loop lookup '''' ?rest") (simp_all add: Cons)
        qed
      qed
    qed
  qed simp
qed

lemma expandEnvString_plain: "plain s \<Longrightarrow> expandEnvString lookup s = Inr s"
  using expand_plain_then [of s "[]" lookup "[]"] by (simp add: expandEnvString_def)

lemma expandEnvString_unclosed:
  "plain l \<Longrightarrow> CHR ''}'' \<notin> set r \<Longrightarrow> expandEnvString lookup (l @ ''${'' @ r) = Inl (MissingClosing (''${'' @ r))"
proof -
  assume l: "plain l" and r: "CHR ''}'' \<notin> set r"
  have "index_byte r (CHR ''}'') = None" using r by (induction r) auto
  then show ?thesis
    using expand_plain_then [OF l, of "''${'' @ r" lookup "[]"] by (simp add: expandEnvString_def)
qed

lemma expandEnvString_piece:
  assumes "plain l" and "CHR ''}'' \<notin> set e"
  shows "expandEnvString lookup (l @ ''${'' @ e @ ''}'' @ rest) =
    res_bind (expandEnvExpression lookup e) (\<lambda>x.
      res_bind (expandEnvString lookup rest) (\<lambda>r. Inr (l @ x @ r)))"
proof -
  have "expandEnvString lookup (l @ ''${'' @ e @ ''}'' @ rest) = expand_loop lookup l (''${'' @ e @ ''}'' @ rest)"
    using expand_plain_then [OF assms(1), of "''${'' @ e @ ''}'' @ rest" lookup "[]"]
    by (simp add: expandEnvString_def del: expand_loop.simps(2))
  also have "\<dots> = res_bind (expandEnvExpression lookup e) (\<lambda>x. expand_loop lookup (l @ x) rest)"
    by (rule expand_braces [OF assms(2)])
  also have "\<dots> = res_bind (expandEnvExpression lookup e) (\<lambda>x.
      res_bind (expandEnvString lookup rest) (\<lambda>r. Inr (l @ x @ r)))"
    by (subst expand_builder) (simp add: expandEnvString_def)
  finally show ?thesis .
qed

definition expand_piece :: "environment \<Rightarrow> string \<times> string \<Rightarrow> env_error + string" where
  "expand_piece lookup p = res_bind (expandEnvExpression lookup (snd p)) (\<lambda>x. Inr (fst p @ x))"

lemma expandEnvString_render:
  "template ps \<Longrightarrow> expandEnvString lookup (render ps tail) =
    res_bind (res_map (expand_piece lookup) ps) (\<lambda>xs.
      res_bind (expandEnvString lookup tail) (\<lambda>r. Inr (concat xs @ r)))"
proof (induction ps tail rule: render.induct)
  case (1 tail)
  then show ?case by (cases "expandEnvString lookup tail") simp_all
next
  case (2 l e ps tail)
  then have "expandEnvString lookup (render ((l, e) # ps) tail) =
      res_bind (expandEnvExpression lookup e) (\<lambda>x.
        res_bind (expandEnvString lookup (render ps tail)) (\<lambda>r. Inr (l @ x @ r)))"
    using expandEnvString_piece [of l e lookup "render ps tail"] by (simp add: template_def)
  also have "\<dots> = res_bind (res_map (expand_piece lookup) ((l, e) # ps)) (\<lambda>xs.
      res_bind (expandEnvString lookup tail) (\<lambda>r. Inr (concat xs @ r)))"
    using 2 by (cases "expandEnvExpression lookup e"; cases "res_map (expand_piece lookup) ps";
        cases "expandEnvString lookup tail") (simp_all add: expand_piece_def [of _ "(l, e)"] template_def)
  finally show ?case .
qed

text \<open>Every string is a template with a plain tail, or one whose tail opens a brace it never closes.\<close>

lemma plain_split: "plain s \<or> (\<exists>l r. s = l @ ''${'' @ r \<and> plain l)"
proof (induction s rule: plain.induct)
  case (1 c d s)
  show ?case
  proof (cases "c = CHR ''$'' \<and> d = CHR ''{''")
    case True
    then have "c # d # s = [] @ ''${'' @ s" by simp
    then show ?thesis by (metis plain.simps(2))
  next
    case False
    from 1 show ?thesis
    proof
      assume "\<exists>l r. d # s = l @ ''${'' @ r \<and> plain l"
      then obtain l r where lr: "d # s = l @ ''${'' @ r" "plain l" by blast
      have "plain (c # l)" using lr False by (cases l) auto
      moreover have "c # d # s = (c # l) @ ''${'' @ r" using lr by simp
      ultimately show ?thesis by blast
    qed (use False in auto)
  qed
qed auto

lemma template_exists:
  "\<exists>ps tail. s = render ps tail \<and> template ps \<and>
    (plain tail \<or> (\<exists>l r. tail = l @ ''${'' @ r \<and> plain l \<and> CHR ''}'' \<notin> set r))"
proof (induction "length s" arbitrary: s rule: less_induct)
  case less
  show ?case
  proof (cases "plain s")
    case True
    then show ?thesis by (intro exI [of _ "[]"] exI [of _ s]) (simp add: template_def)
  next
    case False
    then obtain l r where s: "s = l @ ''${'' @ r" "plain l" using plain_split [of s] by blast
    show ?thesis
    proof (cases "CHR ''}'' \<in> set r")
      case True
      then obtain e rest where r: "r = e @ CHR ''}'' # rest" "CHR ''}'' \<notin> set e"
        by (metis split_list_first)
      then obtain ps tail where *: "rest = render ps tail" "template ps"
        "plain tail \<or> (\<exists>l r. tail = l @ ''${'' @ r \<and> plain l \<and> CHR ''}'' \<notin> set r)"
        using less [of rest] s by auto
      have "s = render ((l, e) # ps) tail" and "template ((l, e) # ps)"
        using s r * by (simp_all add: template_def)
      with *(3) show ?thesis by blast
    next
      case False
      then show ?thesis
        using s by (intro exI [of _ "[]"] exI [of _ s]) (auto simp: template_def)
    qed
  qed
qed

section \<open>Expansion of the configuration\<close>

datatype expand_error = ExpandFailed string env_error

definition expand_field :: "environment \<Rightarrow> string \<Rightarrow> string \<Rightarrow> expand_error + string" where
  "expand_field lookup field value =
     (case expandEnvString lookup value of
        Inl e \<Rightarrow> Inl (ExpandFailed field e)
      | Inr v \<Rightarrow> Inr v)"

definition expand_upstream ::
    "environment \<Rightarrow> nat \<Rightarrow> nat \<times> upstreamConfig \<Rightarrow> expand_error + upstreamConfig" where
  "expand_upstream lookup i ju =
     (let j = fst ju; u = snd ju;
          scope = ''routes['' @ itoa (int i) @ ''].upstreams['' @ itoa (int j) @ '']''
      in res_bind (expand_field lookup (scope @ ''.id'') (uc_ID u)) (\<lambda>x.
         res_bind (expand_field lookup (scope @ ''.url'') (uc_URL u)) (\<lambda>y.
         Inr (u\<lparr>uc_ID := x, uc_URL := y\<rparr>))))"

definition expand_route :: "environment \<Rightarrow> nat \<times> routeConfig \<Rightarrow> expand_error + routeConfig" where
  "expand_route lookup ir =
     (let i = fst ir; r = snd ir; scope = ''routes['' @ itoa (int i) @ '']'';
          p = rc_PassiveHealth r; c = rc_CircuitBreaker r; h = rc_HealthCheck r
      in res_bind (expand_field lookup (scope @ ''.id'') (rc_ID r)) (\<lambda>rid.
         res_bind (expand_field lookup (scope @ ''.prefix'') (rc_Prefix r)) (\<lambda>prefix.
         res_bind (expand_field lookup (scope @ ''.stripPrefix'') (rc_StripPrefix r)) (\<lambda>strip.
         res_bind (expand_field lookup (scope @ ''.target'') (rc_Target r)) (\<lambda>target.
         res_bind (res_map (expand_upstream lookup i) (enumerate 0 (rc_Upstreams r))) (\<lambda>upstreams.
         res_bind (expand_field lookup (scope @ ''.passiveHealth.unhealthyDuration'') (phc_UnhealthyDuration p)) (\<lambda>ud.
         res_bind (expand_field lookup (scope @ ''.circuitBreaker.openDuration'') (cbc_OpenDuration c)) (\<lambda>od.
         res_bind (expand_field lookup (scope @ ''.healthCheck.path'') (hcc_Path h)) (\<lambda>path.
         res_bind (expand_field lookup (scope @ ''.healthCheck.interval'') (hcc_Interval h)) (\<lambda>interval.
         res_bind (expand_field lookup (scope @ ''.healthCheck.timeout'') (hcc_Timeout h)) (\<lambda>timeout.
         Inr (r\<lparr>rc_ID := rid, rc_Prefix := prefix, rc_StripPrefix := strip, rc_Target := target,
           rc_Upstreams := upstreams, rc_PassiveHealth := p\<lparr>phc_UnhealthyDuration := ud\<rparr>,
           rc_CircuitBreaker := c\<lparr>cbc_OpenDuration := od\<rparr>,
           rc_HealthCheck := h\<lparr>hcc_Path := path, hcc_Interval := interval, hcc_Timeout := timeout\<rparr>\<rparr>))))))))))))"

definition expandConfigEnv :: "environment \<Rightarrow> config \<Rightarrow> expand_error + config" where
  "expandConfigEnv lookup cfg =
     (let s = cfg_Server cfg; a = cfg_Admin cfg
      in res_bind (expand_field lookup ''server.addr'' (sc_Addr s)) (\<lambda>addr.
         res_bind (expand_field lookup ''server.requestTimeout'' (sc_RequestTimeout s)) (\<lambda>rt.
         res_bind (expand_field lookup ''server.shutdownTimeout'' (sc_ShutdownTimeout s)) (\<lambda>st.
         res_bind (expand_field lookup ''admin.addr'' (ac_Addr a)) (\<lambda>aaddr.
         res_bind (expand_field lookup ''admin.token'' (ac_Token a)) (\<lambda>token.
         res_bind (res_map (expand_route lookup) (enumerate 0 (cfg_Routes cfg))) (\<lambda>routes.
         Inr (cfg\<lparr>cfg_Server := s\<lparr>sc_Addr := addr, sc_RequestTimeout := rt, sc_ShutdownTimeout := st\<rparr>,
           cfg_Admin := a\<lparr>ac_Addr := aaddr, ac_Token := token\<rparr>, cfg_Routes := routes\<rparr>))))))))"

text \<open>The strings of a configuration that are expanded.\<close>

definition upstream_strings :: "upstreamConfig \<Rightarrow> string list" where
  "upstream_strings u = [uc_ID u, uc_URL u]"

definition route_strings :: "routeConfig \<Rightarrow> string list" where
  "route_strings r =
     [rc_ID r, rc_Prefix r, rc_StripPrefix r, rc_Target r] @ concat (map upstream_strings (rc_Upstreams r))
     @ [phc_UnhealthyDuration (rc_PassiveHealth r), cbc_OpenDuration (rc_CircuitBreaker r),
        hcc_Path (rc_HealthCheck r), hcc_Interval (rc_HealthCheck r), hcc_Timeout (rc_HealthCheck r)]"

definition config_strings :: "config \<Rightarrow> string list" where
  "config_strings cfg =
     [sc_Addr (cfg_Server cfg), sc_RequestTimeout (cfg_Server cfg), sc_ShutdownTimeout (cfg_Server cfg),
      ac_Addr (cfg_Admin cfg), ac_Token (cfg_Admin cfg)] @ concat (map route_strings (cfg_Routes cfg))"

lemma expand_field_Inr [simp]: "expand_field lookup f s = Inr v \<longleftrightarrow> expandEnvString lookup s = Inr v"
  by (simp add: expand_field_def split: sum.split)

lemma res_map_enumerate_all2:
  assumes "res_map f (enumerate n xs) = Inr ys" and "\<And>ix y. f ix = Inr y \<Longrightarrow> P (snd ix) y"
  shows "list_all2 P xs ys"
proof -
  have "list_all2 (\<lambda>ix y. P (snd ix) y) (enumerate n xs) ys"
    using assms(1) unfolding res_map_Inr by (rule list_all2_mono) (rule assms(2))
  then have "list_all2 P (map snd (enumerate n xs)) ys" by (simp only: list_all2_map1)
  then show ?thesis by simp
qed

lemma expand_upstream_Inr:
  "expand_upstream lookup i ju = Inr u' \<Longrightarrow>
    map (expandEnvString lookup) (upstream_strings (snd ju)) = map Inr (upstream_strings u')"
  by (auto simp: expand_upstream_def Let_def res_bind_Inr upstream_strings_def)

lemma expand_all2_strings:
  assumes "list_all2 (\<lambda>x y. map (expandEnvString lookup) (f x) = map Inr (f y)) xs ys"
  shows "map (expandEnvString lookup) (concat (map f xs)) = map Inr (concat (map f ys))"
  using assms by (induction rule: list_all2_induct) simp_all

lemma expand_route_Inr:
  assumes "expand_route lookup ir = Inr r'"
  shows "map (expandEnvString lookup) (route_strings (snd ir)) = map Inr (route_strings r')"
proof -
  from assms obtain us where us: "res_map (expand_upstream lookup (fst ir)) (enumerate 0 (rc_Upstreams (snd ir))) = Inr us"
    "rc_Upstreams r' = us"
    by (auto simp: expand_route_def Let_def res_bind_Inr)
  have "map (expandEnvString lookup) (concat (map upstream_strings (rc_Upstreams (snd ir)))) =
      map Inr (concat (map upstream_strings us))"
    by (intro expand_all2_strings res_map_enumerate_all2 [OF us(1)]) (rule expand_upstream_Inr)
  with assms us(2) show ?thesis
    by (auto simp: expand_route_def Let_def res_bind_Inr route_strings_def)
qed

lemma expandConfigEnv_Inr:
  assumes "expandConfigEnv lookup cfg = Inr cfg'"
  shows "map (expandEnvString lookup) (config_strings cfg) = map Inr (config_strings cfg')"
proof -
  from assms obtain rs where rs: "res_map (expand_route lookup) (enumerate 0 (cfg_Routes cfg)) = Inr rs"
    "cfg_Routes cfg' = rs"
    by (auto simp: expandConfigEnv_def Let_def res_bind_Inr)
  have "map (expandEnvString lookup) (concat (map route_strings (cfg_Routes cfg))) =
      map Inr (concat (map route_strings rs))"
    by (intro expand_all2_strings res_map_enumerate_all2 [OF rs(1)]) (rule expand_route_Inr)
  with assms rs(2) show ?thesis
    by (auto simp: expandConfigEnv_def Let_def res_bind_Inr config_strings_def)
qed

text \<open>Where every string expands, so does the configuration.\<close>

lemma res_map_enumerate_total:
  "(\<And>i x. x \<in> set xs \<Longrightarrow> \<exists>y. f (i, x) = Inr y) \<Longrightarrow> \<exists>ys. res_map f (enumerate n xs) = Inr ys"
  by (rule res_map_total) (auto simp: in_set_enumerate_eq)

definition expands :: "environment \<Rightarrow> string \<Rightarrow> bool" where
  "expands lookup s \<longleftrightarrow> (\<exists>v. expandEnvString lookup s = Inr v)"

lemma expands_field: "expands lookup s \<Longrightarrow> \<exists>v. expand_field lookup f s = Inr v"
  by (simp add: expands_def)

lemma res_bind_total: "\<exists>x. r = Inr x \<Longrightarrow> (\<And>x. r = Inr x \<Longrightarrow> \<exists>y. f x = Inr y) \<Longrightarrow> \<exists>y. res_bind r f = Inr y"
  by auto

lemma expand_upstream_total:
  "list_all (expands lookup) (upstream_strings u) \<Longrightarrow> \<exists>u'. expand_upstream lookup i (j, u) = Inr u'"
  unfolding expand_upstream_def Let_def
  by (intro res_bind_total expands_field) (simp_all add: upstream_strings_def)

lemma expand_route_total:
  assumes "list_all (expands lookup) (route_strings r)"
  shows "\<exists>r'. expand_route lookup (i, r) = Inr r'"
proof -
  have "\<exists>us. res_map (expand_upstream lookup i) (enumerate 0 (rc_Upstreams r)) = Inr us"
    using assms by (intro res_map_enumerate_total expand_upstream_total) (auto simp: route_strings_def list_all_iff)
  then show ?thesis
    unfolding expand_route_def Let_def fst_conv snd_conv using assms
    by (intro res_bind_total expands_field) (simp_all add: route_strings_def)
qed

lemma expandConfigEnv_total:
  assumes "list_all (expands lookup) (config_strings cfg)"
  shows "\<exists>cfg'. expandConfigEnv lookup cfg = Inr cfg'"
proof -
  have "\<exists>rs. res_map (expand_route lookup) (enumerate 0 (cfg_Routes cfg)) = Inr rs"
    using assms by (intro res_map_enumerate_total expand_route_total) (auto simp: config_strings_def list_all_iff)
  then show ?thesis
    unfolding expandConfigEnv_def Let_def using assms
    by (intro res_bind_total expands_field) (simp_all add: config_strings_def)
qed

section \<open>Properties\<close>

text \<open>
  C26: Expansion is compositional and single-pass: in a template every expression is replaced by its
  value, in order, and the text between them stays as it is; a value that itself looks like an
  expression is not expanded again. The first expression that fails fails the whole, and so does
  a brace that is opened and not closed.
\<close>

theorem expandEnvString_template:
  assumes "template ps" and "plain l" and "CHR ''}'' \<notin> set r"
  shows "expandEnvString lookup (render ps l) =
      res_bind (res_map (expand_piece lookup) ps) (\<lambda>xs. Inr (concat xs @ l))
    \<and> expandEnvString lookup (render ps (l @ ''${'' @ r)) =
      res_bind (res_map (expand_piece lookup) ps) (\<lambda>xs. Inl (MissingClosing (''${'' @ r)))"
  using expandEnvString_render [OF assms(1)] expandEnvString_plain [OF assms(2)]
    expandEnvString_unclosed [OF assms(2,3)] by simp

definition demo_env :: environment where
  "demo_env = [''HOST'' \<mapsto> ''${PORT}'', ''EMPTY'' \<mapsto> '''']"

theorem expandEnvString_template_witness:
  "expandEnvString demo_env ''http://${HOST}:${EMPTY:80}/a$b'' = Inr ''http://${PORT}:80/a$b''"
proof -
  let ?ps = "[(''http://'', ''HOST''), ('':'', ''EMPTY:80'')]"
  have t: "template ?ps" and p: "plain ''/a$b''" by (simp_all add: template_def)
  have trim: "trim_space ''HOST'' = ''HOST''" "trim_space ''EMPTY:80'' = ''EMPTY:80''" "trim_space ''EMPTY'' = ''EMPTY''"
    by (intro trim_space_printable; simp add: printable_def)+
  have "res_map (expand_piece demo_env) ?ps = Inr [''http://${PORT}'', '':80'']"
    by (simp add: expand_piece_def expandEnvExpression_def splitEnvExpression_def trim demo_env_def)
  with expandEnvString_template [OF t p, of "[]" demo_env] show ?thesis by simp
qed

text \<open>
  The configuration expands exactly if each of its strings does, and then every string of the
  result is the expansion of the string in its place; a string that is left out of the expansion,
  or expanded into another field, would make this fail.
\<close>

theorem expandConfigEnv_strings:
  "(\<exists>cfg'. expandConfigEnv lookup cfg = Inr cfg'
      \<and> map (expandEnvString lookup) (config_strings cfg) = map Inr (config_strings cfg'))
    \<longleftrightarrow> list_all (expands lookup) (config_strings cfg)"
proof
  assume "\<exists>cfg'. expandConfigEnv lookup cfg = Inr cfg'
      \<and> map (expandEnvString lookup) (config_strings cfg) = map Inr (config_strings cfg')"
  then obtain cfg' where m: "map (expandEnvString lookup) (config_strings cfg) = map Inr (config_strings cfg')"
    by blast
  have "expands lookup s" if "s \<in> set (config_strings cfg)" for s
  proof -
    have "expandEnvString lookup s \<in> set (map (expandEnvString lookup) (config_strings cfg))"
      using that by simp
    then show ?thesis unfolding m expands_def by auto
  qed
  then show "list_all (expands lookup) (config_strings cfg)" by (simp add: list_all_iff)
next
  assume "list_all (expands lookup) (config_strings cfg)"
  then show "\<exists>cfg'. expandConfigEnv lookup cfg = Inr cfg'
      \<and> map (expandEnvString lookup) (config_strings cfg) = map Inr (config_strings cfg')"
    using expandConfigEnv_total expandConfigEnv_Inr by blast
qed

end
