(* ===== verification/Config.thy ===== *)
theory Config
  imports Config_Env
begin

text \<open>
  \<^verbatim>\<open>internal/config/config.go\<close>: defaults, normalisation, validation and \<^verbatim>\<open>Load\<close>. Parameters are
  reading a file, decoding JSON into the structs, the environment, and \<^verbatim>\<open>url.Parse\<close>. An error is
  a constructor with the values its message shows.
\<close>

section \<open>Errors\<close>

datatype config_error =
    ReadFailed string string
  | ParseFailed string string
  | EnvFailed expand_error
  | BadDuration string string duration_error
  | Scoped string config_error
  | ServerAddrRequired
  | RateLimitRPSNegative string
  | RateLimitBurstNegative string
  | RateLimitBurstRequiresRPS string
  | RateLimitRPSTooLarge string go_int
  | RateLimitBurstTooLarge string go_int
  | MaxConcurrencyNegative string
  | MaxConcurrencyTooLarge string go_int
  | MetricsTokenRequiresAdmin
  | AdminAddrRequired
  | AdminTokenRequired
  | AtLeastOneRoute
  | RouteIDRequired nat
  | DuplicateRouteID string
  | RoutePrefixRequired nat
  | DuplicateRoutePrefix string
  | StripPrefixNotPrefix nat string string
  | RouteRequiresTarget nat
  | RouteTargetRequired nat
  | URLInvalid string string string
  | URLIncomplete string string
  | UpstreamsEmpty string
  | UpstreamIDRequired string nat
  | DuplicateUpstreamID string string
  | UpstreamURLRequired string nat
  | HealthPathRequired string
  | HealthPathNoSlash string
  | MustBePositive string string
  | TimeoutNotBelowInterval string duration duration
  | TooLarge string string go_int

section \<open>Defaults and durations\<close>

definition defaultAddr :: string where "defaultAddr = '':8080''"
definition defaultAdminAddr :: string where "defaultAdminAddr = ''127.0.0.1:9001''"
definition defaultRequestTimeout :: duration where "defaultRequestTimeout = 3 * second"
definition defaultShutdownTimeout :: duration where "defaultShutdownTimeout = 10 * second"

definition cfg_Addr :: "config \<Rightarrow> string" where
  "cfg_Addr c = (if sc_Addr (cfg_Server c) = '''' then defaultAddr else sc_Addr (cfg_Server c))"

definition duration_field :: "string \<Rightarrow> duration \<Rightarrow> string \<Rightarrow> config_error + duration" where
  "duration_field field fallback raw =
     (if raw = '''' then Inr fallback
      else case ParseDuration raw of
        Inl e \<Rightarrow> Inl (BadDuration field raw e)
      | Inr d \<Rightarrow> Inr d)"

definition RequestTimeoutDuration :: "config \<Rightarrow> config_error + duration" where
  "RequestTimeoutDuration c =
     duration_field ''server.requestTimeout'' defaultRequestTimeout (sc_RequestTimeout (cfg_Server c))"

definition ShutdownTimeoutDuration :: "config \<Rightarrow> config_error + duration" where
  "ShutdownTimeoutDuration c =
     duration_field ''server.shutdownTimeout'' defaultShutdownTimeout (sc_ShutdownTimeout (cfg_Server c))"

definition IntervalDuration :: "healthCheckConfig \<Rightarrow> config_error + duration" where
  "IntervalDuration h = duration_field ''healthCheck.interval'' (5 * second) (hcc_Interval h)"

definition TimeoutDuration :: "healthCheckConfig \<Rightarrow> config_error + duration" where
  "TimeoutDuration h = duration_field ''healthCheck.timeout'' (1 * second) (hcc_Timeout h)"

definition UnhealthyDurationDuration :: "passiveHealthConfig \<Rightarrow> config_error + duration" where
  "UnhealthyDurationDuration p =
     duration_field ''passiveHealth.unhealthyDuration'' (10 * second) (phc_UnhealthyDuration p)"

definition OpenDurationDuration :: "circuitBreakerConfig \<Rightarrow> config_error + duration" where
  "OpenDurationDuration c =
     duration_field ''circuitBreaker.openDuration'' (10 * second) (cbc_OpenDuration c)"

section \<open>Normalisation\<close>

definition normalizeTargetURL :: "string \<Rightarrow> string" where
  "normalizeTargetURL target = trim_right (trim_space target) (CHR ''/'')"

definition normalizePrefix :: "string \<Rightarrow> string" where
  "normalizePrefix prefix0 =
     (let p0 = trim_space prefix0
      in if p0 = '''' then ''/''
         else
           (let p1 = (if \<not> has_prefix p0 ''/'' then ''/'' @ p0 else p0)
            in if \<not> has_suffix p1 ''/'' then p1 @ ''/'' else p1))"

definition normalizeStripPrefix :: "string \<Rightarrow> string" where
  "normalizeStripPrefix stripPrefix0 =
     (let s0 = trim_space stripPrefix0
      in if s0 = '''' then ''/''
         else
           (let s1 = (if \<not> has_prefix s0 ''/'' then ''/'' @ s0 else s0)
            in if has_suffix s1 ''/'' \<and> s1 \<noteq> ''/'' then trim_right s1 (CHR ''/'') else s1))"

text \<open>
  \<^verbatim>\<open>defaultRequestTimeout.String()\<close> and \<^verbatim>\<open>defaultShutdownTimeout.String()\<close> are constants: \<open>3s\<close>
  and \<open>10s\<close>.
\<close>

definition normalize_server :: "serverConfig \<Rightarrow> serverConfig" where
  "normalize_server s =
     s\<lparr>sc_Addr := (if sc_Addr s = '''' then defaultAddr else sc_Addr s),
       sc_RequestTimeout := (if sc_RequestTimeout s = '''' then ''3s'' else sc_RequestTimeout s),
       sc_ShutdownTimeout := (if sc_ShutdownTimeout s = '''' then ''10s'' else sc_ShutdownTimeout s),
       sc_RateLimitBurst := (if sc_RateLimitRPS s > 0 \<and> sc_RateLimitBurst s \<le> 0
                             then sc_RateLimitRPS s else sc_RateLimitBurst s)\<rparr>"

definition normalize_admin :: "adminConfig \<Rightarrow> adminConfig" where
  "normalize_admin a0 =
     (let a = a0\<lparr>ac_Addr := trim_space (ac_Addr a0), ac_Token := trim_space (ac_Token a0)\<rparr>
      in if ac_Enabled a \<and> ac_Addr a = '''' then a\<lparr>ac_Addr := defaultAdminAddr\<rparr> else a)"

definition normalize_upstream :: "nat \<times> upstreamConfig \<Rightarrow> upstreamConfig" where
  "normalize_upstream ju =
     (let j = fst ju; u = snd ju; i = trim_space (uc_ID u)
      in u\<lparr>uc_ID := (if i = '''' then ''upstream-'' @ itoa (int j + 1) else i),
           uc_URL := normalizeTargetURL (uc_URL u)\<rparr>)"

definition normalize_passive :: "passiveHealthConfig \<Rightarrow> passiveHealthConfig" where
  "normalize_passive p =
     (if \<not> phc_Enabled p then p
      else p\<lparr>phc_FailureThreshold := (if phc_FailureThreshold p \<le> 0 then 3 else phc_FailureThreshold p),
             phc_SuccessThreshold := (if phc_SuccessThreshold p \<le> 0 then 1 else phc_SuccessThreshold p),
             phc_UnhealthyDuration :=
               (if phc_UnhealthyDuration p = '''' then ''10s'' else phc_UnhealthyDuration p)\<rparr>)"

definition normalize_breaker :: "circuitBreakerConfig \<Rightarrow> circuitBreakerConfig" where
  "normalize_breaker c =
     (if \<not> cbc_Enabled c then c
      else c\<lparr>cbc_FailureThreshold := (if cbc_FailureThreshold c \<le> 0 then 5 else cbc_FailureThreshold c),
             cbc_OpenDuration := (if cbc_OpenDuration c = '''' then ''10s'' else cbc_OpenDuration c),
             cbc_HalfOpenMaxRequests :=
               (if cbc_HalfOpenMaxRequests c \<le> 0 then 1 else cbc_HalfOpenMaxRequests c)\<rparr>)"

definition normalize_health :: "healthCheckConfig \<Rightarrow> healthCheckConfig" where
  "normalize_health h =
     (if \<not> hcc_Enabled h then h
      else
        (let p0 = trim_space (hcc_Path h);
             p1 = (if p0 = '''' then ''/health'' else p0);
             p2 = (if \<not> has_prefix p1 ''/'' then ''/'' @ p1 else p1)
         in h\<lparr>hcc_Path := p2,
              hcc_Interval := (if hcc_Interval h = '''' then ''5s'' else hcc_Interval h),
              hcc_Timeout := (if hcc_Timeout h = '''' then ''1s'' else hcc_Timeout h)\<rparr>))"

definition normalize_route :: "routeConfig \<Rightarrow> routeConfig" where
  "normalize_route r =
     (let target = normalizeTargetURL (rc_Target r);
          ups0 = map normalize_upstream (enumerate 0 (rc_Upstreams r));
          ups1 = (if ups0 = [] \<and> target \<noteq> '''' then [\<lparr>uc_ID = ''default'', uc_URL = target\<rparr>] else ups0);
          target1 = (if target = '''' \<and> ups1 \<noteq> [] then uc_URL (hd ups1) else target)
      in r\<lparr>rc_ID := trim_space (rc_ID r),
           rc_Prefix := normalizePrefix (rc_Prefix r),
           rc_StripPrefix := normalizeStripPrefix (rc_StripPrefix r),
           rc_Target := target1,
           rc_Upstreams := ups1,
           rc_RateLimitBurst := (if rc_RateLimitRPS r > 0 \<and> rc_RateLimitBurst r \<le> 0
                                 then rc_RateLimitRPS r else rc_RateLimitBurst r),
           rc_PassiveHealth := normalize_passive (rc_PassiveHealth r),
           rc_CircuitBreaker := normalize_breaker (rc_CircuitBreaker r),
           rc_HealthCheck := normalize_health (rc_HealthCheck r)\<rparr>)"

definition normalize :: "config \<Rightarrow> config" where
  "normalize cfg =
     cfg\<lparr>cfg_Server := normalize_server (cfg_Server cfg),
         cfg_Admin := normalize_admin (cfg_Admin cfg),
         cfg_Routes := map normalize_route (cfg_Routes cfg)\<rparr>"

section \<open>Validation\<close>

definition validateTargetURL :: "url_parser \<Rightarrow> string \<Rightarrow> string \<Rightarrow> config_error option" where
  "validateTargetURL url_parse scope rawURL =
     (case url_parse rawURL of
        Inl e \<Rightarrow> Some (URLInvalid scope rawURL e)
      | Inr parsedURL \<Rightarrow>
          if url_Scheme parsedURL = '''' \<or> url_Host parsedURL = '''' then Some (URLIncomplete scope rawURL)
          else None)"

definition validateRateLimit :: "string \<Rightarrow> go_int \<Rightarrow> go_int \<Rightarrow> config_error option" where
  "validateRateLimit scope rps burst = first_err
     [fail_if (rps < 0) (RateLimitRPSNegative scope),
      fail_if (burst < 0) (RateLimitBurstNegative scope),
      fail_if (rps = 0 \<and> burst > 0) (RateLimitBurstRequiresRPS scope),
      fail_if (rps > 100000) (RateLimitRPSTooLarge scope rps),
      fail_if (burst > 100000) (RateLimitBurstTooLarge scope burst)]"

definition validateMaxConcurrency :: "string \<Rightarrow> go_int \<Rightarrow> config_error option" where
  "validateMaxConcurrency scope maxConcurrency = first_err
     [fail_if (maxConcurrency < 0) (MaxConcurrencyNegative scope),
      fail_if (maxConcurrency > 100000) (MaxConcurrencyTooLarge scope maxConcurrency)]"

definition validateHealthCheck :: "string \<Rightarrow> healthCheckConfig \<Rightarrow> config_error option" where
  "validateHealthCheck scope h =
     (if \<not> hcc_Enabled h then None
      else if hcc_Path h = '''' then Some (HealthPathRequired scope)
      else if \<not> has_prefix (hcc_Path h) ''/'' then Some (HealthPathNoSlash scope)
      else case IntervalDuration h of
        Inl e \<Rightarrow> Some (Scoped scope e)
      | Inr interval \<Rightarrow>
          (case TimeoutDuration h of
             Inl e \<Rightarrow> Some (Scoped scope e)
           | Inr timeout \<Rightarrow> first_err
               [fail_if (interval \<le> 0) (MustBePositive scope ''healthCheck.interval''),
                fail_if (timeout \<le> 0) (MustBePositive scope ''healthCheck.timeout''),
                fail_if (timeout \<ge> interval) (TimeoutNotBelowInterval scope timeout interval)]))"

definition validatePassiveHealth :: "string \<Rightarrow> passiveHealthConfig \<Rightarrow> config_error option" where
  "validatePassiveHealth scope p =
     (if \<not> phc_Enabled p then None
      else case first_err
             [fail_if (phc_FailureThreshold p \<le> 0) (MustBePositive scope ''passiveHealth.failureThreshold''),
              fail_if (phc_SuccessThreshold p \<le> 0) (MustBePositive scope ''passiveHealth.successThreshold''),
              fail_if (phc_FailureThreshold p > 100000)
                (TooLarge scope ''passiveHealth.failureThreshold'' (phc_FailureThreshold p)),
              fail_if (phc_SuccessThreshold p > 100000)
                (TooLarge scope ''passiveHealth.successThreshold'' (phc_SuccessThreshold p))] of
        Some e \<Rightarrow> Some e
      | None \<Rightarrow>
          (case UnhealthyDurationDuration p of
             Inl e \<Rightarrow> Some (Scoped scope e)
           | Inr duration \<Rightarrow> fail_if (duration \<le> 0) (MustBePositive scope ''passiveHealth.unhealthyDuration'')))"

definition validateCircuitBreaker :: "string \<Rightarrow> circuitBreakerConfig \<Rightarrow> config_error option" where
  "validateCircuitBreaker scope c =
     (if \<not> cbc_Enabled c then None
      else case first_err
             [fail_if (cbc_FailureThreshold c \<le> 0) (MustBePositive scope ''circuitBreaker.failureThreshold''),
              fail_if (cbc_FailureThreshold c > 100000)
                (TooLarge scope ''circuitBreaker.failureThreshold'' (cbc_FailureThreshold c)),
              fail_if (cbc_HalfOpenMaxRequests c \<le> 0) (MustBePositive scope ''circuitBreaker.halfOpenMaxRequests''),
              fail_if (cbc_HalfOpenMaxRequests c > 100000)
                (TooLarge scope ''circuitBreaker.halfOpenMaxRequests'' (cbc_HalfOpenMaxRequests c))] of
        Some e \<Rightarrow> Some e
      | None \<Rightarrow>
          (case OpenDurationDuration c of
             Inl e \<Rightarrow> Some (Scoped scope e)
           | Inr duration \<Rightarrow> fail_if (duration \<le> 0) (MustBePositive scope ''circuitBreaker.openDuration'')))"

definition validateAdmin :: "config \<Rightarrow> config_error option" where
  "validateAdmin cfg =
     (let a = cfg_Admin cfg
      in if \<not> ac_Enabled a then fail_if (ac_MetricsRequireToken a) MetricsTokenRequiresAdmin
         else first_err [fail_if (ac_Addr a = '''') AdminAddrRequired, fail_if (ac_Token a = '''') AdminTokenRequired])"

text \<open>The loop of \<^verbatim>\<open>validateUpstreams\<close>: \<open>ids\<close> are the ids seen, \<open>i\<close> is the index.\<close>

definition check_upstream ::
    "url_parser \<Rightarrow> string \<Rightarrow> string set \<Rightarrow> nat \<Rightarrow> upstreamConfig \<Rightarrow> config_error option" where
  "check_upstream url_parse scope ids i u = first_err
     [fail_if (uc_ID u = '''') (UpstreamIDRequired scope i),
      fail_if (uc_ID u \<in> ids) (DuplicateUpstreamID scope (uc_ID u)),
      fail_if (uc_URL u = '''') (UpstreamURLRequired scope i),
      validateTargetURL url_parse (scope @ ''.upstreams['' @ itoa (int i) @ ''].url'') (uc_URL u)]"

fun check_upstreams ::
    "url_parser \<Rightarrow> string \<Rightarrow> string set \<Rightarrow> nat \<Rightarrow> upstreamConfig list \<Rightarrow> config_error option" where
  "check_upstreams url_parse scope ids i [] = None"
| "check_upstreams url_parse scope ids i (u # us) =
     (case check_upstream url_parse scope ids i u of
        Some e \<Rightarrow> Some e
      | None \<Rightarrow> check_upstreams url_parse scope (insert (uc_ID u) ids) (i + 1) us)"

definition validateUpstreams :: "url_parser \<Rightarrow> string \<Rightarrow> upstreamConfig list \<Rightarrow> config_error option" where
  "validateUpstreams url_parse scope upstreams =
     (if upstreams = [] then Some (UpstreamsEmpty scope) else check_upstreams url_parse scope {} 0 upstreams)"

text \<open>The loop over the routes; the messages of \<^verbatim>\<open>validate\<close> write both \<open>routes[i]\<close> and \<open>route[i]\<close>.\<close>

definition check_route ::
    "url_parser \<Rightarrow> string set \<Rightarrow> string set \<Rightarrow> nat \<Rightarrow> routeConfig \<Rightarrow> config_error option" where
  "check_route url_parse routeIDs seenPrefixes i r =
     (let routes_i = ''routes['' @ itoa (int i) @ '']''; route_i = ''route['' @ itoa (int i) @ '']''
      in first_err
        [fail_if (rc_ID r = '''') (RouteIDRequired i),
         fail_if (rc_ID r \<in> routeIDs) (DuplicateRouteID (rc_ID r)),
         fail_if (rc_Prefix r = '''') (RoutePrefixRequired i),
         fail_if (rc_Prefix r \<in> seenPrefixes) (DuplicateRoutePrefix (rc_Prefix r)),
         fail_if (rc_StripPrefix r \<noteq> '''' \<and> \<not> has_prefix (rc_Prefix r) (rc_StripPrefix r))
           (StripPrefixNotPrefix i (rc_StripPrefix r) (rc_Prefix r)),
         fail_if (rc_Upstreams r = []) (RouteRequiresTarget i),
         fail_if (rc_Target r = '''') (RouteTargetRequired i),
         validateTargetURL url_parse (routes_i @ ''.target'') (rc_Target r),
         validateUpstreams url_parse routes_i (rc_Upstreams r),
         validateRateLimit route_i (rc_RateLimitRPS r) (rc_RateLimitBurst r),
         validateMaxConcurrency route_i (rc_MaxConcurrency r),
         validateHealthCheck route_i (rc_HealthCheck r),
         validatePassiveHealth route_i (rc_PassiveHealth r),
         validateCircuitBreaker route_i (rc_CircuitBreaker r)])"

fun check_routes ::
    "url_parser \<Rightarrow> string set \<Rightarrow> string set \<Rightarrow> nat \<Rightarrow> routeConfig list \<Rightarrow> config_error option" where
  "check_routes url_parse routeIDs seenPrefixes i [] = None"
| "check_routes url_parse routeIDs seenPrefixes i (r # rs) =
     (case check_route url_parse routeIDs seenPrefixes i r of
        Some e \<Rightarrow> Some e
      | None \<Rightarrow> check_routes url_parse (insert (rc_ID r) routeIDs) (insert (rc_Prefix r) seenPrefixes) (i + 1) rs)"

definition err_of :: "'e + 'a \<Rightarrow> 'e option" where
  "err_of r = (case r of Inl e \<Rightarrow> Some e | Inr _ \<Rightarrow> None)"

definition validate :: "url_parser \<Rightarrow> config \<Rightarrow> config_error option" where
  "validate url_parse cfg =
     (let s = cfg_Server cfg
      in first_err
        [fail_if (sc_Addr s = '''') ServerAddrRequired,
         err_of (RequestTimeoutDuration cfg),
         err_of (ShutdownTimeoutDuration cfg),
         validateRateLimit ''server'' (sc_RateLimitRPS s) (sc_RateLimitBurst s),
         validateMaxConcurrency ''server'' (sc_MaxConcurrency s),
         validateAdmin cfg,
         fail_if (cfg_Routes cfg = []) AtLeastOneRoute,
         check_routes url_parse {} {} 0 (cfg_Routes cfg)])"

definition Load ::
    "(string \<Rightarrow> string + string) \<Rightarrow> (string \<Rightarrow> string + config) \<Rightarrow> environment \<Rightarrow> url_parser \<Rightarrow>
     string \<Rightarrow> config_error + config" where
  "Load read_file unmarshal lookup url_parse path =
     (case read_file path of
        Inl e \<Rightarrow> Inl (ReadFailed path e)
      | Inr data \<Rightarrow>
          (case unmarshal data of
             Inl e \<Rightarrow> Inl (ParseFailed path e)
           | Inr cfg0 \<Rightarrow>
               (case expandConfigEnv lookup cfg0 of
                  Inl e \<Rightarrow> Inl (EnvFailed e)
                | Inr cfg1 \<Rightarrow>
                    (let cfg = normalize cfg1
                     in case validate url_parse cfg of
                          Some e \<Rightarrow> Inl e
                        | None \<Rightarrow> Inr cfg))))"

section \<open>What a valid configuration is\<close>

definition usable :: "url_parser \<Rightarrow> string \<Rightarrow> bool" where
  "usable url_parse raw =
     (case url_parse raw of Inl e \<Rightarrow> False | Inr u \<Rightarrow> url_Scheme u \<noteq> '''' \<and> url_Host u \<noteq> '''')"

definition duration_ok :: "(duration \<Rightarrow> bool) \<Rightarrow> config_error + duration \<Rightarrow> bool" where
  "duration_ok P r = (case r of Inl e \<Rightarrow> False | Inr d \<Rightarrow> P d)"

definition rate_ok :: "go_int \<Rightarrow> go_int \<Rightarrow> bool" where
  "rate_ok rps burst \<longleftrightarrow> 0 \<le> rps \<and> rps \<le> 100000 \<and> 0 \<le> burst \<and> burst \<le> 100000 \<and> (rps = 0 \<longrightarrow> burst = 0)"

definition concurrency_ok :: "go_int \<Rightarrow> bool" where
  "concurrency_ok n \<longleftrightarrow> 0 \<le> n \<and> n \<le> 100000"

definition health_ok :: "healthCheckConfig \<Rightarrow> bool" where
  "health_ok h \<longleftrightarrow> (hcc_Enabled h \<longrightarrow> has_prefix (hcc_Path h) ''/'' \<and>
     duration_ok (\<lambda>interval. 0 < interval \<and> duration_ok (\<lambda>timeout. 0 < timeout \<and> timeout < interval)
       (TimeoutDuration h)) (IntervalDuration h))"

definition passive_ok :: "passiveHealthConfig \<Rightarrow> bool" where
  "passive_ok p \<longleftrightarrow> (phc_Enabled p \<longrightarrow>
     0 < phc_FailureThreshold p \<and> phc_FailureThreshold p \<le> 100000 \<and>
     0 < phc_SuccessThreshold p \<and> phc_SuccessThreshold p \<le> 100000 \<and>
     duration_ok (\<lambda>d. 0 < d) (UnhealthyDurationDuration p))"

definition breaker_ok :: "circuitBreakerConfig \<Rightarrow> bool" where
  "breaker_ok c \<longleftrightarrow> (cbc_Enabled c \<longrightarrow>
     0 < cbc_FailureThreshold c \<and> cbc_FailureThreshold c \<le> 100000 \<and>
     0 < cbc_HalfOpenMaxRequests c \<and> cbc_HalfOpenMaxRequests c \<le> 100000 \<and>
     duration_ok (\<lambda>d. 0 < d) (OpenDurationDuration c))"

definition admin_ok :: "adminConfig \<Rightarrow> bool" where
  "admin_ok a \<longleftrightarrow> (if ac_Enabled a then ac_Addr a \<noteq> '''' \<and> ac_Token a \<noteq> '''' else \<not> ac_MetricsRequireToken a)"

definition upstreams_ok :: "url_parser \<Rightarrow> upstreamConfig list \<Rightarrow> bool" where
  "upstreams_ok url_parse us \<longleftrightarrow> us \<noteq> [] \<and> distinct (map uc_ID us) \<and>
     list_all (\<lambda>u. uc_ID u \<noteq> '''' \<and> uc_URL u \<noteq> '''' \<and> usable url_parse (uc_URL u)) us"

definition route_ok :: "url_parser \<Rightarrow> routeConfig \<Rightarrow> bool" where
  "route_ok url_parse r \<longleftrightarrow>
     rc_ID r \<noteq> '''' \<and> rc_Prefix r \<noteq> '''' \<and> has_prefix (rc_Prefix r) (rc_StripPrefix r) \<and>
     rc_Target r \<noteq> '''' \<and> usable url_parse (rc_Target r) \<and> upstreams_ok url_parse (rc_Upstreams r) \<and>
     rate_ok (rc_RateLimitRPS r) (rc_RateLimitBurst r) \<and> concurrency_ok (rc_MaxConcurrency r) \<and>
     health_ok (rc_HealthCheck r) \<and> passive_ok (rc_PassiveHealth r) \<and> breaker_ok (rc_CircuitBreaker r)"

definition valid_config :: "url_parser \<Rightarrow> config \<Rightarrow> bool" where
  "valid_config url_parse cfg \<longleftrightarrow>
     sc_Addr (cfg_Server cfg) \<noteq> '''' \<and>
     duration_ok (\<lambda>_. True) (RequestTimeoutDuration cfg) \<and>
     duration_ok (\<lambda>_. True) (ShutdownTimeoutDuration cfg) \<and>
     rate_ok (sc_RateLimitRPS (cfg_Server cfg)) (sc_RateLimitBurst (cfg_Server cfg)) \<and>
     concurrency_ok (sc_MaxConcurrency (cfg_Server cfg)) \<and> admin_ok (cfg_Admin cfg) \<and>
     cfg_Routes cfg \<noteq> [] \<and> list_all (route_ok url_parse) (cfg_Routes cfg) \<and>
     distinct (map rc_ID (cfg_Routes cfg)) \<and> distinct (map rc_Prefix (cfg_Routes cfg))"

named_theorems checks "each validation function against its predicate"

lemma url_check [checks]: "validateTargetURL url_parse scope raw = None \<longleftrightarrow> usable url_parse raw"
  by (auto simp: validateTargetURL_def usable_def split: sum.split)

lemma rate_check [checks]: "validateRateLimit scope rps burst = None \<longleftrightarrow> rate_ok rps burst"
  by (auto simp: validateRateLimit_def rate_ok_def)

lemma concurrency_check [checks]: "validateMaxConcurrency scope n = None \<longleftrightarrow> concurrency_ok n"
  by (auto simp: validateMaxConcurrency_def concurrency_ok_def)

lemma health_check [checks]: "validateHealthCheck scope h = None \<longleftrightarrow> health_ok h"
  by (auto simp: validateHealthCheck_def health_ok_def duration_ok_def has_prefix_def split: sum.split)

lemma passive_check [checks]: "validatePassiveHealth scope p = None \<longleftrightarrow> passive_ok p"
  by (auto simp: validatePassiveHealth_def passive_ok_def duration_ok_def first_err_Cons fail_if_def
      split: sum.split)

lemma breaker_check [checks]: "validateCircuitBreaker scope c = None \<longleftrightarrow> breaker_ok c"
  by (auto simp: validateCircuitBreaker_def breaker_ok_def duration_ok_def first_err_Cons fail_if_def
      split: sum.split)

lemma admin_check [checks]: "validateAdmin cfg = None \<longleftrightarrow> admin_ok (cfg_Admin cfg)"
  by (auto simp: validateAdmin_def admin_ok_def Let_def)

lemma err_of_check [checks]: "err_of r = None \<longleftrightarrow> duration_ok (\<lambda>_. True) r"
  by (auto simp: err_of_def duration_ok_def split: sum.split)

lemma upstream_check:
  "check_upstream url_parse scope ids i u = None \<longleftrightarrow>
    uc_ID u \<notin> ids \<and> uc_ID u \<noteq> '''' \<and> uc_URL u \<noteq> '''' \<and> usable url_parse (uc_URL u)"
  by (auto simp: check_upstream_def checks)

lemma check_upstreams_iff:
  "check_upstreams url_parse scope ids i us = None \<longleftrightarrow>
    distinct (map uc_ID us) \<and> set (map uc_ID us) \<inter> ids = {} \<and>
    list_all (\<lambda>u. uc_ID u \<noteq> '''' \<and> uc_URL u \<noteq> '''' \<and> usable url_parse (uc_URL u)) us"
proof (induction url_parse scope ids i us rule: check_upstreams.induct)
  case (2 url_parse scope ids i u us)
  then show ?case
    using upstream_check [of url_parse scope ids i u]
    by (cases "check_upstream url_parse scope ids i u") auto
qed simp

lemma upstreams_check [checks]: "validateUpstreams url_parse scope us = None \<longleftrightarrow> upstreams_ok url_parse us"
  by (auto simp: validateUpstreams_def upstreams_ok_def check_upstreams_iff)

lemma route_check:
  "check_route url_parse ids pre i r = None \<longleftrightarrow>
    rc_ID r \<notin> ids \<and> rc_Prefix r \<notin> pre \<and> route_ok url_parse r"
  by (auto simp: check_route_def Let_def checks route_ok_def upstreams_ok_def)

lemma routes_check:
  "check_routes url_parse ids pre i rs = None \<longleftrightarrow>
    list_all (route_ok url_parse) rs \<and> distinct (map rc_ID rs) \<and> distinct (map rc_Prefix rs) \<and>
    set (map rc_ID rs) \<inter> ids = {} \<and> set (map rc_Prefix rs) \<inter> pre = {}"
proof (induction url_parse ids pre i rs rule: check_routes.induct)
  case (2 url_parse ids pre i r rs)
  then show ?case
    using route_check [of url_parse ids pre i r] by (cases "check_route url_parse ids pre i r") auto
qed simp

lemma validate_iff: "validate url_parse cfg = None \<longleftrightarrow> valid_config url_parse cfg"
  by (auto simp: validate_def Let_def checks routes_check valid_config_def)

section \<open>What normalisation gives\<close>

lemma printable_slash [simp]: "printable (CHR ''/'')"
  by (simp add: printable_def)

lemma normalizePrefix_ends: "has_prefix (normalizePrefix p) ''/'' \<and> has_suffix (normalizePrefix p) ''/''"
  by (auto simp: normalizePrefix_def Let_def has_prefix_Cons1 has_suffix_snoc1)

lemma normalizePrefix_fixed:
  assumes "has_prefix p ''/''" and "has_suffix p ''/''"
  shows "normalizePrefix p = p"
proof -
  have "trim_space p = p"
    using assms by (intro trim_space_printable) (auto simp: has_prefix_Cons1 has_suffix_snoc1)
  with assms show ?thesis by (auto simp: normalizePrefix_def Let_def has_prefix_Cons1)
qed

lemma normalizeStripPrefix_shape:
  "(normalizeStripPrefix s = '''' \<or> has_prefix (normalizeStripPrefix s) ''/'') \<and>
   (normalizeStripPrefix s = ''/'' \<or> \<not> has_suffix (normalizeStripPrefix s) ''/'')"
proof -
  define s1 where "s1 = (let s0 = trim_space s in if \<not> has_prefix s0 ''/'' then ''/'' @ s0 else s0)"
  have head: "has_prefix s1 ''/''" by (simp add: s1_def Let_def has_prefix_Cons1)
  have "trim_right s1 (CHR ''/'') = [] \<or> has_prefix (trim_right s1 (CHR ''/'')) ''/''"
  proof -
    obtain n where "s1 = trim_right s1 (CHR ''/'') @ replicate n (CHR ''/'')" using trim_right_split by blast
    with head show ?thesis by (metis has_prefix_Cons1 hd_append2)
  qed
  moreover have "trim_right s1 (CHR ''/'') = [] \<or> \<not> has_suffix (trim_right s1 (CHR ''/'')) ''/''"
    using trim_right_last [of s1 "CHR ''/''"] by (simp add: has_suffix_snoc1)
  moreover have "\<not> has_suffix [] ''/''" by (simp add: has_suffix_snoc1)
  ultimately have "(normalizeStripPrefix s = '''' \<or> has_prefix (normalizeStripPrefix s) ''/'') \<and>
      (normalizeStripPrefix s = ''/'' \<or> \<not> has_suffix (normalizeStripPrefix s) ''/'')"
    using head by (auto simp: normalizeStripPrefix_def s1_def Let_def has_prefix_Cons1)
  then show ?thesis .
qed

text \<open>A route as normalisation leaves it.\<close>

definition normal_route :: "routeConfig \<Rightarrow> bool" where
  "normal_route r \<longleftrightarrow>
     trim_space (rc_ID r) = rc_ID r \<and>
     has_prefix (rc_Prefix r) ''/'' \<and> has_suffix (rc_Prefix r) ''/'' \<and>
     (rc_StripPrefix r = '''' \<or> has_prefix (rc_StripPrefix r) ''/'') \<and>
     (rc_StripPrefix r = ''/'' \<or> \<not> has_suffix (rc_StripPrefix r) ''/'') \<and>
     list_all (\<lambda>u. trim_space (uc_ID u) = uc_ID u \<and> uc_ID u \<noteq> '''' \<and> \<not> has_suffix (uc_URL u) ''/'') (rc_Upstreams r) \<and>
     (rc_Upstreams r = [] \<longrightarrow> rc_Target r = '''') \<and>
     (0 < rc_RateLimitRPS r \<longrightarrow> 0 < rc_RateLimitBurst r)"

lemma target_no_slash: "\<not> has_suffix (normalizeTargetURL t) ''/''"
  using trim_right_last [of "trim_space t" "CHR ''/''"]
  by (auto simp: normalizeTargetURL_def has_suffix_snoc1)

lemma trim_space_upstream_id:
  "trim_space (''upstream-'' @ itoa (int j + 1)) = ''upstream-'' @ itoa (int j + 1)"
proof (rule trim_space_printable)
  have "udigits (nat (int j + 1)) \<noteq> []" by simp
  then have "last (udigits (nat (int j + 1))) \<in> set (udigits (nat (int j + 1)))" by (rule last_in_set)
  then have "printable (last (udigits (nat (int j + 1))))"
    using udigits_digit by (fastforce simp: printable_def)
  then show "printable (last (''upstream-'' @ itoa (int j + 1)))" by (simp add: itoa_def)
qed (simp_all add: printable_def)

lemma normalize_upstream_ok:
  "trim_space (uc_ID (normalize_upstream ju)) = uc_ID (normalize_upstream ju) \<and>
   uc_ID (normalize_upstream ju) \<noteq> '''' \<and> \<not> has_suffix (uc_URL (normalize_upstream ju)) ''/''"
  using trim_space_upstream_id [of "fst ju"] target_no_slash
  by (simp add: normalize_upstream_def Let_def)

lemma normalize_route_fields:
  "rc_ID (normalize_route r) = trim_space (rc_ID r)"
  "rc_Prefix (normalize_route r) = normalizePrefix (rc_Prefix r)"
  "rc_StripPrefix (normalize_route r) = normalizeStripPrefix (rc_StripPrefix r)"
  "rc_RateLimitRPS (normalize_route r) = rc_RateLimitRPS r"
  "0 < rc_RateLimitRPS r \<Longrightarrow> 0 < rc_RateLimitBurst (normalize_route r)"
  "rc_Upstreams (normalize_route r) = [] \<Longrightarrow> rc_Target (normalize_route r) = ''''"
  by (simp_all add: normalize_route_def Let_def split: if_splits)

lemma normalize_route_upstreams:
  "list_all (\<lambda>u. trim_space (uc_ID u) = uc_ID u \<and> uc_ID u \<noteq> '''' \<and> \<not> has_suffix (uc_URL u) ''/'')
    (rc_Upstreams (normalize_route r))"
proof -
  have d: "trim_space ''default'' = ''default''" by (rule trim_space_printable) (simp_all add: printable_def)
  show ?thesis
    using normalize_upstream_ok d target_no_slash by (simp add: normalize_route_def Let_def list_all_iff)
qed

lemma normalize_route_normal: "normal_route (normalize_route r)"
  unfolding normal_route_def
proof (intro conjI impI)
  show "trim_space (rc_ID (normalize_route r)) = rc_ID (normalize_route r)"
    by (simp only: normalize_route_fields trim_space_idem)
  show "has_prefix (rc_Prefix (normalize_route r)) ''/''" "has_suffix (rc_Prefix (normalize_route r)) ''/''"
    unfolding normalize_route_fields using normalizePrefix_ends by blast+
  show "rc_StripPrefix (normalize_route r) = '''' \<or> has_prefix (rc_StripPrefix (normalize_route r)) ''/''"
    "rc_StripPrefix (normalize_route r) = ''/'' \<or> \<not> has_suffix (rc_StripPrefix (normalize_route r)) ''/''"
    unfolding normalize_route_fields using normalizeStripPrefix_shape by blast+
  show "0 < rc_RateLimitBurst (normalize_route r)" if "0 < rc_RateLimitRPS (normalize_route r)"
    using that by (simp only: normalize_route_fields)
qed (simp_all only: normalize_route_upstreams normalize_route_fields(6))

lemma Load_Inr:
  assumes "Load read_file unmarshal lookup url_parse path = Inr cfg"
  obtains data cfg0 cfg1 where "read_file path = Inr data" and "unmarshal data = Inr cfg0"
    and "expandConfigEnv lookup cfg0 = Inr cfg1" and "cfg = normalize cfg1" and "valid_config url_parse cfg"
  using assms by (auto simp: Load_def Let_def validate_iff split: sum.splits option.splits)

lemma Load_valid:
  "Load read_file unmarshal lookup url_parse path = Inr cfg \<Longrightarrow>
    valid_config url_parse cfg \<and> list_all normal_route (cfg_Routes cfg)"
  by (erule Load_Inr) (simp add: normalize_def list_all_iff normalize_route_normal)

section \<open>Properties\<close>

text \<open>
  C24: \<^verbatim>\<open>validate\<close> decides the declarative predicate: it returns no error exactly for the
  configurations whose fields are all in range, whose durations parse and are ordered as they must
  be, whose URLs have a scheme and a host, whose strip prefixes are prefixes, and whose route ids,
  route prefixes and upstream ids (per route) are distinct; no check shadows another.
\<close>

theorem validate_exact: "validate url_parse cfg = None \<longleftrightarrow> valid_config url_parse cfg"
  by (rule validate_iff)

text \<open>
  C25: What \<^verbatim>\<open>Load\<close> returns can be built: the configuration is valid, and each route is in normal
  form: ids without surrounding space, prefixes that begin and end with a slash, strip prefixes
  that begin with one and do not end with one, upstream URLs without a final slash, every upstream
  named, and a burst wherever there is a rate.
\<close>

theorem Load_correct:
  assumes "Load read_file unmarshal lookup url_parse path = Inr cfg"
  shows "valid_config url_parse cfg \<and> list_all normal_route (cfg_Routes cfg)"
  using assms by (rule Load_valid)

definition demo_target :: url where
  "demo_target = \<lparr>url_Scheme = ''http'', url_Host = ''localhost:8081'', url_Path = '''',
     url_RawPath = '''', url_RawQuery = '''', url_Rest = ''''\<rparr>"

definition demo_raw_route :: routeConfig where
  "demo_raw_route =
     \<lparr>rc_ID = ''demo'', rc_Prefix = ''api'', rc_StripPrefix = ''/api/'', rc_Target = ''http://localhost:8081/'',
      rc_Upstreams = [], rc_RateLimitRPS = 5, rc_RateLimitBurst = 0, rc_MaxConcurrency = 2,
      rc_HealthCheck = \<lparr>hcc_Enabled = True, hcc_Path = '''', hcc_Interval = '''', hcc_Timeout = ''''\<rparr>,
      rc_PassiveHealth = \<lparr>phc_Enabled = True, phc_FailureThreshold = 0, phc_SuccessThreshold = 0,
        phc_UnhealthyDuration = ''''\<rparr>,
      rc_CircuitBreaker = \<lparr>cbc_Enabled = True, cbc_FailureThreshold = 2, cbc_OpenDuration = '''',
        cbc_HalfOpenMaxRequests = 2\<rparr>\<rparr>"

definition demo_raw :: config where
  "demo_raw =
     \<lparr>cfg_Server = \<lparr>sc_Addr = '''', sc_RequestTimeout = '''', sc_ShutdownTimeout = '''',
        sc_RateLimitRPS = 100, sc_RateLimitBurst = 0, sc_MaxConcurrency = 10\<rparr>,
      cfg_Admin = \<lparr>ac_Enabled = True, ac_Addr = '''', ac_Token = ''secret'', ac_MetricsRequireToken = True,
        ac_PprofEnabled = False\<rparr>,
      cfg_Routes = [demo_raw_route]\<rparr>"

definition demo_route :: routeConfig where
  "demo_route =
     \<lparr>rc_ID = ''demo'', rc_Prefix = ''/api/'', rc_StripPrefix = ''/api'', rc_Target = ''http://localhost:8081'',
      rc_Upstreams = [\<lparr>uc_ID = ''default'', uc_URL = ''http://localhost:8081''\<rparr>],
      rc_RateLimitRPS = 5, rc_RateLimitBurst = 5, rc_MaxConcurrency = 2,
      rc_HealthCheck = \<lparr>hcc_Enabled = True, hcc_Path = ''/health'', hcc_Interval = ''5s'', hcc_Timeout = ''1s''\<rparr>,
      rc_PassiveHealth = \<lparr>phc_Enabled = True, phc_FailureThreshold = 3, phc_SuccessThreshold = 1,
        phc_UnhealthyDuration = ''10s''\<rparr>,
      rc_CircuitBreaker = \<lparr>cbc_Enabled = True, cbc_FailureThreshold = 2, cbc_OpenDuration = ''10s'',
        cbc_HalfOpenMaxRequests = 2\<rparr>\<rparr>"

definition demo_config :: config where
  "demo_config =
     \<lparr>cfg_Server = \<lparr>sc_Addr = '':8080'', sc_RequestTimeout = ''3s'', sc_ShutdownTimeout = ''10s'',
        sc_RateLimitRPS = 100, sc_RateLimitBurst = 100, sc_MaxConcurrency = 10\<rparr>,
      cfg_Admin = \<lparr>ac_Enabled = True, ac_Addr = ''127.0.0.1:9001'', ac_Token = ''secret'',
        ac_MetricsRequireToken = True, ac_PprofEnabled = False\<rparr>,
      cfg_Routes = [demo_route]\<rparr>"

lemma default_durations:
  "ParseDuration ''1s'' = Inr second" "ParseDuration ''3s'' = Inr (3 * second)"
  "ParseDuration ''5s'' = Inr (5 * second)" "ParseDuration ''10s'' = Inr (10 * second)"
  by code_simp+

lemma demo_trims:
  "trim_space ''demo'' = ''demo''" "trim_space ''api'' = ''api''" "trim_space ''/api/'' = ''/api/''"
  "trim_space ''http://localhost:8081/'' = ''http://localhost:8081/''" "trim_space ''secret'' = ''secret''"
  by (rule trim_space_printable; simp add: printable_def)+

lemma demo_route_normalized: "normalize_route demo_raw_route = demo_route"
  by (simp add: normalize_route_def demo_raw_route_def demo_route_def demo_trims normalizePrefix_def
      normalizeStripPrefix_def normalizeTargetURL_def normalize_passive_def normalize_breaker_def
      normalize_health_def Let_def has_prefix_Cons1 has_suffix_snoc1 trim_right_def)

lemma demo_config_normalized: "normalize demo_raw = demo_config"
  by (simp add: normalize_def demo_raw_def demo_config_def demo_route_normalized normalize_server_def
      normalize_admin_def demo_trims Let_def defaultAddr_def defaultAdminAddr_def)

lemma demo_route_ok: "route_ok (\<lambda>_. Inr demo_target) demo_route"
  by (simp add: route_ok_def demo_route_def usable_def demo_target_def upstreams_ok_def rate_ok_def
      concurrency_ok_def health_ok_def passive_ok_def breaker_ok_def has_prefix_def duration_ok_def
      IntervalDuration_def TimeoutDuration_def UnhealthyDurationDuration_def OpenDurationDuration_def
      duration_field_def default_durations)

lemma demo_config_valid: "valid_config (\<lambda>_. Inr demo_target) demo_config"
  using demo_route_ok
  by (simp add: valid_config_def demo_config_def RequestTimeoutDuration_def ShutdownTimeoutDuration_def
      duration_field_def default_durations duration_ok_def rate_ok_def concurrency_ok_def admin_ok_def)

lemma demo_raw_expands: "expandConfigEnv lookup demo_raw = Inr demo_raw"
proof -
  have [simp]: "expand_field lookup f s = Inr s" if "plain s" for f s
    using expandEnvString_plain [OF that] by simp
  have "expand_route lookup (0, demo_raw_route) = Inr demo_raw_route"
    by (simp add: expand_route_def demo_raw_route_def Let_def)
  then show ?thesis by (simp add: expandConfigEnv_def demo_raw_def Let_def)
qed

lemma demo_loads:
  "Load (\<lambda>_. Inr ''{}'') (\<lambda>_. Inr demo_raw) lookup (\<lambda>_. Inr demo_target) path = Inr demo_config"
proof -
  have "validate (\<lambda>_. Inr demo_target) demo_config = None" using demo_config_valid validate_iff by blast
  then show ?thesis by (simp add: Load_def demo_raw_expands demo_config_normalized Let_def)
qed

theorem Load_correct_witness:
  "valid_config (\<lambda>_. Inr demo_target) demo_config \<and> list_all normal_route (cfg_Routes demo_config)"
  by (rule Load_correct [OF demo_loads])

text \<open>
  \<^verbatim>\<open>normalizePrefix\<close> gives a path that begins and ends with a slash, whatever it is given, and
  leaves such a path alone, so normalising twice is normalising once.
\<close>

theorem normalizePrefix_normal_form:
  "has_prefix (normalizePrefix p) ''/'' \<and> has_suffix (normalizePrefix p) ''/''
   \<and> normalizePrefix (normalizePrefix p) = normalizePrefix p"
  using normalizePrefix_ends normalizePrefix_fixed by blast

text \<open>
  The sign of the request timeout is not checked: a configuration is accepted or refused
  alike with a request timeout of one second and of minus one second (with which every request
  has missed its deadline before it is sent).
\<close>

theorem validate_ignores_timeout_sign:
  "validate url_parse (cfg\<lparr>cfg_Server := (cfg_Server cfg)\<lparr>sc_RequestTimeout := ''-1s''\<rparr>\<rparr>) =
   validate url_parse (cfg\<lparr>cfg_Server := (cfg_Server cfg)\<lparr>sc_RequestTimeout := ''1s''\<rparr>\<rparr>)"
proof -
  have "ParseDuration ''-1s'' = Inr (- second)" by code_simp
  then show ?thesis
    by (simp add: validate_def Let_def RequestTimeoutDuration_def ShutdownTimeoutDuration_def
        duration_field_def default_durations err_of_def validateAdmin_def)
qed

end
