(* ===== verification/Guard.thy ===== *)
theory Guard
  imports Prelude
begin

text \<open>
  The contract between an upstream and the things that guard it. Before a request is sent the
  upstream asks its guards whether they let it pass (\<^verbatim>\<open>available\<close>, \<^verbatim>\<open>allow\<close>); afterwards it reports
  the outcome (\<^verbatim>\<open>recordSuccess\<close>, \<^verbatim>\<open>recordFailure\<close>). The passive health state, the circuit breaker
  and the upstream itself all have these three operations.

  \<^item> \<open>guard\<close>: the invariant is kept by every operation, and a refusal leaves no trace.
  \<^item> \<open>tripping_guard\<close>: a guard that counts consecutive failures against a threshold, and
    refuses for a cooling time once the threshold is reached.
\<close>

datatype outcome_event = Ask go_time | Succeeded go_time | Failed go_time string

text \<open>A run of operations: the answers given and the last state.\<close>

fun guard_run ::
    "(go_time \<Rightarrow> 's \<Rightarrow> bool \<times> 's) \<Rightarrow> (go_time \<Rightarrow> 's \<Rightarrow> 's) \<Rightarrow> (go_time \<Rightarrow> string \<Rightarrow> 's \<Rightarrow> 's) \<Rightarrow>
     's \<Rightarrow> outcome_event list \<Rightarrow> bool list \<times> 's" where
  "guard_run ask succeed failed s [] = ([], s)"
| "guard_run ask succeed failed s (Ask t # es) =
     (let (b, s') = ask t s; (bs, s'') = guard_run ask succeed failed s' es in (b # bs, s''))"
| "guard_run ask succeed failed s (Succeeded t # es) = guard_run ask succeed failed (succeed t s) es"
| "guard_run ask succeed failed s (Failed t r # es) = guard_run ask succeed failed (failed t r s) es"

text \<open>A row of failures with nothing between them.\<close>

definition failures :: "(go_time \<Rightarrow> string \<Rightarrow> 's \<Rightarrow> 's) \<Rightarrow> (go_time \<times> string) list \<Rightarrow> 's \<Rightarrow> 's" where
  "failures failed fs s = fold (\<lambda>(t, r). failed t r) fs s"

lemma failures_simps [simp]:
  "failures failed [] s = s"
  "failures failed ((t, r) # fs) s = failures failed fs (failed t r s)"
  "failures failed (fs @ [(t, r)]) s = failed t r (failures failed fs s)"
  by (simp_all add: failures_def)

locale guard =
  fixes inv :: "'s \<Rightarrow> bool"
    and ask :: "go_time \<Rightarrow> 's \<Rightarrow> bool \<times> 's"
    and succeed :: "go_time \<Rightarrow> 's \<Rightarrow> 's"
    and failed :: "go_time \<Rightarrow> string \<Rightarrow> 's \<Rightarrow> 's"
  assumes inv_ask: "inv s \<Longrightarrow> inv (snd (ask t s))"
    and inv_succeed: "inv s \<Longrightarrow> inv (succeed t s)"
    and inv_failed: "inv s \<Longrightarrow> inv (failed t r s)"
    and refusal_frame: "inv s \<Longrightarrow> \<not> fst (ask t s) \<Longrightarrow> snd (ask t s) = s"
begin

lemmas inv_ops = inv_ask inv_succeed inv_failed

lemma run_inv: "inv s \<Longrightarrow> inv (snd (guard_run ask succeed failed s es))"
proof (induction es arbitrary: s)
  case Nil
  then show ?case by simp
next
  case (Cons e es)
  show ?case
  proof (cases e)
    case (Ask t)
    with Cons inv_ask [of s t] show ?thesis by (simp add: split_beta)
  qed (simp_all add: Cons inv_ops)
qed

lemma run_refused:
  "inv s \<Longrightarrow> \<forall>t \<in> set ts. \<not> fst (ask t s) \<Longrightarrow>
    guard_run ask succeed failed s (map Ask ts) = (map (\<lambda>_. False) ts, s)"
proof (induction ts)
  case Nil
  then show ?case by simp
next
  case (Cons t ts)
  then have "ask t s = (False, s)"
    using refusal_frame [of s t] by (cases "ask t s") auto
  with Cons show ?case by simp
qed

end

locale tripping_guard = guard +
  fixes up :: "'a \<Rightarrow> bool"
    and fcount :: "'a \<Rightarrow> int"
    and threshold :: "'a \<Rightarrow> int"
    and cooling :: "'a \<Rightarrow> duration"
  assumes up_ask: "inv s \<Longrightarrow> up s \<Longrightarrow> ask t s = (True, s)"
    and up_count: "inv s \<Longrightarrow> up s \<Longrightarrow> 0 \<le> fcount s \<and> fcount s < threshold s"
    and up_succeed: "inv s \<Longrightarrow> up s \<Longrightarrow> up (succeed t s) \<and> fcount (succeed t s) = 0"
    and fail_below: "inv s \<Longrightarrow> up s \<Longrightarrow> fcount s + 1 < threshold s \<Longrightarrow>
      up (failed t r s) \<and> fcount (failed t r s) = fcount s + 1"
    and fail_trips: "inv s \<Longrightarrow> up s \<Longrightarrow> fcount s + 1 = threshold s \<Longrightarrow>
      \<not> up (failed t r s) \<and> (\<forall>t' < t + cooling s. \<not> fst (ask t' (failed t r s)))"
    and same_limits: "threshold (failed t r s) = threshold s \<and> cooling (failed t r s) = cooling s"
begin

lemma failures_inv: "inv s \<Longrightarrow> inv (failures failed fs s)"
  by (induction fs arbitrary: s) (auto simp: failures_def inv_failed)

lemma failures_limits:
  "threshold (failures failed fs s) = threshold s \<and> cooling (failures failed fs s) = cooling s"
  by (induction fs arbitrary: s) (auto simp: failures_def same_limits)

lemma failures_below:
  "inv s \<Longrightarrow> up s \<Longrightarrow> fcount s + int (length fs) < threshold s \<Longrightarrow>
    up (failures failed fs s) \<and> fcount (failures failed fs s) = fcount s + int (length fs)"
proof (induction fs arbitrary: s)
  case Nil
  then show ?case by simp
next
  case (Cons f fs)
  obtain t r where f: "f = (t, r)" by (cases f)
  from Cons.prems have "up (failed t r s)" and "fcount (failed t r s) = fcount s + 1"
    using fail_below [of s t r] by simp_all
  with Cons.prems Cons.IH [of "failed t r s"] show ?case
    by (simp add: f inv_failed same_limits)
qed

text \<open>
  Exactly the failure that brings the count to the threshold trips the guard, and from then on
  it refuses every request until the cooling time after that failure has passed.
\<close>

lemma failures_trip:
  assumes "inv s" and "up s" and len: "fcount s + int (length fs) + 1 = threshold s"
  shows "\<not> up (failures failed (fs @ [(t, r)]) s)"
    and "t' < t + cooling s \<Longrightarrow>
      ask t' (failures failed (fs @ [(t, r)]) s) = (False, failures failed (fs @ [(t, r)]) s)"
proof -
  let ?m = "failures failed fs s" and ?s' = "failures failed (fs @ [(t, r)]) s"
  have "up ?m" and "fcount ?m + 1 = threshold ?m"
    using failures_below [of s fs] failures_limits [of fs s] assms by simp_all
  then have trip: "\<not> up ?s'" "\<forall>t' < t + cooling s. \<not> fst (ask t' ?s')"
    using fail_trips [of ?m t r] failures_inv [OF assms(1)] failures_limits [of fs s] by simp_all
  have inv': "inv ?s'" using assms(1) by (rule failures_inv)
  show "\<not> up ?s'" by (rule trip)
  show "ask t' ?s' = (False, ?s')" if "t' < t + cooling s"
    using that trip(2) refusal_frame [OF inv', of t']
    by (cases "ask t' ?s'") auto
qed

end

text \<open>
  A guard refines an abstract machine: the abstraction of the state commutes with the
  operations, and the answers are the same.
\<close>

locale guard_refinement = guard +
  fixes spec_ask :: "go_time \<Rightarrow> 'b \<Rightarrow> bool \<times> 'b"
    and spec_succeed :: "go_time \<Rightarrow> 'b \<Rightarrow> 'b"
    and spec_failed :: "go_time \<Rightarrow> string \<Rightarrow> 'b \<Rightarrow> 'b"
    and abs :: "'a \<Rightarrow> 'b"
  assumes sim_ask: "inv s \<Longrightarrow> spec_ask t (abs s) = (fst (ask t s), abs (snd (ask t s)))"
    and sim_succeed: "inv s \<Longrightarrow> spec_succeed t (abs s) = abs (succeed t s)"
    and sim_failed: "inv s \<Longrightarrow> spec_failed t r (abs s) = abs (failed t r s)"
begin

lemma run_refines:
  "inv s \<Longrightarrow> guard_run spec_ask spec_succeed spec_failed (abs s) es =
    (fst (guard_run ask succeed failed s es), abs (snd (guard_run ask succeed failed s es)))"
proof (induction es arbitrary: s)
  case Nil
  then show ?case by simp
next
  case (Cons e es)
  show ?case
  proof (cases e)
    case (Ask t)
    with Cons inv_ask [of s t] show ?thesis by (simp add: split_beta sim_ask)
  qed (simp_all add: Cons inv_ops sim_succeed sim_failed)
qed

end

text \<open>How many requests a run admitted, and how many outcomes of each kind it reported.\<close>

definition admitted :: "bool list \<Rightarrow> int" where
  "admitted bs = int (length (filter (\<lambda>b. b) bs))"

fun successes :: "outcome_event list \<Rightarrow> int" where
  "successes [] = 0"
| "successes (Succeeded t # es) = 1 + successes es"
| "successes (Ask t # es) = successes es"
| "successes (Failed t r # es) = successes es"

fun no_failure :: "outcome_event list \<Rightarrow> bool" where
  "no_failure [] = True"
| "no_failure (Failed t r # es) = False"
| "no_failure (Ask t # es) = no_failure es"
| "no_failure (Succeeded t # es) = no_failure es"

lemma admitted_simps [simp]:
  "admitted [] = 0" "admitted (b # bs) = (if b then 1 else 0) + admitted bs"
  by (simp_all add: admitted_def)

lemma successes_nonneg: "0 \<le> successes es"
  by (induction es rule: successes.induct) simp_all

end
