(* ===== verification/Circuit_Breaker.thy ===== *)
theory Circuit_Breaker
  imports Guard
begin

text \<open>
  \<^verbatim>\<open>internal/proxy/circuit_breaker.go\<close>: the three-state breaker of one upstream. Each method holds
  the mutex for its whole body, so a method is one step on the record; the log lines it writes
  are not part of the state. A nil breaker is \<open>None\<close>, as the nil checks of the methods have it.
\<close>

section \<open>State and operations\<close>

definition circuitBreakerStateClosed :: string where
  "circuitBreakerStateClosed = ''closed''"

definition circuitBreakerStateOpen :: string where
  "circuitBreakerStateOpen = ''open''"

definition circuitBreakerStateHalfOpen :: string where
  "circuitBreakerStateHalfOpen = ''half_open''"

lemmas cb_state_defs =
  circuitBreakerStateClosed_def circuitBreakerStateOpen_def circuitBreakerStateHalfOpen_def

lemma cb_states_distinct [simp]:
  "circuitBreakerStateClosed \<noteq> circuitBreakerStateOpen"
  "circuitBreakerStateClosed \<noteq> circuitBreakerStateHalfOpen"
  "circuitBreakerStateOpen \<noteq> circuitBreakerStateHalfOpen"
  "circuitBreakerStateOpen \<noteq> circuitBreakerStateClosed"
  "circuitBreakerStateHalfOpen \<noteq> circuitBreakerStateClosed"
  "circuitBreakerStateHalfOpen \<noteq> circuitBreakerStateOpen"
  by (simp_all add: cb_state_defs)

record circuitBreakerOptions =
  cbo_Enabled :: bool
  cbo_FailureThreshold :: go_int
  cbo_OpenDuration :: duration
  cbo_HalfOpenMaxRequests :: go_int

record circuitBreakerState =
  cb_routeID :: string
  cb_upstreamID :: string
  cb_failureThreshold :: go_int
  cb_openDuration :: duration
  cb_halfOpenMaxRequests :: go_int
  cb_state :: string
  cb_consecutiveFailures :: go_int
  cb_halfOpenInFlight :: go_int
  cb_halfOpenSuccesses :: go_int
  cb_nextAttemptAt :: go_time
  cb_lastFailureAt :: go_time
  cb_lastSuccessAt :: go_time
  cb_lastReason :: string

definition newCircuitBreakerState ::
    "string \<Rightarrow> string \<Rightarrow> circuitBreakerOptions \<Rightarrow> circuitBreakerState option" where
  "newCircuitBreakerState routeID upstreamID options =
     (if \<not> cbo_Enabled options then None
      else
        let threshold = (if cbo_FailureThreshold options \<le> 0 then 5 else cbo_FailureThreshold options);
            dur = (if cbo_OpenDuration options \<le> 0 then 10 * second else cbo_OpenDuration options);
            hmax = (if cbo_HalfOpenMaxRequests options \<le> 0 then 1 else cbo_HalfOpenMaxRequests options)
        in Some \<lparr>cb_routeID = routeID, cb_upstreamID = upstreamID, cb_failureThreshold = threshold,
             cb_openDuration = dur, cb_halfOpenMaxRequests = hmax,
             cb_state = circuitBreakerStateClosed, cb_consecutiveFailures = 0,
             cb_halfOpenInFlight = 0, cb_halfOpenSuccesses = 0, cb_nextAttemptAt = 0,
             cb_lastFailureAt = 0, cb_lastSuccessAt = 0, cb_lastReason = ''''\<rparr>)"

text \<open>The body of the half-open case, which the open case falls through to.\<close>

definition cb_allow_halfOpen :: "circuitBreakerState \<Rightarrow> bool \<times> circuitBreakerState" where
  "cb_allow_halfOpen c =
     (if cb_halfOpenInFlight c \<ge> cb_halfOpenMaxRequests c then (False, c)
      else (True, c\<lparr>cb_halfOpenInFlight := i64 (cb_halfOpenInFlight c + 1)\<rparr>))"

definition cb_allow :: "go_time \<Rightarrow> circuitBreakerState \<Rightarrow> bool \<times> circuitBreakerState" where
  "cb_allow now c =
     (if cb_state c = circuitBreakerStateClosed then (True, c)
      else if cb_state c = circuitBreakerStateOpen then
        (if now < cb_nextAttemptAt c then (False, c)
         else cb_allow_halfOpen
           (c\<lparr>cb_state := circuitBreakerStateHalfOpen,
              cb_halfOpenInFlight := 0,
              cb_halfOpenSuccesses := 0,
              cb_lastReason := ''enter half-open after open duration''\<rparr>))
      else if cb_state c = circuitBreakerStateHalfOpen then cb_allow_halfOpen c
      else (True, c\<lparr>cb_state := circuitBreakerStateClosed\<rparr>))"

definition cb_openLocked :: "go_time \<Rightarrow> string \<Rightarrow> circuitBreakerState \<Rightarrow> circuitBreakerState" where
  "cb_openLocked now reason c =
     c\<lparr>cb_state := circuitBreakerStateOpen,
       cb_nextAttemptAt := now + cb_openDuration c,
       cb_halfOpenInFlight := 0,
       cb_halfOpenSuccesses := 0,
       cb_lastReason := reason\<rparr>"

definition cb_closeLocked :: "string \<Rightarrow> circuitBreakerState \<Rightarrow> circuitBreakerState" where
  "cb_closeLocked reason c =
     c\<lparr>cb_state := circuitBreakerStateClosed,
       cb_consecutiveFailures := 0,
       cb_halfOpenInFlight := 0,
       cb_halfOpenSuccesses := 0,
       cb_nextAttemptAt := 0,
       cb_lastReason := reason\<rparr>"

text \<open>\<^verbatim>\<open>if c.halfOpenInFlight > 0 { c.halfOpenInFlight-- }\<close>, in both record methods.\<close>

definition cb_leave :: "circuitBreakerState \<Rightarrow> circuitBreakerState" where
  "cb_leave c =
     (if cb_halfOpenInFlight c > 0
      then c\<lparr>cb_halfOpenInFlight := i64 (cb_halfOpenInFlight c - 1)\<rparr> else c)"

definition cb_recordSuccess :: "go_time \<Rightarrow> circuitBreakerState \<Rightarrow> circuitBreakerState" where
  "cb_recordSuccess now c0 =
     (let c = c0\<lparr>cb_lastSuccessAt := now\<rparr>
      in if cb_state c = circuitBreakerStateClosed then c\<lparr>cb_consecutiveFailures := 0\<rparr>
         else if cb_state c = circuitBreakerStateHalfOpen then
           (let c1 = cb_leave c;
                c2 = c1\<lparr>cb_halfOpenSuccesses := i64 (cb_halfOpenSuccesses c1 + 1)\<rparr>
            in if cb_halfOpenSuccesses c2 \<ge> cb_halfOpenMaxRequests c2
               then cb_closeLocked ''recovered by half-open successes'' c2 else c2)
         else c)"

definition cb_recordFailure :: "go_time \<Rightarrow> string \<Rightarrow> circuitBreakerState \<Rightarrow> circuitBreakerState" where
  "cb_recordFailure now reason c0 =
     (let c = c0\<lparr>cb_lastFailureAt := now, cb_lastReason := reason\<rparr>
      in if cb_state c = circuitBreakerStateClosed then
           (let c1 = c\<lparr>cb_consecutiveFailures := i64 (cb_consecutiveFailures c + 1)\<rparr>
            in if cb_consecutiveFailures c1 \<ge> cb_failureThreshold c1
               then cb_openLocked now reason c1 else c1)
         else if cb_state c = circuitBreakerStateHalfOpen then
           cb_openLocked now reason (cb_leave c)
         else if cb_state c = circuitBreakerStateOpen then
           c\<lparr>cb_nextAttemptAt := now + cb_openDuration c\<rparr>
         else c)"

record circuitBreakerSnapshot =
  cbs_Enabled :: bool
  cbs_State :: string
  cbs_Available :: bool
  cbs_ConsecutiveFailures :: go_int
  cbs_FailureThreshold :: go_int
  cbs_OpenDuration :: duration
  cbs_HalfOpenMaxRequests :: go_int
  cbs_HalfOpenInFlight :: go_int
  cbs_HalfOpenSuccesses :: go_int
  cbs_NextAttemptAt :: "go_time option"
  cbs_LastFailureAt :: "go_time option"
  cbs_LastSuccessAt :: "go_time option"
  cbs_LastReason :: string

text \<open>
  A time is shown in the snapshot unless it is the zero time; the text it is shown as depends
  on the time zone of the process, so the snapshot of the model keeps the time itself.
\<close>

definition shown_time :: "go_time \<Rightarrow> go_time option" where
  "shown_time t = (if t = 0 then None else Some t)"

definition cb_snapshot :: "go_time \<Rightarrow> circuitBreakerState \<Rightarrow> circuitBreakerSnapshot" where
  "cb_snapshot now c =
     \<lparr>cbs_Enabled = True,
      cbs_State = cb_state c,
      cbs_Available =
        (if cb_state c = circuitBreakerStateOpen then \<not> now < cb_nextAttemptAt c
         else if cb_state c = circuitBreakerStateHalfOpen
           then cb_halfOpenInFlight c < cb_halfOpenMaxRequests c
         else True),
      cbs_ConsecutiveFailures = cb_consecutiveFailures c,
      cbs_FailureThreshold = cb_failureThreshold c,
      cbs_OpenDuration = cb_openDuration c,
      cbs_HalfOpenMaxRequests = cb_halfOpenMaxRequests c,
      cbs_HalfOpenInFlight = cb_halfOpenInFlight c,
      cbs_HalfOpenSuccesses = cb_halfOpenSuccesses c,
      cbs_NextAttemptAt = shown_time (cb_nextAttemptAt c),
      cbs_LastFailureAt = shown_time (cb_lastFailureAt c),
      cbs_LastSuccessAt = shown_time (cb_lastSuccessAt c),
      cbs_LastReason = cb_lastReason c\<rparr>"

section \<open>The invariant\<close>

text \<open>The limits are fixed at construction; the rest of the invariant is per state.\<close>

definition cb_limits_ok :: "circuitBreakerState \<Rightarrow> bool" where
  "cb_limits_ok c \<longleftrightarrow>
     0 < cb_failureThreshold c \<and> cb_failureThreshold c \<le> max_int64 \<and>
     0 < cb_halfOpenMaxRequests c \<and> cb_halfOpenMaxRequests c \<le> max_int64 \<and>
     0 < cb_openDuration c"

definition cb_closed_ok :: "circuitBreakerState \<Rightarrow> bool" where
  "cb_closed_ok c \<longleftrightarrow>
     cb_state c = circuitBreakerStateClosed \<and>
     0 \<le> cb_consecutiveFailures c \<and> cb_consecutiveFailures c < cb_failureThreshold c \<and>
     cb_halfOpenInFlight c = 0 \<and> cb_halfOpenSuccesses c = 0 \<and> cb_nextAttemptAt c = 0"

definition cb_open_ok :: "circuitBreakerState \<Rightarrow> bool" where
  "cb_open_ok c \<longleftrightarrow>
     cb_state c = circuitBreakerStateOpen \<and>
     cb_consecutiveFailures c = cb_failureThreshold c \<and>
     cb_halfOpenInFlight c = 0 \<and> cb_halfOpenSuccesses c = 0"

definition cb_halfOpen_ok :: "circuitBreakerState \<Rightarrow> bool" where
  "cb_halfOpen_ok c \<longleftrightarrow>
     cb_state c = circuitBreakerStateHalfOpen \<and>
     cb_consecutiveFailures c = cb_failureThreshold c \<and>
     0 \<le> cb_halfOpenInFlight c \<and> cb_halfOpenInFlight c \<le> cb_halfOpenMaxRequests c \<and>
     0 \<le> cb_halfOpenSuccesses c \<and> cb_halfOpenSuccesses c < cb_halfOpenMaxRequests c"

definition cb_inv :: "circuitBreakerState \<Rightarrow> bool" where
  "cb_inv c \<longleftrightarrow> cb_limits_ok c \<and> (cb_closed_ok c \<or> cb_open_ok c \<or> cb_halfOpen_ok c)"

lemma cb_inv_cases [consumes 1, case_names closed opened half]:
  assumes "cb_inv c"
  obtains "cb_limits_ok c" "cb_closed_ok c" | "cb_limits_ok c" "cb_open_ok c"
    | "cb_limits_ok c" "cb_halfOpen_ok c"
  using assms by (auto simp: cb_inv_def)

lemma cb_closedI: "cb_limits_ok c \<Longrightarrow> cb_closed_ok c \<Longrightarrow> cb_inv c"
  and cb_openI: "cb_limits_ok c \<Longrightarrow> cb_open_ok c \<Longrightarrow> cb_inv c"
  and cb_halfOpenI: "cb_limits_ok c \<Longrightarrow> cb_halfOpen_ok c \<Longrightarrow> cb_inv c"
  by (simp_all add: cb_inv_def)

lemmas cb_ok_defs = cb_limits_ok_def cb_closed_ok_def cb_open_ok_def cb_halfOpen_ok_def

lemma cb_new_fields:
  assumes "newCircuitBreakerState r u opts = Some c"
  shows "cb_failureThreshold c = (if cbo_FailureThreshold opts \<le> 0 then 5 else cbo_FailureThreshold opts)"
    and "cb_openDuration c = (if cbo_OpenDuration opts \<le> 0 then 10 * second else cbo_OpenDuration opts)"
    and "cb_halfOpenMaxRequests c =
      (if cbo_HalfOpenMaxRequests opts \<le> 0 then 1 else cbo_HalfOpenMaxRequests opts)"
    and "cb_state c = circuitBreakerStateClosed" and "cb_consecutiveFailures c = 0"
    and "cb_halfOpenInFlight c = 0" and "cb_halfOpenSuccesses c = 0" and "cb_nextAttemptAt c = 0"
  using assms unfolding newCircuitBreakerState_def Let_def by (cases "cbo_Enabled opts"; force)+

lemma cb_new_ok:
  assumes "is_int64 (cbo_FailureThreshold opts)" and "is_int64 (cbo_HalfOpenMaxRequests opts)"
    and new: "newCircuitBreakerState r u opts = Some c"
  shows "cb_limits_ok c" and "cb_closed_ok c"
  using assms(1,2) by (simp_all add: cb_ok_defs cb_new_fields [OF new] is_int64_def)

lemma cb_inv_new:
  assumes "is_int64 (cbo_FailureThreshold opts)" and "is_int64 (cbo_HalfOpenMaxRequests opts)"
    and "newCircuitBreakerState r u opts = Some c"
  shows "cb_inv c"
  using cb_new_ok [OF assms] by (rule cb_closedI)

section \<open>Each operation in each state\<close>

lemma cb_allow_closed: "cb_closed_ok c \<Longrightarrow> cb_allow now c = (True, c)"
  by (simp add: cb_closed_ok_def cb_allow_def)

lemma cb_allow_open:
  "cb_limits_ok c \<Longrightarrow> cb_open_ok c \<Longrightarrow>
    cb_allow now c =
      (if now < cb_nextAttemptAt c then (False, c)
       else (True, c\<lparr>cb_state := circuitBreakerStateHalfOpen, cb_halfOpenInFlight := 1,
         cb_halfOpenSuccesses := 0,
         cb_lastReason := ''enter half-open after open duration''\<rparr>))"
  by (simp add: cb_open_ok_def cb_limits_ok_def cb_allow_def cb_allow_halfOpen_def)

lemma cb_allow_half:
  "cb_limits_ok c \<Longrightarrow> cb_halfOpen_ok c \<Longrightarrow>
    cb_allow now c =
      (if cb_halfOpenInFlight c < cb_halfOpenMaxRequests c
       then (True, c\<lparr>cb_halfOpenInFlight := cb_halfOpenInFlight c + 1\<rparr>) else (False, c))"
  by (simp add: cb_halfOpen_ok_def cb_limits_ok_def cb_allow_def cb_allow_halfOpen_def)

lemma cb_recordSuccess_closed:
  "cb_closed_ok c \<Longrightarrow>
    cb_recordSuccess now c = c\<lparr>cb_lastSuccessAt := now, cb_consecutiveFailures := 0\<rparr>"
  by (simp add: cb_closed_ok_def cb_recordSuccess_def)

lemma cb_recordSuccess_open:
  "cb_open_ok c \<Longrightarrow> cb_recordSuccess now c = c\<lparr>cb_lastSuccessAt := now\<rparr>"
  by (simp add: cb_open_ok_def cb_recordSuccess_def)

lemma cb_leave_half:
  "cb_limits_ok c \<Longrightarrow> cb_halfOpen_ok c \<Longrightarrow>
    cb_leave c = c\<lparr>cb_halfOpenInFlight := max 0 (cb_halfOpenInFlight c - 1)\<rparr>"
  by (simp add: cb_limits_ok_def cb_halfOpen_ok_def cb_leave_def)

lemma cb_recordSuccess_half:
  assumes "cb_limits_ok c" and "cb_halfOpen_ok c"
  shows "cb_recordSuccess now c =
     (if cb_halfOpenSuccesses c + 1 < cb_halfOpenMaxRequests c
      then c\<lparr>cb_lastSuccessAt := now,
             cb_halfOpenInFlight := max 0 (cb_halfOpenInFlight c - 1),
             cb_halfOpenSuccesses := cb_halfOpenSuccesses c + 1\<rparr>
      else c\<lparr>cb_lastSuccessAt := now, cb_state := circuitBreakerStateClosed,
             cb_consecutiveFailures := 0, cb_halfOpenInFlight := 0, cb_halfOpenSuccesses := 0,
             cb_nextAttemptAt := 0, cb_lastReason := ''recovered by half-open successes''\<rparr>)"
proof -
  let ?c = "c\<lparr>cb_lastSuccessAt := now\<rparr>"
  have ok: "cb_limits_ok ?c" "cb_halfOpen_ok ?c" using assms by (simp_all add: cb_ok_defs)
  have st: "cb_state c = circuitBreakerStateHalfOpen" using assms by (simp add: cb_halfOpen_ok_def)
  have s: "i64 (cb_halfOpenSuccesses c + 1) = cb_halfOpenSuccesses c + 1"
    using assms by (simp add: cb_limits_ok_def cb_halfOpen_ok_def)
  show ?thesis
    unfolding cb_recordSuccess_def Let_def cb_leave_half [OF ok]
    by (simp add: st s cb_closeLocked_def)
qed

lemma cb_recordFailure_closed:
  assumes "cb_limits_ok c" and "cb_closed_ok c"
  shows "cb_recordFailure now reason c =
     (if cb_consecutiveFailures c + 1 < cb_failureThreshold c
      then c\<lparr>cb_lastFailureAt := now, cb_lastReason := reason,
             cb_consecutiveFailures := cb_consecutiveFailures c + 1\<rparr>
      else c\<lparr>cb_lastFailureAt := now, cb_lastReason := reason,
             cb_consecutiveFailures := cb_consecutiveFailures c + 1,
             cb_state := circuitBreakerStateOpen, cb_nextAttemptAt := now + cb_openDuration c,
             cb_halfOpenInFlight := 0, cb_halfOpenSuccesses := 0\<rparr>)"
proof -
  have "i64 (cb_consecutiveFailures c + 1) = cb_consecutiveFailures c + 1"
    using assms by (simp add: cb_limits_ok_def cb_closed_ok_def)
  with assms show ?thesis
    by (simp add: cb_closed_ok_def cb_recordFailure_def cb_openLocked_def)
qed

lemma cb_recordFailure_open:
  "cb_open_ok c \<Longrightarrow>
    cb_recordFailure now reason c =
      c\<lparr>cb_lastFailureAt := now, cb_lastReason := reason,
        cb_nextAttemptAt := now + cb_openDuration c\<rparr>"
  by (simp add: cb_open_ok_def cb_recordFailure_def)

lemma cb_recordFailure_half:
  "cb_halfOpen_ok c \<Longrightarrow>
    cb_recordFailure now reason c =
      c\<lparr>cb_lastFailureAt := now, cb_lastReason := reason,
        cb_state := circuitBreakerStateOpen, cb_nextAttemptAt := now + cb_openDuration c,
        cb_halfOpenInFlight := 0, cb_halfOpenSuccesses := 0\<rparr>"
  by (simp add: cb_halfOpen_ok_def cb_recordFailure_def cb_leave_def cb_openLocked_def Let_def)

lemmas cb_per_state =
  cb_allow_closed cb_allow_open cb_allow_half
  cb_recordSuccess_closed cb_recordSuccess_open cb_recordSuccess_half
  cb_recordFailure_closed cb_recordFailure_open cb_recordFailure_half

section \<open>The invariant is kept\<close>

lemma cb_inv_allow [step_inv]:
  assumes "cb_inv c"
  shows "cb_inv (snd (cb_allow now c))"
  using assms
proof (cases rule: cb_inv_cases)
  case closed
  with assms show ?thesis by (simp add: cb_allow_closed)
next
  case opened
  then have "cb_inv (c\<lparr>cb_state := circuitBreakerStateHalfOpen, cb_halfOpenInFlight := 1,
      cb_halfOpenSuccesses := 0, cb_lastReason := r\<rparr>)" for r
    by (intro cb_halfOpenI) (simp_all add: cb_ok_defs)
  with assms show ?thesis unfolding cb_allow_open [OF opened] by simp
next
  case half
  then have "cb_halfOpenInFlight c < cb_halfOpenMaxRequests c \<Longrightarrow>
      cb_inv (c\<lparr>cb_halfOpenInFlight := cb_halfOpenInFlight c + 1\<rparr>)"
    by (intro cb_halfOpenI) (simp_all add: cb_ok_defs)
  with assms show ?thesis unfolding cb_allow_half [OF half] by simp
qed

lemma cb_inv_recordSuccess [step_inv]:
  assumes "cb_inv c"
  shows "cb_inv (cb_recordSuccess now c)"
  using assms
proof (cases rule: cb_inv_cases)
  case closed
  then show ?thesis unfolding cb_recordSuccess_closed [OF closed(2)]
    by (intro cb_closedI) (simp_all add: cb_ok_defs)
next
  case opened
  then show ?thesis unfolding cb_recordSuccess_open [OF opened(2)]
    by (intro cb_openI) (simp_all add: cb_ok_defs)
next
  case half
  show ?thesis
  proof (cases "cb_halfOpenSuccesses c + 1 < cb_halfOpenMaxRequests c")
    case True
    with half show ?thesis unfolding cb_recordSuccess_half [OF half]
      by (simp, intro cb_halfOpenI) (simp_all add: cb_ok_defs)
  next
    case False
    with half show ?thesis unfolding cb_recordSuccess_half [OF half]
      by (simp, intro cb_closedI) (simp_all add: cb_ok_defs)
  qed
qed

lemma cb_inv_recordFailure [step_inv]:
  assumes "cb_inv c"
  shows "cb_inv (cb_recordFailure now reason c)"
  using assms
proof (cases rule: cb_inv_cases)
  case closed
  show ?thesis
  proof (cases "cb_consecutiveFailures c + 1 < cb_failureThreshold c")
    case True
    with closed show ?thesis unfolding cb_recordFailure_closed [OF closed]
      by (simp, intro cb_closedI) (simp_all add: cb_ok_defs)
  next
    case False
    with closed show ?thesis unfolding cb_recordFailure_closed [OF closed]
      by (simp, intro cb_openI) (simp_all add: cb_ok_defs)
  qed
next
  case opened
  then show ?thesis unfolding cb_recordFailure_open [OF opened(2)]
    by (intro cb_openI) (simp_all add: cb_ok_defs)
next
  case half
  then show ?thesis unfolding cb_recordFailure_half [OF half(2)]
    by (intro cb_openI) (simp_all add: cb_ok_defs)
qed

lemma cb_refusal_frame: "cb_inv c \<Longrightarrow> \<not> fst (cb_allow now c) \<Longrightarrow> snd (cb_allow now c) = c"
  by (erule cb_inv_cases) (simp_all add: cb_allow_closed cb_allow_open cb_allow_half split: if_splits)

lemma cb_limits_allow [frame]:
  "cb_failureThreshold (snd (cb_allow now c)) = cb_failureThreshold c"
  "cb_openDuration (snd (cb_allow now c)) = cb_openDuration c"
  "cb_halfOpenMaxRequests (snd (cb_allow now c)) = cb_halfOpenMaxRequests c"
  by (simp_all add: cb_allow_def cb_allow_halfOpen_def)

lemma cb_limits_recordFailure [frame]:
  "cb_failureThreshold (cb_recordFailure now reason c) = cb_failureThreshold c"
  "cb_openDuration (cb_recordFailure now reason c) = cb_openDuration c"
  "cb_halfOpenMaxRequests (cb_recordFailure now reason c) = cb_halfOpenMaxRequests c"
  by (simp_all add: cb_recordFailure_def cb_openLocked_def cb_leave_def Let_def)

lemma cb_limits_recordSuccess [frame]:
  "cb_failureThreshold (cb_recordSuccess now c) = cb_failureThreshold c"
  "cb_openDuration (cb_recordSuccess now c) = cb_openDuration c"
  "cb_halfOpenMaxRequests (cb_recordSuccess now c) = cb_halfOpenMaxRequests c"
  by (simp_all add: cb_recordSuccess_def cb_closeLocked_def cb_leave_def Let_def)

section \<open>The breaker is a tripping guard\<close>

definition cb_up :: "circuitBreakerState \<Rightarrow> bool" where
  "cb_up c \<longleftrightarrow> cb_state c = circuitBreakerStateClosed"

lemma cb_up_cases: "cb_inv c \<Longrightarrow> cb_up c \<Longrightarrow> cb_limits_ok c \<and> cb_closed_ok c"
  by (erule cb_inv_cases) (simp_all add: cb_up_def cb_ok_defs)

lemma cb_trip:
  assumes "cb_inv c" and "cb_up c" and "cb_consecutiveFailures c + 1 = cb_failureThreshold c"
  shows "\<not> cb_up (cb_recordFailure t r c) \<and>
    (\<forall>t' < t + cb_openDuration c. \<not> fst (cb_allow t' (cb_recordFailure t r c)))"
proof -
  have "cb_limits_ok c" "cb_closed_ok c" using cb_up_cases assms(1,2) by blast+
  then have st: "cb_state (cb_recordFailure t r c) = circuitBreakerStateOpen"
      "cb_nextAttemptAt (cb_recordFailure t r c) = t + cb_openDuration c"
    using assms(3) by (simp_all add: cb_recordFailure_closed)
  then show ?thesis by (simp add: cb_up_def cb_allow_def)
qed

interpretation cb: tripping_guard cb_inv cb_allow cb_recordSuccess cb_recordFailure
  cb_up cb_consecutiveFailures cb_failureThreshold cb_openDuration
proof unfold_locales
  fix s t r assume s: "cb_inv s" "cb_up s"
  then have ok: "cb_limits_ok s" "cb_closed_ok s" using cb_up_cases by blast+
  show "cb_allow t s = (True, s)" using ok by (simp add: cb_allow_closed)
  show "0 \<le> cb_consecutiveFailures s \<and> cb_consecutiveFailures s < cb_failureThreshold s"
    using ok by (simp add: cb_closed_ok_def)
  show "cb_up (cb_recordSuccess t s) \<and> cb_consecutiveFailures (cb_recordSuccess t s) = 0"
    using s ok by (simp add: cb_recordSuccess_closed cb_up_def)
  show "cb_up (cb_recordFailure t r s) \<and>
      cb_consecutiveFailures (cb_recordFailure t r s) = cb_consecutiveFailures s + 1"
    if "cb_consecutiveFailures s + 1 < cb_failureThreshold s"
    using that s ok by (simp add: cb_recordFailure_closed cb_up_def)
  show "\<not> cb_up (cb_recordFailure t r s) \<and>
      (\<forall>t' < t + cb_openDuration s. \<not> fst (cb_allow t' (cb_recordFailure t r s)))"
    if "cb_consecutiveFailures s + 1 = cb_failureThreshold s"
    using that s by (intro cb_trip)
qed (simp_all add: step_inv frame cb_refusal_frame)

section \<open>The abstract three-state machine\<close>

text \<open>
  What \<^verbatim>\<open>docs/design.md\<close> draws: CLOSED with a count of failures, OPEN until a time, HALF_OPEN with
  the probes in flight and the probes that succeeded. The identifiers, the reasons and the times
  of the last outcomes of the record play no part in it.
\<close>

datatype cb_phase = PhClosed int | PhOpen go_time | PhHalfOpen int int

fun phase_ask :: "int \<Rightarrow> go_time \<Rightarrow> cb_phase \<Rightarrow> bool \<times> cb_phase" where
  "phase_ask hmax now (PhClosed n) = (True, PhClosed n)"
| "phase_ask hmax now (PhOpen next) =
     (if now < next then (False, PhOpen next) else (True, PhHalfOpen 1 0))"
| "phase_ask hmax now (PhHalfOpen inflight ok) =
     (if inflight < hmax then (True, PhHalfOpen (inflight + 1) ok)
      else (False, PhHalfOpen inflight ok))"

fun phase_succeed :: "int \<Rightarrow> go_time \<Rightarrow> cb_phase \<Rightarrow> cb_phase" where
  "phase_succeed hmax now (PhClosed n) = PhClosed 0"
| "phase_succeed hmax now (PhOpen next) = PhOpen next"
| "phase_succeed hmax now (PhHalfOpen inflight ok) =
     (if ok + 1 < hmax then PhHalfOpen (max 0 (inflight - 1)) (ok + 1) else PhClosed 0)"

fun phase_failed :: "int \<Rightarrow> duration \<Rightarrow> go_time \<Rightarrow> string \<Rightarrow> cb_phase \<Rightarrow> cb_phase" where
  "phase_failed thr dur now r (PhClosed n) =
     (if n + 1 < thr then PhClosed (n + 1) else PhOpen (now + dur))"
| "phase_failed thr dur now r (PhOpen next) = PhOpen (now + dur)"
| "phase_failed thr dur now r (PhHalfOpen inflight ok) = PhOpen (now + dur)"

definition cb_phase_of :: "circuitBreakerState \<Rightarrow> cb_phase" where
  "cb_phase_of c =
     (if cb_state c = circuitBreakerStateClosed then PhClosed (cb_consecutiveFailures c)
      else if cb_state c = circuitBreakerStateOpen then PhOpen (cb_nextAttemptAt c)
      else PhHalfOpen (cb_halfOpenInFlight c) (cb_halfOpenSuccesses c))"

lemma cb_phase_ask:
  assumes "cb_inv c"
  shows "phase_ask (cb_halfOpenMaxRequests c) t (cb_phase_of c) =
    (fst (cb_allow t c), cb_phase_of (snd (cb_allow t c)))"
  using assms
proof (cases rule: cb_inv_cases)
  case closed
  then show ?thesis by (simp add: cb_allow_closed cb_phase_of_def cb_closed_ok_def)
next
  case opened
  then show ?thesis unfolding cb_allow_open [OF opened] by (simp add: cb_phase_of_def cb_open_ok_def)
next
  case half
  then show ?thesis unfolding cb_allow_half [OF half] by (simp add: cb_phase_of_def cb_halfOpen_ok_def)
qed

lemma cb_phase_succeed:
  assumes "cb_inv c"
  shows "phase_succeed (cb_halfOpenMaxRequests c) t (cb_phase_of c) = cb_phase_of (cb_recordSuccess t c)"
  using assms
proof (cases rule: cb_inv_cases)
  case closed
  then show ?thesis by (simp add: cb_recordSuccess_closed cb_phase_of_def cb_closed_ok_def)
next
  case opened
  then show ?thesis by (simp add: cb_recordSuccess_open cb_phase_of_def cb_open_ok_def)
next
  case half
  then show ?thesis unfolding cb_recordSuccess_half [OF half]
    by (simp add: cb_phase_of_def cb_halfOpen_ok_def)
qed

lemma cb_phase_failed:
  assumes "cb_inv c"
  shows "phase_failed (cb_failureThreshold c) (cb_openDuration c) t r (cb_phase_of c) =
    cb_phase_of (cb_recordFailure t r c)"
  using assms
proof (cases rule: cb_inv_cases)
  case closed
  then show ?thesis unfolding cb_recordFailure_closed [OF closed]
    by (simp add: cb_phase_of_def cb_closed_ok_def)
next
  case opened
  then show ?thesis by (simp add: cb_recordFailure_open cb_phase_of_def cb_open_ok_def)
next
  case half
  then show ?thesis by (simp add: cb_recordFailure_half cb_phase_of_def cb_halfOpen_ok_def)
qed

interpretation cbr: guard_refinement
  "\<lambda>c. cb_inv c \<and> cb_failureThreshold c = thr \<and> cb_openDuration c = dur \<and> cb_halfOpenMaxRequests c = hmax"
  cb_allow cb_recordSuccess cb_recordFailure
  "phase_ask hmax" "phase_succeed hmax" "phase_failed thr dur" cb_phase_of
  for thr dur hmax
proof unfold_locales
  fix s t r
  assume "cb_inv s \<and> cb_failureThreshold s = thr \<and> cb_openDuration s = dur \<and> cb_halfOpenMaxRequests s = hmax"
  then show "phase_ask hmax t (cb_phase_of s) = (fst (cb_allow t s), cb_phase_of (snd (cb_allow t s)))"
    and "phase_succeed hmax t (cb_phase_of s) = cb_phase_of (cb_recordSuccess t s)"
    and "phase_failed thr dur t r (cb_phase_of s) = cb_phase_of (cb_recordFailure t r s)"
    using cb_phase_ask [of s t] cb_phase_succeed [of s t] cb_phase_failed [of s t r] by simp_all
qed (auto simp: step_inv frame cb_refusal_frame)

section \<open>Properties\<close>

lemma cb_phase_states:
  assumes "cb_inv c"
  shows "cb_state c \<in> {circuitBreakerStateClosed, circuitBreakerStateOpen, circuitBreakerStateHalfOpen}"
    and "0 \<le> cb_halfOpenInFlight c \<and> cb_halfOpenInFlight c \<le> cb_halfOpenMaxRequests c"
    and "cb_state c = circuitBreakerStateClosed \<Longrightarrow> cb_consecutiveFailures c < cb_failureThreshold c"
  using assms by (cases rule: cb_inv_cases; simp add: cb_ok_defs)+

abbreviation cb_run ::
    "circuitBreakerState \<Rightarrow> outcome_event list \<Rightarrow> bool list \<times> circuitBreakerState" where
  "cb_run \<equiv> guard_run cb_allow cb_recordSuccess cb_recordFailure"

text \<open>The configuration of \<^verbatim>\<open>configs/gateway.json\<close>, and the breaker it makes.\<close>

definition demo_cb_options :: circuitBreakerOptions where
  "demo_cb_options = \<lparr>cbo_Enabled = True, cbo_FailureThreshold = 2,
     cbo_OpenDuration = 10 * second, cbo_HalfOpenMaxRequests = 2\<rparr>"

definition demo_cb :: circuitBreakerState where
  "demo_cb = the (newCircuitBreakerState ''demo'' ''backend-1'' demo_cb_options)"

lemma demo_cb_new: "newCircuitBreakerState ''demo'' ''backend-1'' demo_cb_options = Some demo_cb"
  by (simp add: demo_cb_def newCircuitBreakerState_def demo_cb_options_def)

lemma demo_cb_ok:
  "cb_limits_ok demo_cb" "cb_closed_ok demo_cb" "cb_failureThreshold demo_cb = 2"
  "cb_openDuration demo_cb = 10 * second" "cb_halfOpenMaxRequests demo_cb = 2"
  "cb_consecutiveFailures demo_cb = 0"
  by (simp_all add: cb_ok_defs cb_new_fields [OF demo_cb_new] demo_cb_options_def)

text \<open>
  A breaker built by \<^verbatim>\<open>newCircuitBreakerState\<close> is, after any sequence of \<^verbatim>\<open>allow\<close>,
  \<^verbatim>\<open>recordSuccess\<close> and \<^verbatim>\<open>recordFailure\<close> calls at any times, in one of its three states (the
  \<^verbatim>\<open>default\<close> branch of \<^verbatim>\<open>allow\<close> is dead), never counts more probes in flight than
  \<^verbatim>\<open>halfOpenMaxRequests\<close> nor fewer than zero, and while closed has counted fewer consecutive
  failures than its threshold.
\<close>

theorem cb_reachable_states:
  assumes "is_int64 (cbo_FailureThreshold opts)" and "is_int64 (cbo_HalfOpenMaxRequests opts)"
    and "newCircuitBreakerState r u opts = Some c"
  shows "cb_state (snd (cb_run c es)) \<in>
      {circuitBreakerStateClosed, circuitBreakerStateOpen, circuitBreakerStateHalfOpen}
    \<and> 0 \<le> cb_halfOpenInFlight (snd (cb_run c es))
    \<and> cb_halfOpenInFlight (snd (cb_run c es)) \<le> cb_halfOpenMaxRequests (snd (cb_run c es))
    \<and> (cb_state (snd (cb_run c es)) = circuitBreakerStateClosed \<longrightarrow>
        cb_consecutiveFailures (snd (cb_run c es)) < cb_failureThreshold (snd (cb_run c es)))"
  using cb_phase_states [OF cb.run_inv [OF cb_inv_new [OF assms]]] by blast

theorem cb_reachable_states_witness:
  "cb_halfOpenInFlight (snd (cb_run demo_cb [Ask 5, Failed 6 ''x'', Failed 7 ''y'', Ask 20000000007]))
    \<le> cb_halfOpenMaxRequests (snd (cb_run demo_cb [Ask 5, Failed 6 ''x'', Failed 7 ''y'', Ask 20000000007]))"
proof -
  have "is_int64 (cbo_FailureThreshold demo_cb_options)"
    and "is_int64 (cbo_HalfOpenMaxRequests demo_cb_options)"
    by (simp_all add: demo_cb_options_def is_int64_def)
  from cb_reachable_states [OF this demo_cb_new] show ?thesis by blast
qed

text \<open>
  C32: A closed breaker trips at exactly its threshold: with fewer consecutive failures it still
  lets every request pass, and from the failure that reaches the threshold on it refuses every
  request, without changing, until \<^verbatim>\<open>openDuration\<close> after that failure.
\<close>

theorem cb_trips_at_threshold:
  assumes "cb_limits_ok c" and "cb_closed_ok c"
  shows "(cb_consecutiveFailures c + int (length fs) < cb_failureThreshold c \<longrightarrow>
      fst (cb_allow t' (failures cb_recordFailure fs c)))
    \<and> (cb_consecutiveFailures c + int (length fs) + 1 = cb_failureThreshold c \<longrightarrow>
      t' < t + cb_openDuration c \<longrightarrow>
      cb_allow t' (failures cb_recordFailure (fs @ [(t, r)]) c) =
        (False, failures cb_recordFailure (fs @ [(t, r)]) c))"
proof (intro conjI impI)
  have c: "cb_inv c" "cb_up c"
    using assms by (simp_all add: cb_closedI cb_up_def cb_closed_ok_def)
  show "fst (cb_allow t' (failures cb_recordFailure fs c))"
    if "cb_consecutiveFailures c + int (length fs) < cb_failureThreshold c"
    using cb.failures_below [OF c that] by (simp add: cb_allow_def cb_up_def)
  show "cb_allow t' (failures cb_recordFailure (fs @ [(t, r)]) c) =
      (False, failures cb_recordFailure (fs @ [(t, r)]) c)"
    if "cb_consecutiveFailures c + int (length fs) + 1 = cb_failureThreshold c"
      and "t' < t + cb_openDuration c"
    using cb.failures_trip(2) [OF c that] .
qed

theorem cb_trips_at_threshold_witness:
  "fst (cb_allow 3 (failures cb_recordFailure [(1, ''a'')] demo_cb))
   \<and> \<not> fst (cb_allow 9 (failures cb_recordFailure [(1, ''a''), (2, ''b'')] demo_cb))"
  using cb_trips_at_threshold [OF demo_cb_ok(1,2), of "[(1, ''a'')]" 3]
    cb_trips_at_threshold [OF demo_cb_ok(1,2), of "[(1, ''a'')]" 9 2 "''b''"]
  by (simp add: demo_cb_ok)

text \<open>
  \<^verbatim>\<open>snapshot\<close> and \<^verbatim>\<open>allow\<close> agree: in every state a breaker can be in, the \<^verbatim>\<open>Available\<close> field of
  a snapshot taken at a time says whether \<^verbatim>\<open>allow\<close> at that time would let a request pass.
\<close>

theorem cb_snapshot_available:
  assumes "cb_inv c"
  shows "cbs_Available (cb_snapshot now c) \<longleftrightarrow> fst (cb_allow now c)"
  using assms
proof (cases rule: cb_inv_cases)
  case closed
  then show ?thesis by (simp add: cb_snapshot_def cb_allow_closed, simp add: cb_closed_ok_def)
next
  case opened
  then show ?thesis unfolding cb_allow_open [OF opened] by (simp add: cb_snapshot_def cb_open_ok_def)
next
  case half
  then show ?thesis unfolding cb_allow_half [OF half] by (simp add: cb_snapshot_def cb_halfOpen_ok_def)
qed

theorem cb_snapshot_available_witness:
  "cbs_Available (cb_snapshot 7 demo_cb) \<longleftrightarrow> fst (cb_allow 7 demo_cb)"
  by (rule cb_snapshot_available) (rule cb_closedI [OF demo_cb_ok(1,2)])

text \<open>
  The half-open phase admits a bounded number of probes: as long as no failure is reported and
  too few successes to close, every admission is matched by a slot.
\<close>

lemma cb_halfOpen_run:
  "cb_limits_ok c \<Longrightarrow> cb_halfOpen_ok c \<Longrightarrow> no_failure es \<Longrightarrow>
   cb_halfOpenSuccesses c + successes es < cb_halfOpenMaxRequests c \<Longrightarrow>
   cb_halfOpen_ok (snd (cb_run c es)) \<and>
   admitted (fst (cb_run c es)) \<le>
     cb_halfOpenMaxRequests c - cb_halfOpenInFlight c + successes es"
proof (induction es arbitrary: c)
  case Nil
  then show ?case by (simp add: cb_halfOpen_ok_def)
next
  case (Cons e es)
  show ?case
  proof (cases e)
    case (Ask t)
    let ?c' = "c\<lparr>cb_halfOpenInFlight := cb_halfOpenInFlight c + 1\<rparr>"
    show ?thesis
    proof (cases "cb_halfOpenInFlight c < cb_halfOpenMaxRequests c")
      case True
      then have "cb_limits_ok ?c'" "cb_halfOpen_ok ?c'" using Cons.prems by (simp_all add: cb_ok_defs)
      with Cons.IH [of ?c'] Cons.prems True Ask show ?thesis
        by (simp add: cb_allow_half split_beta)
    next
      case False
      with Cons Ask show ?thesis by (simp add: cb_allow_half split_beta)
    qed
  next
    case (Succeeded t)
    let ?c' = "c\<lparr>cb_lastSuccessAt := t, cb_halfOpenInFlight := max 0 (cb_halfOpenInFlight c - 1),
      cb_halfOpenSuccesses := cb_halfOpenSuccesses c + 1\<rparr>"
    have "cb_recordSuccess t c = ?c'"
      using Cons.prems Succeeded successes_nonneg [of es] by (simp add: cb_recordSuccess_half)
    moreover have "cb_limits_ok ?c'" "cb_halfOpen_ok ?c'"
      using Cons.prems Succeeded successes_nonneg [of es] by (simp_all add: cb_ok_defs)
    ultimately have "cb_halfOpen_ok (snd (cb_run c (e # es))) \<and>
        admitted (fst (cb_run c (e # es))) \<le>
          cb_halfOpenMaxRequests c - max 0 (cb_halfOpenInFlight c - 1) + successes es"
      using Cons.IH [of ?c'] Cons.prems Succeeded by simp
    moreover have "cb_halfOpenInFlight c - 1 \<le> max 0 (cb_halfOpenInFlight c - 1)" by simp
    ultimately show ?thesis unfolding Succeeded successes.simps by linarith
  next
    case (Failed t r)
    with Cons.prems show ?thesis by simp
  qed
qed

text \<open>
  From the moment an open breaker lets the first probe pass, and until a failure is reported
  or enough successes close it, it lets fewer than \<^verbatim>\<open>2 * halfOpenMaxRequests\<close> requests pass in
  all, and at most \<^verbatim>\<open>halfOpenMaxRequests\<close> more than have succeeded.
\<close>

theorem cb_halfOpen_admissions:
  assumes "cb_limits_ok c" and "cb_open_ok c" and "cb_nextAttemptAt c \<le> t"
    and "no_failure es" and "successes es < cb_halfOpenMaxRequests c"
  shows "admitted (fst (cb_run c (Ask t # es))) \<le> cb_halfOpenMaxRequests c + successes es
    \<and> admitted (fst (cb_run c (Ask t # es))) < 2 * cb_halfOpenMaxRequests c"
proof -
  let ?c' = "c\<lparr>cb_state := circuitBreakerStateHalfOpen, cb_halfOpenInFlight := 1,
    cb_halfOpenSuccesses := 0, cb_lastReason := ''enter half-open after open duration''\<rparr>"
  have "cb_allow t c = (True, ?c')" using assms(1-3) by (simp add: cb_allow_open)
  moreover have "cb_limits_ok ?c'" "cb_halfOpen_ok ?c'"
    using assms(1,2) by (simp_all add: cb_ok_defs)
  ultimately show ?thesis
    using cb_halfOpen_run [of ?c' es] assms(4,5) by (simp add: split_beta)
qed

theorem cb_halfOpen_admissions_witness:
  "admitted (fst (cb_run (failures cb_recordFailure [(1, ''a''), (2, ''b'')] demo_cb)
     [Ask 10000000002, Ask 10000000003, Succeeded 10000000004, Ask 10000000005, Ask 10000000006])) < 4"
proof -
  let ?c = "failures cb_recordFailure [(1, ''a''), (2, ''b'')] demo_cb"
  have "cb_limits_ok ?c" "cb_open_ok ?c" "cb_nextAttemptAt ?c = 10000000002"
    "cb_halfOpenMaxRequests ?c = 2"
    by (simp_all add: demo_cb_def newCircuitBreakerState_def demo_cb_options_def
        cb_recordFailure_def cb_openLocked_def cb_ok_defs Let_def)
  from cb_halfOpen_admissions [OF this(1,2), of 10000000002
      "[Ask 10000000003, Succeeded 10000000004, Ask 10000000005, Ask 10000000006]"]
  show ?thesis using \<open>cb_nextAttemptAt ?c = _\<close> \<open>cb_halfOpenMaxRequests ?c = 2\<close> by simp
qed

text \<open>Probes one after the other, each of which succeeds.\<close>

definition probes :: "nat \<Rightarrow> go_time \<Rightarrow> outcome_event list" where
  "probes n t = concat (replicate n [Ask t, Succeeded t])"

lemma probes_0 [simp]: "probes 0 t = []"
  by (simp add: probes_def)

lemma probes_Suc: "probes (Suc n) t = Ask t # Succeeded t # probes n t"
  by (simp add: probes_def)

lemma cb_probes:
  "cb_limits_ok c \<Longrightarrow> cb_halfOpen_ok c \<Longrightarrow> cb_halfOpenInFlight c = 0 \<Longrightarrow>
   cb_halfOpenSuccesses c + int (Suc n) = cb_halfOpenMaxRequests c \<Longrightarrow>
   fst (cb_run c (probes (Suc n) t)) = replicate (Suc n) True \<and>
   cb_closed_ok (snd (cb_run c (probes (Suc n) t))) \<and>
   cb_consecutiveFailures (snd (cb_run c (probes (Suc n) t))) = 0"
proof (induction n arbitrary: c)
  case 0
  let ?c1 = "c\<lparr>cb_halfOpenInFlight := 1\<rparr>"
  have "cb_allow t c = (True, ?c1)" using "0.prems" by (simp add: cb_allow_half cb_limits_ok_def)
  moreover have "cb_limits_ok ?c1" "cb_halfOpen_ok ?c1" using "0.prems" by (simp_all add: cb_ok_defs)
  ultimately show ?case
    using "0.prems" by (simp add: probes_Suc cb_recordSuccess_half, simp add: cb_ok_defs)
next
  case (Suc n)
  let ?c1 = "c\<lparr>cb_halfOpenInFlight := 1\<rparr>"
  let ?c2 = "c\<lparr>cb_lastSuccessAt := t, cb_halfOpenInFlight := 0,
    cb_halfOpenSuccesses := cb_halfOpenSuccesses c + 1\<rparr>"
  have 1: "cb_allow t c = (True, ?c1)" using Suc.prems by (simp add: cb_allow_half cb_limits_ok_def)
  have "cb_limits_ok ?c1" "cb_halfOpen_ok ?c1" using Suc.prems by (simp_all add: cb_ok_defs)
  then have 2: "cb_recordSuccess t ?c1 = ?c2" using Suc.prems by (simp add: cb_recordSuccess_half)
  have "cb_limits_ok ?c2" "cb_halfOpen_ok ?c2" using Suc.prems by (simp_all add: cb_ok_defs)
  from Suc.IH [OF this] Suc.prems show ?case by (simp add: probes_Suc [of "Suc n"] 1 2 split_beta)
qed

text \<open>
  C33: Recovery: once the open time has passed, \<^verbatim>\<open>halfOpenMaxRequests\<close> probes that each succeed are
  all let through, and the last of them closes the breaker with its failure count back at zero.
\<close>

theorem cb_recovers:
  assumes "cb_limits_ok c" and "cb_open_ok c" and "cb_nextAttemptAt c \<le> t"
    and "int n = cb_halfOpenMaxRequests c"
  shows "fst (cb_run c (probes n t)) = replicate n True
    \<and> cb_state (snd (cb_run c (probes n t))) = circuitBreakerStateClosed
    \<and> cb_consecutiveFailures (snd (cb_run c (probes n t))) = 0"
proof -
  let ?h = "c\<lparr>cb_state := circuitBreakerStateHalfOpen, cb_halfOpenInFlight := 0,
    cb_halfOpenSuccesses := 0, cb_lastReason := ''enter half-open after open duration''\<rparr>"
  obtain m where n: "n = Suc m"
    using assms(1,4) by (cases n) (auto simp: cb_limits_ok_def)
  have h: "cb_limits_ok ?h" "cb_halfOpen_ok ?h" using assms(1,2) by (simp_all add: cb_ok_defs)
  have "cb_allow t c = cb_allow t ?h"
    using assms(1-3) h by (simp add: cb_allow_open cb_allow_half, simp add: cb_limits_ok_def)
  then have "cb_run c (probes n t) =
      cb_run ?h (probes n t)"
    by (simp add: n probes_Suc)
  with cb_probes [OF h, of m t] show ?thesis using assms(4) n by (simp add: cb_closed_ok_def)
qed

theorem cb_recovers_witness:
  "cb_state (snd (cb_run (failures cb_recordFailure [(1, ''a''), (2, ''b'')] demo_cb)
     (probes 2 10000000002))) = circuitBreakerStateClosed"
proof -
  let ?c = "failures cb_recordFailure [(1, ''a''), (2, ''b'')] demo_cb"
  have "cb_limits_ok ?c" "cb_open_ok ?c" "cb_nextAttemptAt ?c = 10000000002"
    "cb_halfOpenMaxRequests ?c = 2"
    by (simp_all add: demo_cb_def newCircuitBreakerState_def demo_cb_options_def
        cb_recordFailure_def cb_openLocked_def cb_ok_defs Let_def)
  then show ?thesis using cb_recovers [of ?c 10000000002 2] by simp
qed

text \<open>
  C8: The breaker refines the three-state machine of the design document: whatever sequence of
  calls is made, the requests it lets pass are those the abstract machine lets pass, and its
  state abstracts to the state of that machine.
\<close>

theorem cb_refines_three_states:
  assumes "cb_inv c"
  shows "guard_run (phase_ask (cb_halfOpenMaxRequests c)) (phase_succeed (cb_halfOpenMaxRequests c))
      (phase_failed (cb_failureThreshold c) (cb_openDuration c)) (cb_phase_of c) es =
    (fst (cb_run c es), cb_phase_of (snd (cb_run c es)))"
  using cbr.run_refines [of c "cb_failureThreshold c" "cb_openDuration c" "cb_halfOpenMaxRequests c" es] assms
  by simp

theorem cb_refines_three_states_witness:
  "guard_run (phase_ask 2) (phase_succeed 2) (phase_failed 2 (10 * second)) (PhClosed 0)
      [Ask 1, Failed 2 ''x'', Failed 3 ''y''] =
    (fst (cb_run demo_cb [Ask 1, Failed 2 ''x'', Failed 3 ''y'']),
     cb_phase_of (snd (cb_run demo_cb [Ask 1, Failed 2 ''x'', Failed 3 ''y''])))"
proof -
  have "cb_phase_of demo_cb = PhClosed 0"
    using demo_cb_ok by (simp add: cb_phase_of_def cb_closed_ok_def)
  with cb_refines_three_states [OF cb_closedI [OF demo_cb_ok(1,2)]] demo_cb_ok show ?thesis by metis
qed

text \<open>
  Outcomes are attributed to the phase they arrive in, not to the phase their request was
  admitted in: a request let through while the breaker was closed, whose success is reported
  during the half-open phase, closes the breaker although the one probe that was let through
  since is still in flight.
\<close>

theorem cb_stale_success_closes:
  "cb_limits_ok c \<Longrightarrow> cb_halfOpen_ok c \<Longrightarrow> cb_halfOpenMaxRequests c = 1 \<Longrightarrow>
    cb_halfOpenInFlight c = 1 \<Longrightarrow>
    cb_state (cb_recordSuccess t c) = circuitBreakerStateClosed
    \<and> (\<forall>n. fst (cb_allow t (cb_recordSuccess n c)))"
  by (simp add: cb_recordSuccess_half cb_halfOpen_ok_def cb_allow_def)

theorem cb_stale_success_closes_witness:
  "cb_state (cb_recordSuccess 9 (demo_cb\<lparr>cb_state := circuitBreakerStateHalfOpen,
     cb_consecutiveFailures := 2, cb_halfOpenMaxRequests := 1, cb_halfOpenInFlight := 1\<rparr>)) =
   circuitBreakerStateClosed"
proof -
  let ?c = "demo_cb\<lparr>cb_state := circuitBreakerStateHalfOpen,
     cb_consecutiveFailures := 2, cb_halfOpenMaxRequests := 1, cb_halfOpenInFlight := 1\<rparr>"
  have "cb_limits_ok ?c" "cb_halfOpen_ok ?c" using demo_cb_ok by (simp_all add: cb_ok_defs)
  from cb_stale_success_closes [OF this] show ?thesis by simp
qed

end
