(* ===== verification/Passive_Health.thy ===== *)
theory Passive_Health
  imports Guard
begin

text \<open>
  \<^verbatim>\<open>internal/proxy/passive_health.go\<close>: the health of an upstream as the outcomes of real requests
  show it. Every method holds the lock for its whole body, so a method is one step on the
  record; a nil state (passive health disabled) is \<open>None\<close>.
\<close>

section \<open>State and operations\<close>

record passiveHealthOptions =
  pho_Enabled :: bool
  pho_FailureThreshold :: go_int
  pho_SuccessThreshold :: go_int
  pho_UnhealthyDuration :: duration

record passiveHealthState =
  ph_routeID :: string
  ph_upstreamID :: string
  ph_failureThreshold :: go_int
  ph_successThreshold :: go_int
  ph_unhealthyDuration :: duration
  ph_unhealthy :: bool
  ph_consecutiveFailures :: go_int
  ph_consecutiveSuccesses :: go_int
  ph_retryAfter :: go_time
  ph_lastFailureAt :: go_time
  ph_lastSuccessAt :: go_time
  ph_lastReason :: string

definition newPassiveHealthState ::
    "string \<Rightarrow> string \<Rightarrow> passiveHealthOptions \<Rightarrow> passiveHealthState option" where
  "newPassiveHealthState routeID upstreamID options =
     (if \<not> pho_Enabled options then None
      else
        let fthr = (if pho_FailureThreshold options \<le> 0 then 3 else pho_FailureThreshold options);
            sthr = (if pho_SuccessThreshold options \<le> 0 then 1 else pho_SuccessThreshold options);
            dur = (if pho_UnhealthyDuration options \<le> 0 then 10 * second else pho_UnhealthyDuration options)
        in Some \<lparr>ph_routeID = routeID, ph_upstreamID = upstreamID, ph_failureThreshold = fthr,
             ph_successThreshold = sthr, ph_unhealthyDuration = dur,
             ph_unhealthy = False, ph_consecutiveFailures = 0, ph_consecutiveSuccesses = 0,
             ph_retryAfter = 0, ph_lastFailureAt = 0, ph_lastSuccessAt = 0, ph_lastReason = ''''\<rparr>)"

definition ph_available :: "go_time \<Rightarrow> passiveHealthState \<Rightarrow> bool" where
  "ph_available now s = (if \<not> ph_unhealthy s then True else \<not> now < ph_retryAfter s)"

definition ph_recordSuccess :: "go_time \<Rightarrow> passiveHealthState \<Rightarrow> passiveHealthState" where
  "ph_recordSuccess now s0 =
     (let s = s0\<lparr>ph_lastSuccessAt := now, ph_consecutiveFailures := 0\<rparr>
      in if \<not> ph_unhealthy s then s\<lparr>ph_consecutiveSuccesses := 0\<rparr>
         else
           let s1 = s\<lparr>ph_consecutiveSuccesses := i64 (ph_consecutiveSuccesses s + 1)\<rparr>
           in if ph_consecutiveSuccesses s1 \<ge> ph_successThreshold s1
              then s1\<lparr>ph_unhealthy := False, ph_retryAfter := 0,
                     ph_lastReason := ''recovered by passive health success'',
                     ph_consecutiveSuccesses := 0\<rparr>
              else s1)"

definition ph_recordFailure :: "go_time \<Rightarrow> string \<Rightarrow> passiveHealthState \<Rightarrow> passiveHealthState" where
  "ph_recordFailure now reason s0 =
     (let s = s0\<lparr>ph_lastFailureAt := now, ph_lastReason := reason,
                ph_consecutiveFailures := i64 (ph_consecutiveFailures s0 + 1),
                ph_consecutiveSuccesses := 0\<rparr>
      in if ph_consecutiveFailures s \<ge> ph_failureThreshold s
         then s\<lparr>ph_unhealthy := True, ph_retryAfter := now + ph_unhealthyDuration s\<rparr>
         else s)"

record passiveHealthSnapshot =
  phs_Enabled :: bool
  phs_Healthy :: bool
  phs_Available :: bool
  phs_ConsecutiveFailures :: go_int
  phs_ConsecutiveSuccesses :: go_int
  phs_FailureThreshold :: go_int
  phs_SuccessThreshold :: go_int
  phs_UnhealthyDuration :: duration
  phs_RetryAfter :: "go_time option"
  phs_LastFailureAt :: "go_time option"
  phs_LastSuccessAt :: "go_time option"
  phs_LastReason :: string

text \<open>
  \<^verbatim>\<open>formatTime\<close> shows a time unless it is the zero time; the text depends on the time zone of the
  process, so the snapshot of the model keeps the time itself.
\<close>

definition formatTime :: "go_time \<Rightarrow> go_time option" where
  "formatTime t = (if t = 0 then None else Some t)"

definition ph_snapshot :: "go_time \<Rightarrow> passiveHealthState \<Rightarrow> passiveHealthSnapshot" where
  "ph_snapshot now s =
     \<lparr>phs_Enabled = True,
      phs_Healthy = (\<not> ph_unhealthy s),
      phs_Available = (\<not> ph_unhealthy s \<or> \<not> now < ph_retryAfter s),
      phs_ConsecutiveFailures = ph_consecutiveFailures s,
      phs_ConsecutiveSuccesses = ph_consecutiveSuccesses s,
      phs_FailureThreshold = ph_failureThreshold s,
      phs_SuccessThreshold = ph_successThreshold s,
      phs_UnhealthyDuration = ph_unhealthyDuration s,
      phs_RetryAfter = formatTime (ph_retryAfter s),
      phs_LastFailureAt = formatTime (ph_lastFailureAt s),
      phs_LastSuccessAt = formatTime (ph_lastSuccessAt s),
      phs_LastReason = ph_lastReason s\<rparr>"

section \<open>The invariant\<close>

text \<open>
  A healthy upstream has seen fewer failures in a row than its threshold, has no retry time and
  counts no successes; an unhealthy one has counted fewer successes than it needs to recover.
  The failure count of an unhealthy upstream is not bounded: it may wrap.
\<close>

definition ph_inv :: "passiveHealthState \<Rightarrow> bool" where
  "ph_inv s \<longleftrightarrow>
     0 < ph_failureThreshold s \<and> ph_failureThreshold s \<le> max_int64 \<and>
     0 < ph_successThreshold s \<and> ph_successThreshold s \<le> max_int64 \<and>
     0 < ph_unhealthyDuration s \<and>
     (if ph_unhealthy s
      then 0 \<le> ph_consecutiveSuccesses s \<and> ph_consecutiveSuccesses s < ph_successThreshold s
      else 0 \<le> ph_consecutiveFailures s \<and> ph_consecutiveFailures s < ph_failureThreshold s \<and>
        ph_consecutiveSuccesses s = 0 \<and> ph_retryAfter s = 0)"

lemma ph_new_fields:
  assumes "newPassiveHealthState r u opts = Some s"
  shows "ph_failureThreshold s = (if pho_FailureThreshold opts \<le> 0 then 3 else pho_FailureThreshold opts)"
    and "ph_successThreshold s = (if pho_SuccessThreshold opts \<le> 0 then 1 else pho_SuccessThreshold opts)"
    and "ph_unhealthyDuration s =
      (if pho_UnhealthyDuration opts \<le> 0 then 10 * second else pho_UnhealthyDuration opts)"
    and "\<not> ph_unhealthy s" and "ph_consecutiveFailures s = 0"
    and "ph_consecutiveSuccesses s = 0" and "ph_retryAfter s = 0"
  using assms unfolding newPassiveHealthState_def Let_def by (cases "pho_Enabled opts"; force)+

lemma ph_inv_new:
  assumes "is_int64 (pho_FailureThreshold opts)" and "is_int64 (pho_SuccessThreshold opts)"
    and new: "newPassiveHealthState r u opts = Some s"
  shows "ph_inv s"
  using assms(1,2) by (simp add: ph_inv_def ph_new_fields [OF new] is_int64_def)

section \<open>Each operation, healthy and unhealthy\<close>

lemma ph_recordSuccess_healthy:
  "\<not> ph_unhealthy s \<Longrightarrow> ph_recordSuccess now s =
     s\<lparr>ph_lastSuccessAt := now, ph_consecutiveFailures := 0, ph_consecutiveSuccesses := 0\<rparr>"
  by (simp add: ph_recordSuccess_def)

lemma ph_recordSuccess_unhealthy:
  assumes "ph_inv s" and "ph_unhealthy s"
  shows "ph_recordSuccess now s =
     (if ph_consecutiveSuccesses s + 1 < ph_successThreshold s
      then s\<lparr>ph_lastSuccessAt := now, ph_consecutiveFailures := 0,
             ph_consecutiveSuccesses := ph_consecutiveSuccesses s + 1\<rparr>
      else s\<lparr>ph_lastSuccessAt := now, ph_consecutiveFailures := 0, ph_unhealthy := False,
             ph_retryAfter := 0, ph_lastReason := ''recovered by passive health success'',
             ph_consecutiveSuccesses := 0\<rparr>)"
proof -
  have "i64 (ph_consecutiveSuccesses s + 1) = ph_consecutiveSuccesses s + 1"
    using assms by (simp add: ph_inv_def)
  with assms(2) show ?thesis by (simp add: ph_recordSuccess_def)
qed

lemma ph_recordFailure_healthy:
  assumes "ph_inv s" and "\<not> ph_unhealthy s"
  shows "ph_recordFailure now reason s =
     (if ph_consecutiveFailures s + 1 < ph_failureThreshold s
      then s\<lparr>ph_lastFailureAt := now, ph_lastReason := reason,
             ph_consecutiveFailures := ph_consecutiveFailures s + 1, ph_consecutiveSuccesses := 0\<rparr>
      else s\<lparr>ph_lastFailureAt := now, ph_lastReason := reason,
             ph_consecutiveFailures := ph_consecutiveFailures s + 1, ph_consecutiveSuccesses := 0,
             ph_unhealthy := True, ph_retryAfter := now + ph_unhealthyDuration s\<rparr>)"
proof -
  have "i64 (ph_consecutiveFailures s + 1) = ph_consecutiveFailures s + 1"
    using assms by (simp add: ph_inv_def)
  then show ?thesis by (simp add: ph_recordFailure_def Let_def)
qed

lemma ph_recordFailure_unhealthy:
  "ph_unhealthy s \<Longrightarrow> ph_unhealthy (ph_recordFailure now reason s) \<and>
    ph_consecutiveSuccesses (ph_recordFailure now reason s) = 0"
  by (simp add: ph_recordFailure_def Let_def)

lemma ph_limits_recordFailure [frame]:
  "ph_failureThreshold (ph_recordFailure now reason s) = ph_failureThreshold s"
  "ph_successThreshold (ph_recordFailure now reason s) = ph_successThreshold s"
  "ph_unhealthyDuration (ph_recordFailure now reason s) = ph_unhealthyDuration s"
  by (simp_all add: ph_recordFailure_def Let_def)

lemma ph_limits_recordSuccess [frame]:
  "ph_failureThreshold (ph_recordSuccess now s) = ph_failureThreshold s"
  "ph_successThreshold (ph_recordSuccess now s) = ph_successThreshold s"
  "ph_unhealthyDuration (ph_recordSuccess now s) = ph_unhealthyDuration s"
  by (simp_all add: ph_recordSuccess_def Let_def)

lemma ph_inv_recordSuccess [step_inv]:
  assumes "ph_inv s"
  shows "ph_inv (ph_recordSuccess now s)"
proof (cases "ph_unhealthy s")
  case True
  with assms show ?thesis unfolding ph_recordSuccess_unhealthy [OF assms True]
    by (simp add: ph_inv_def)
next
  case False
  with assms show ?thesis by (simp add: ph_recordSuccess_healthy ph_inv_def)
qed

lemma ph_inv_recordFailure [step_inv]:
  assumes "ph_inv s"
  shows "ph_inv (ph_recordFailure now reason s)"
proof (cases "ph_unhealthy s")
  case True
  then have "ph_unhealthy (ph_recordFailure now reason s)"
    and "ph_consecutiveSuccesses (ph_recordFailure now reason s) = 0"
    using ph_recordFailure_unhealthy [of s now reason] by blast+
  with assms show ?thesis by (simp add: ph_inv_def ph_limits_recordFailure)
next
  case False
  with assms show ?thesis unfolding ph_recordFailure_healthy [OF assms False]
    by (simp add: ph_inv_def)
qed

section \<open>Passive health is a tripping guard\<close>

definition ph_up :: "passiveHealthState \<Rightarrow> bool" where
  "ph_up s \<longleftrightarrow> \<not> ph_unhealthy s"

text \<open>\<^verbatim>\<open>available\<close> only reads: asking does not change the state.\<close>

definition ph_ask :: "go_time \<Rightarrow> passiveHealthState \<Rightarrow> bool \<times> passiveHealthState" where
  "ph_ask now s = (ph_available now s, s)"

interpretation ph: tripping_guard ph_inv ph_ask ph_recordSuccess ph_recordFailure
  ph_up ph_consecutiveFailures ph_failureThreshold ph_unhealthyDuration
proof unfold_locales
  fix s t r assume s: "ph_inv s" "ph_up s"
  then have up: "\<not> ph_unhealthy s" by (simp add: ph_up_def)
  show "ph_ask t s = (True, s)" using up by (simp add: ph_ask_def ph_available_def)
  show "0 \<le> ph_consecutiveFailures s \<and> ph_consecutiveFailures s < ph_failureThreshold s"
    using s(1) up by (simp add: ph_inv_def)
  show "ph_up (ph_recordSuccess t s) \<and> ph_consecutiveFailures (ph_recordSuccess t s) = 0"
    using up by (simp add: ph_recordSuccess_healthy ph_up_def)
  show "ph_up (ph_recordFailure t r s) \<and>
      ph_consecutiveFailures (ph_recordFailure t r s) = ph_consecutiveFailures s + 1"
    if "ph_consecutiveFailures s + 1 < ph_failureThreshold s"
    using that up unfolding ph_recordFailure_healthy [OF s(1) up] by (simp add: ph_up_def)
  show "\<not> ph_up (ph_recordFailure t r s) \<and>
      (\<forall>t' < t + ph_unhealthyDuration s. \<not> fst (ph_ask t' (ph_recordFailure t r s)))"
    if "ph_consecutiveFailures s + 1 = ph_failureThreshold s"
    using that unfolding ph_recordFailure_healthy [OF s(1) up]
    by (simp add: ph_up_def ph_ask_def ph_available_def)
qed (simp_all add: step_inv frame ph_ask_def)

text \<open>A row of successes.\<close>

definition ph_successes :: "go_time list \<Rightarrow> passiveHealthState \<Rightarrow> passiveHealthState" where
  "ph_successes ts s = fold ph_recordSuccess ts s"

lemma ph_successes_unhealthy:
  "ph_inv s \<Longrightarrow> ph_unhealthy s \<Longrightarrow>
   ph_consecutiveSuccesses s + int (length ts) < ph_successThreshold s \<Longrightarrow>
   ph_unhealthy (ph_successes ts s) \<and> ph_inv (ph_successes ts s) \<and>
   ph_successThreshold (ph_successes ts s) = ph_successThreshold s \<and>
   ph_retryAfter (ph_successes ts s) = ph_retryAfter s \<and>
   ph_consecutiveSuccesses (ph_successes ts s) = ph_consecutiveSuccesses s + int (length ts)"
proof (induction ts arbitrary: s)
  case Nil
  then show ?case by (simp add: ph_successes_def)
next
  case (Cons t ts)
  let ?s' = "s\<lparr>ph_lastSuccessAt := t, ph_consecutiveFailures := 0,
    ph_consecutiveSuccesses := ph_consecutiveSuccesses s + 1\<rparr>"
  from Cons.prems have eq: "ph_recordSuccess t s = ?s'"
    by (simp add: ph_recordSuccess_unhealthy)
  have "ph_inv ?s'" using ph_inv_recordSuccess [OF Cons.prems(1), of t] unfolding eq .
  with Cons.IH [of ?s'] Cons.prems eq show ?case
    by (simp add: ph_successes_def)
qed

section \<open>Properties\<close>

definition demo_ph_options :: passiveHealthOptions where
  "demo_ph_options = \<lparr>pho_Enabled = True, pho_FailureThreshold = 2, pho_SuccessThreshold = 2,
     pho_UnhealthyDuration = 10 * second\<rparr>"

definition demo_ph :: passiveHealthState where
  "demo_ph = the (newPassiveHealthState ''demo'' ''backend-1'' demo_ph_options)"

lemma demo_ph_new: "newPassiveHealthState ''demo'' ''backend-1'' demo_ph_options = Some demo_ph"
  by (simp add: demo_ph_def newPassiveHealthState_def demo_ph_options_def)

lemma demo_ph_ok:
  "ph_inv demo_ph" "\<not> ph_unhealthy demo_ph" "ph_failureThreshold demo_ph = 2"
  "ph_successThreshold demo_ph = 2" "ph_unhealthyDuration demo_ph = 10 * second"
  "ph_consecutiveFailures demo_ph = 0"
  by (simp_all add: ph_inv_def ph_new_fields [OF demo_ph_new] demo_ph_options_def)

text \<open>
  C36: A healthy upstream is marked unhealthy at exactly \<^verbatim>\<open>failureThreshold\<close> failures in a row:
  before that it stays available, and from then on it is unavailable until \<^verbatim>\<open>unhealthyDuration\<close>
  after the last of them, when it is available again although still marked unhealthy.
\<close>

theorem ph_trips_at_threshold:
  assumes "ph_inv s" and "\<not> ph_unhealthy s"
  shows "(ph_consecutiveFailures s + int (length fs) < ph_failureThreshold s \<longrightarrow>
      ph_available t' (failures ph_recordFailure fs s))
    \<and> (ph_consecutiveFailures s + int (length fs) + 1 = ph_failureThreshold s \<longrightarrow>
      ph_unhealthy (failures ph_recordFailure (fs @ [(t, r)]) s) \<and>
      (ph_available t' (failures ph_recordFailure (fs @ [(t, r)]) s) \<longleftrightarrow>
        t + ph_unhealthyDuration s \<le> t'))"
proof (intro conjI impI)
  have s: "ph_inv s" "ph_up s" using assms by (simp_all add: ph_up_def)
  show "ph_available t' (failures ph_recordFailure fs s)"
    if "ph_consecutiveFailures s + int (length fs) < ph_failureThreshold s"
    using ph.failures_below [OF s that] by (simp add: ph_available_def ph_up_def)
  assume len: "ph_consecutiveFailures s + int (length fs) + 1 = ph_failureThreshold s"
  let ?m = "failures ph_recordFailure fs s"
  have "\<not> ph_unhealthy ?m" "ph_consecutiveFailures ?m + 1 = ph_failureThreshold ?m"
    using ph.failures_below [OF s, of fs] ph.failures_limits [of fs s] len by (simp_all add: ph_up_def)
  then have "ph_recordFailure t r ?m = ?m\<lparr>ph_lastFailureAt := t, ph_lastReason := r,
      ph_consecutiveFailures := ph_consecutiveFailures ?m + 1, ph_consecutiveSuccesses := 0,
      ph_unhealthy := True, ph_retryAfter := t + ph_unhealthyDuration s\<rparr>"
    using ph_recordFailure_healthy [OF ph.failures_inv [OF s(1)], of fs t r]
      ph.failures_limits [of fs s] by simp
  then show "ph_unhealthy (failures ph_recordFailure (fs @ [(t, r)]) s)"
    and "ph_available t' (failures ph_recordFailure (fs @ [(t, r)]) s) \<longleftrightarrow>
      t + ph_unhealthyDuration s \<le> t'"
    by (simp_all add: ph_available_def not_less)
qed

theorem ph_trips_at_threshold_witness:
  "ph_available 3 (failures ph_recordFailure [(1, ''a'')] demo_ph)
   \<and> \<not> ph_available 9 (failures ph_recordFailure [(1, ''a''), (2, ''b'')] demo_ph)"
  using ph_trips_at_threshold [OF demo_ph_ok(1,2), of "[(1, ''a'')]" 3]
    ph_trips_at_threshold [OF demo_ph_ok(1,2), of "[(1, ''a'')]" 9 2 "''b''"]
  by (simp add: demo_ph_ok)

text \<open>
  C37: An unhealthy upstream that has not yet counted a success recovers at exactly
  \<^verbatim>\<open>successThreshold\<close> successes in a row: with fewer it keeps its mark and its retry time, with
  that many it is healthy, available at every time, and its failure count starts from zero.
\<close>

theorem ph_recovers_at_threshold:
  assumes "ph_inv s" and "ph_unhealthy s" and "ph_consecutiveSuccesses s = 0"
  shows "(int (length ts) < ph_successThreshold s \<longrightarrow>
      ph_unhealthy (ph_successes ts s) \<and> ph_retryAfter (ph_successes ts s) = ph_retryAfter s)
    \<and> (int (length ts) + 1 = ph_successThreshold s \<longrightarrow>
      \<not> ph_unhealthy (ph_successes (ts @ [t]) s) \<and>
      ph_consecutiveFailures (ph_successes (ts @ [t]) s) = 0 \<and>
      ph_available now (ph_successes (ts @ [t]) s))"
proof (intro conjI impI)
  assume "int (length ts) < ph_successThreshold s"
  with ph_successes_unhealthy [OF assms(1,2), of ts] assms(3)
  show "ph_unhealthy (ph_successes ts s)" and "ph_retryAfter (ph_successes ts s) = ph_retryAfter s"
    by simp_all
next
  assume "int (length ts) + 1 = ph_successThreshold s"
  with ph_successes_unhealthy [OF assms(1,2), of ts] assms(3)
  have m: "ph_inv (ph_successes ts s)" "ph_unhealthy (ph_successes ts s)"
    and n: "ph_consecutiveSuccesses (ph_successes ts s) + 1 = ph_successThreshold (ph_successes ts s)"
    by simp_all
  have "ph_successes (ts @ [t]) s = ph_recordSuccess t (ph_successes ts s)"
    by (simp add: ph_successes_def)
  with ph_recordSuccess_unhealthy [OF m, of t] n
  show "\<not> ph_unhealthy (ph_successes (ts @ [t]) s)"
    and "ph_consecutiveFailures (ph_successes (ts @ [t]) s) = 0"
    and "ph_available now (ph_successes (ts @ [t]) s)"
    by (simp_all add: ph_available_def)
qed

theorem ph_recovers_at_threshold_witness:
  "\<not> ph_unhealthy (ph_successes [5, 6] (failures ph_recordFailure [(1, ''a''), (2, ''b'')] demo_ph))"
proof -
  let ?s = "failures ph_recordFailure [(1, ''a''), (2, ''b'')] demo_ph"
  have "ph_inv ?s" "ph_unhealthy ?s" "ph_consecutiveSuccesses ?s = 0" "ph_successThreshold ?s = 2"
    by (simp_all add: demo_ph_def newPassiveHealthState_def demo_ph_options_def ph_recordFailure_def
        ph_inv_def Let_def)
  with ph_recovers_at_threshold [OF this(1-3), of "[5]" 6] show ?thesis by simp
qed

end
