(* ===== verification/Health_Checker.thy ===== *)
theory Health_Checker
  imports Http
begin

text \<open>
  \<^verbatim>\<open>internal/health/checker.go\<close>: the active health check of one upstream. A goroutine probes the
  backend, once at the start and then on every tick, and stores what it found; requests read
  what was stored.

  What a probe meets (the request cannot be made, the call fails, a status comes back) is an
  input of the model. \<^verbatim>\<open>url.Parse\<close> and \<^verbatim>\<open>URL.String\<close> are parameters.
\<close>

section \<open>State and operations\<close>

record checkerOptions =
  hco_Name :: string
  hco_Target :: string
  hco_Path :: string
  hco_Interval :: duration
  hco_Timeout :: duration

record checker =
  hc_name :: string
  hc_target :: url
  hc_path :: string
  hc_interval :: duration
  hc_timeout :: duration
  hc_checked :: bool
  hc_healthy :: bool
  hc_lastCheckAt :: go_time
  hc_lastReason :: string
  hc_done :: bool
  hc_started :: bool

datatype checker_error =
    CheckerNameRequired
  | CheckerTargetUnparsable string string
  | CheckerTargetIncomplete string
  | CheckerIntervalNotPositive
  | CheckerTimeoutNotPositive

text \<open>\<^verbatim>\<open>if path == "" { path = "/health" }; if !HasPrefix(path, "/") { path = "/" + path }\<close>\<close>

definition checker_path :: "string \<Rightarrow> string" where
  "checker_path p0 =
     (let p = (if p0 = '''' then ''/health'' else p0)
      in if \<not> has_prefix p ''/'' then ''/'' @ p else p)"

definition newChecker :: "url_parser \<Rightarrow> checkerOptions \<Rightarrow> checker_error + checker" where
  "newChecker url_parse options =
     (if hco_Name options = '''' then Inl CheckerNameRequired
      else case url_parse (hco_Target options) of
        Inl e \<Rightarrow> Inl (CheckerTargetUnparsable (hco_Target options) e)
      | Inr targetURL \<Rightarrow>
          (if url_Scheme targetURL = '''' \<or> url_Host targetURL = ''''
             then Inl (CheckerTargetIncomplete (hco_Target options))
           else if hco_Interval options \<le> 0 then Inl CheckerIntervalNotPositive
           else if hco_Timeout options \<le> 0 then Inl CheckerTimeoutNotPositive
           else Inr \<lparr>hc_name = hco_Name options, hc_target = targetURL,
             hc_path = checker_path (hco_Path options),
             hc_interval = hco_Interval options, hc_timeout = hco_Timeout options,
             hc_checked = False, hc_healthy = False, hc_lastCheckAt = 0, hc_lastReason = '''',
             hc_done = False, hc_started = False\<rparr>))"

definition hc_Start :: "checker \<Rightarrow> checker" where
  "hc_Start c = c\<lparr>hc_started := True\<rparr>"

text \<open>\<^verbatim>\<open>sync.Once\<close>: closing a closed checker does nothing.\<close>

definition hc_Close :: "checker \<Rightarrow> checker" where
  "hc_Close c = (if hc_done c then c else c\<lparr>hc_done := True\<rparr>)"

fun hc_Available :: "checker option \<Rightarrow> bool" where
  "hc_Available None = True"
| "hc_Available (Some c) = (if \<not> hc_checked c then True else hc_healthy c)"

fun hc_IsHealthy :: "checker option \<Rightarrow> bool" where
  "hc_IsHealthy None = True"
| "hc_IsHealthy (Some c) = hc_healthy c"

fun hc_Name :: "checker option \<Rightarrow> string" where
  "hc_Name None = ''''"
| "hc_Name (Some c) = hc_name c"

text \<open>The URL a probe asks: the target with its path replaced and its query dropped.\<close>

definition healthURL :: "checker \<Rightarrow> url" where
  "healthURL c = (hc_target c)\<lparr>url_Path := hc_path c, url_RawPath := '''', url_RawQuery := ''''\<rparr>"

definition hc_update :: "go_time \<Rightarrow> bool \<Rightarrow> string \<Rightarrow> checker \<Rightarrow> checker" where
  "hc_update now healthy reason c =
     c\<lparr>hc_lastCheckAt := now, hc_lastReason := reason, hc_healthy := healthy, hc_checked := True\<rparr>"

datatype probe = NoRequest string | CallFailed string | Answered go_int

text \<open>What \<^verbatim>\<open>checkOnce\<close> passes to \<^verbatim>\<open>update\<close>.\<close>

fun probe_result :: "probe \<Rightarrow> bool \<times> string" where
  "probe_result (NoRequest err) = (False, ''create health check request failed: '' @ err)"
| "probe_result (CallFailed err) = (False, ''health check request failed: '' @ err)"
| "probe_result (Answered status) =
     (let ok = (status \<ge> 200 \<and> status < 300)
      in if \<not> ok then (ok, ''health check status='' @ itoa status)
         else (ok, ''health check status='' @ itoa status))"

definition hc_checkOnce :: "go_time \<Rightarrow> probe \<Rightarrow> checker \<Rightarrow> checker" where
  "hc_checkOnce now p c = (let (ok, reason) = probe_result p in hc_update now ok reason c)"

record checkerSnapshot =
  hcs_Name :: string
  hcs_Target :: string
  hcs_Path :: string
  hcs_Interval :: duration
  hcs_Timeout :: duration
  hcs_Checked :: bool
  hcs_Healthy :: bool
  hcs_LastCheckedAt :: "go_time option"
  hcs_LastReason :: string

fun hc_Snapshot :: "(url \<Rightarrow> string) \<Rightarrow> checker option \<Rightarrow> checkerSnapshot" where
  "hc_Snapshot url_string None =
     \<lparr>hcs_Name = '''', hcs_Target = '''', hcs_Path = '''', hcs_Interval = 0, hcs_Timeout = 0,
      hcs_Checked = True, hcs_Healthy = True, hcs_LastCheckedAt = None, hcs_LastReason = ''''\<rparr>"
| "hc_Snapshot url_string (Some c) =
     \<lparr>hcs_Name = hc_name c, hcs_Target = url_string (hc_target c), hcs_Path = hc_path c,
      hcs_Interval = hc_interval c, hcs_Timeout = hc_timeout c,
      hcs_Checked = hc_checked c, hcs_Healthy = hc_healthy c,
      hcs_LastCheckedAt = (if hc_lastCheckAt c = 0 then None else Some (hc_lastCheckAt c)),
      hcs_LastReason = hc_lastReason c\<rparr>"

section \<open>The constructor\<close>

lemma checker_path_slash: "has_prefix (checker_path p) ''/''"
  by (auto simp: checker_path_def has_prefix_def)

lemma newChecker_Inr:
  "newChecker url_parse opts = Inr c \<Longrightarrow>
    url_parse (hco_Target opts) = Inr (hc_target c) \<and>
    url_Scheme (hc_target c) \<noteq> '''' \<and> url_Host (hc_target c) \<noteq> '''' \<and>
    hc_path c = checker_path (hco_Path opts) \<and> hc_interval c = hco_Interval opts \<and>
    hc_timeout c = hco_Timeout opts \<and> 0 < hc_interval c \<and> 0 < hc_timeout c \<and>
    hc_name c = hco_Name opts \<and> hc_name c \<noteq> '''' \<and>
    \<not> hc_checked c \<and> \<not> hc_healthy c \<and> \<not> hc_done c \<and> \<not> hc_started c"
  by (auto simp: newChecker_def split: if_splits sum.splits)

lemma newChecker_total:
  assumes "hco_Name opts \<noteq> ''''" and "url_parse (hco_Target opts) = Inr u"
    and "url_Scheme u \<noteq> ''''" and "url_Host u \<noteq> ''''"
    and "0 < hco_Interval opts" and "0 < hco_Timeout opts"
  shows "\<exists>c. newChecker url_parse opts = Inr c"
  using assms by (simp add: newChecker_def)

section \<open>The goroutine and its readers\<close>

text \<open>
  \<^verbatim>\<open>update\<close> is not atomic: it writes the time and the reason under the lock, then stores
  \<^verbatim>\<open>healthy\<close>, then stores \<^verbatim>\<open>checked\<close>; \<^verbatim>\<open>Available\<close> loads \<^verbatim>\<open>checked\<close> first and \<^verbatim>\<open>healthy\<close> after it. The
  steps below are single stores and loads, in the order of the code. \<open>hs_stored\<close> is the history
  of the verdicts stored so far, newest first; it is not read by any step.
\<close>

datatype loop_pc = Probing | Locking bool string | StoringHealthy bool | StoringChecked | Waiting | Returned

datatype reader_pc = LoadingChecked | LoadingHealthy | Got bool

record checker_sys =
  hs_checker :: checker
  hs_loop :: loop_pc
  hs_reader :: reader_pc
  hs_stored :: "bool list"

inductive hs_step :: "checker_sys \<Rightarrow> checker_sys \<Rightarrow> bool" where
  probed: "hs_loop s = Probing \<Longrightarrow> probe_result p = (ok, reason) \<Longrightarrow>
    hs_step s (s\<lparr>hs_loop := Locking ok reason\<rparr>)"
| locked: "hs_loop s = Locking ok reason \<Longrightarrow>
    hs_step s (s\<lparr>hs_loop := StoringHealthy ok,
      hs_checker := (hs_checker s)\<lparr>hc_lastCheckAt := now, hc_lastReason := reason\<rparr>\<rparr>)"
| stored_healthy: "hs_loop s = StoringHealthy ok \<Longrightarrow>
    hs_step s (s\<lparr>hs_loop := StoringChecked,
      hs_checker := (hs_checker s)\<lparr>hc_healthy := ok\<rparr>, hs_stored := ok # hs_stored s\<rparr>)"
| stored_checked: "hs_loop s = StoringChecked \<Longrightarrow>
    hs_step s (s\<lparr>hs_loop := Waiting, hs_checker := (hs_checker s)\<lparr>hc_checked := True\<rparr>\<rparr>)"
| ticked: "hs_loop s = Waiting \<Longrightarrow> hs_step s (s\<lparr>hs_loop := Probing\<rparr>)"
| done_seen: "hs_loop s = Waiting \<Longrightarrow> hc_done (hs_checker s) \<Longrightarrow> hs_step s (s\<lparr>hs_loop := Returned\<rparr>)"
| closed: "hs_step s (s\<lparr>hs_checker := hc_Close (hs_checker s)\<rparr>)"
| asked: "hs_step s (s\<lparr>hs_reader := LoadingChecked\<rparr>)"
| loaded_checked: "hs_reader s = LoadingChecked \<Longrightarrow>
    hs_step s (s\<lparr>hs_reader := (if \<not> hc_checked (hs_checker s) then Got True else LoadingHealthy)\<rparr>)"
| loaded_healthy: "hs_reader s = LoadingHealthy \<Longrightarrow>
    hs_step s (s\<lparr>hs_reader := Got (hc_healthy (hs_checker s))\<rparr>)"

inductive_cases hs_stepE: "hs_step s t"

inductive hs_reach :: "checker \<Rightarrow> checker_sys \<Rightarrow> bool" for c where
  start: "hs_reach c \<lparr>hs_checker = c, hs_loop = Probing, hs_reader = LoadingChecked, hs_stored = []\<rparr>"
| step: "hs_reach c s \<Longrightarrow> hs_step s t \<Longrightarrow> hs_reach c t"

text \<open>The four steps of one check, with nothing between them, are \<^verbatim>\<open>checkOnce\<close>.\<close>

lemma hs_check_sequence:
  assumes "hs_loop s = Probing"
  shows "\<exists>s1 s2 s3. hs_step s s1 \<and> hs_step s1 s2 \<and> hs_step s2 s3 \<and>
    hs_step s3 (s\<lparr>hs_stored := fst (probe_result p) # hs_stored s, hs_loop := Waiting,
      hs_checker := hc_checkOnce now p (hs_checker s)\<rparr>)"
proof -
  obtain ok reason where p: "probe_result p = (ok, reason)" by (cases "probe_result p")
  let ?s1 = "s\<lparr>hs_loop := Locking ok reason\<rparr>"
  let ?c2 = "(hs_checker s)\<lparr>hc_lastCheckAt := now, hc_lastReason := reason\<rparr>"
  let ?s2 = "s\<lparr>hs_loop := StoringHealthy ok, hs_checker := ?c2\<rparr>"
  let ?s3 = "s\<lparr>hs_loop := StoringChecked, hs_checker := ?c2\<lparr>hc_healthy := ok\<rparr>,
    hs_stored := ok # hs_stored s\<rparr>"
  have "hs_step s ?s1" using assms p by (rule hs_step.probed)
  moreover have "hs_step ?s1 ?s2" using hs_step.locked [of ?s1 ok reason now] by simp
  moreover have "hs_step ?s2 ?s3" using hs_step.stored_healthy [of ?s2 ok] by simp
  moreover have "hs_step ?s3 (s\<lparr>hs_stored := fst (probe_result p) # hs_stored s, hs_loop := Waiting,
      hs_checker := hc_checkOnce now p (hs_checker s)\<rparr>)"
    using hs_step.stored_checked [of ?s3] p by (simp add: hc_checkOnce_def hc_update_def)
  ultimately show ?thesis by blast
qed

lemma hs_reach_check:
  assumes "hs_reach c s" and "hs_loop s = Probing"
  shows "hs_reach c (s\<lparr>hs_stored := fst (probe_result p) # hs_stored s, hs_loop := Waiting,
    hs_checker := hc_checkOnce now p (hs_checker s)\<rparr>)"
proof -
  let ?t = "s\<lparr>hs_stored := fst (probe_result p) # hs_stored s, hs_loop := Waiting,
    hs_checker := hc_checkOnce now p (hs_checker s)\<rparr>"
  obtain s1 s2 s3 where "hs_step s s1" "hs_step s1 s2" "hs_step s2 s3" "hs_step s3 ?t"
    using hs_check_sequence [OF assms(2), where p = p and now = now] by (elim exE conjE)
  then show ?thesis using assms(1) by (elim hs_reach.step [rotated])
qed

definition hs_inv :: "checker_sys \<Rightarrow> bool" where
  "hs_inv s \<longleftrightarrow>
     (hs_stored s \<noteq> [] \<longrightarrow> hc_healthy (hs_checker s) = hd (hs_stored s)) \<and>
     (hc_checked (hs_checker s) \<longrightarrow> hs_stored s \<noteq> []) \<and>
     (hs_loop s = StoringChecked \<longrightarrow> hs_stored s \<noteq> []) \<and>
     (hs_reader s = LoadingHealthy \<longrightarrow> hs_stored s \<noteq> []) \<and>
     (hs_reader s = Got False \<longrightarrow> False \<in> set (hs_stored s))"

lemma hs_step_inv [step_inv]: "hs_step s t \<Longrightarrow> hs_inv s \<Longrightarrow> hs_inv t"
proof (induction rule: hs_step.induct)
  case (loaded_checked s)
  then show ?case by (simp add: hs_inv_def)
next
  case (loaded_healthy s)
  then show ?case by (cases "hs_stored s") (auto simp: hs_inv_def)
qed (simp_all add: hs_inv_def hc_Close_def)

lemma hs_reach_inv: "hs_reach c s \<Longrightarrow> \<not> hc_checked c \<Longrightarrow> hs_inv s"
proof (induction rule: hs_reach.induct)
  case start
  then show ?case by (simp add: hs_inv_def)
next
  case (step s t)
  then show ?case by (blast intro: hs_step_inv)
qed

section \<open>Properties\<close>

text \<open>
  C27: Active health is fail-open, also under concurrency: in every interleaving of the single
  stores of the checking goroutine with the single loads of a reader, a reader of a new checker
  is told that the backend is unavailable only if a probe that failed has stored its verdict;
  the initial \<^verbatim>\<open>healthy = false\<close> is never read.
\<close>

theorem checker_fail_open:
  assumes "newChecker url_parse opts = Inr c" and "hs_reach c s" and "hs_reader s = Got False"
  shows "False \<in> set (hs_stored s)"
  using hs_reach_inv [OF assms(2)] newChecker_Inr [OF assms(1)] assms(3) by (auto simp: hs_inv_def)

definition demo_url :: url where
  "demo_url = \<lparr>url_Scheme = ''http'', url_Host = ''localhost:8081'', url_Path = '''',
     url_RawPath = '''', url_RawQuery = '''', url_Rest = ''''\<rparr>"

definition demo_checker_options :: checkerOptions where
  "demo_checker_options = \<lparr>hco_Name = ''demo/backend-1'', hco_Target = ''http://localhost:8081'',
     hco_Path = ''health'', hco_Interval = 3 * second, hco_Timeout = second\<rparr>"

definition demo_checker :: checker where
  "demo_checker = \<lparr>hc_name = ''demo/backend-1'', hc_target = demo_url, hc_path = ''/health'',
     hc_interval = 3 * second, hc_timeout = second, hc_checked = False, hc_healthy = False,
     hc_lastCheckAt = 0, hc_lastReason = '''', hc_done = False, hc_started = False\<rparr>"

lemma demo_checker_new: "newChecker (\<lambda>_. Inr demo_url) demo_checker_options = Inr demo_checker"
  by (simp add: newChecker_def demo_checker_options_def demo_checker_def demo_url_def
      checker_path_def has_prefix_def)

theorem checker_fail_open_witness:
  "\<exists>s. hs_reach demo_checker s \<and> hs_reader s = Got False \<and> False \<in> set (hs_stored s)"
proof -
  let ?s0 = "\<lparr>hs_checker = demo_checker, hs_loop = Probing, hs_reader = LoadingChecked, hs_stored = []\<rparr>"
  let ?s4 = "?s0\<lparr>hs_loop := Waiting, hs_checker := hc_checkOnce 7 (Answered 503) demo_checker,
    hs_stored := [False]\<rparr>"
  let ?s5 = "?s4\<lparr>hs_reader := LoadingHealthy\<rparr>"
  let ?s6 = "?s4\<lparr>hs_reader := Got False\<rparr>"
  have "hs_reach demo_checker ?s4"
    using hs_reach_check [OF hs_reach.start [of demo_checker], where p = "Answered 503" and now = 7] by simp
  moreover have "hs_step ?s4 ?s5"
    using hs_step.loaded_checked [of ?s4] by (simp add: hc_checkOnce_def hc_update_def split_beta)
  moreover have "hs_step ?s5 ?s6"
    using hs_step.loaded_healthy [of ?s5] by (simp add: hc_checkOnce_def hc_update_def Let_def)
  ultimately have "hs_reach demo_checker ?s6" by (blast intro: hs_reach.step)
  with checker_fail_open [OF demo_checker_new this] show ?thesis by auto
qed

text \<open>
  After a check the checker answers with that check: available exactly if a status from 200
  to 299 came back, whatever it answered before; a request that cannot be made, a failed call
  and any other status make it unavailable, with the reason kept for the snapshot.
\<close>

theorem checkOnce_verdict:
  "hc_Available (Some (hc_checkOnce now p c)) \<longleftrightarrow> (\<exists>status. p = Answered status \<and> 200 \<le> status \<and> status < 300)"
  by (cases p) (auto simp: hc_checkOnce_def hc_update_def Let_def)

end
