(* ===== verification/Upstream.thy ===== *)
theory Upstream
  imports Circuit_Breaker Passive_Health Health_Checker "HOL-Library.Word"
begin

text \<open>
  \<^verbatim>\<open>internal/proxy/upstream.go\<close> and \<^verbatim>\<open>types.go\<close>: the upstreams of a route, how they are built from
  the options, how one of them is chosen for a request, and how an outcome is reported to its
  guards. Pointers to upstreams are positions in the handler's slice, which never changes its
  length after construction. The round-robin counter is an \<^verbatim>\<open>atomic.Uint64\<close>, a \<open>64 word\<close>.
\<close>

section \<open>State\<close>

record upstreamOptions =
  uo_ID :: string
  uo_URL :: string

record activeHealthOptions =
  aho_Enabled :: bool
  aho_Path :: string
  aho_Interval :: duration
  aho_Timeout :: duration

record proxyOptions =
  po_RouteID :: string
  po_Target :: string
  po_Upstreams :: "upstreamOptions list"
  po_StripPrefix :: string
  po_ActiveHealth :: activeHealthOptions
  po_PassiveHealth :: passiveHealthOptions
  po_CircuitBreaker :: circuitBreakerOptions

record upstream =
  up_id :: string
  up_url :: url
  up_activeHealth :: "checker option"
  up_passiveHealth :: "passiveHealthState option"
  up_circuitBreaker :: "circuitBreakerState option"

record proxyHandler =
  h_routeID :: string
  h_stripPrefix :: string
  h_upstreams :: "upstream list"
  h_nextIndex :: "64 word"

datatype proxy_error =
    RouteRequiresUpstreams string
  | UpstreamURLUnparsable string string string
  | UpstreamURLIncomplete string string
  | ActiveHealthFailed string string checker_error

section \<open>Construction\<close>

definition newActiveHealthChecker ::
    "url_parser \<Rightarrow> string \<Rightarrow> string \<Rightarrow> string \<Rightarrow> activeHealthOptions \<Rightarrow> proxy_error + checker option" where
  "newActiveHealthChecker url_parse routeID upstreamID target options =
     (if \<not> aho_Enabled options then Inr None
      else
        let path = (if aho_Path options = '''' then ''/health'' else aho_Path options);
            interval = (if aho_Interval options \<le> 0 then 5 * second else aho_Interval options);
            timeout = (if aho_Timeout options \<le> 0 then second else aho_Timeout options)
        in case newChecker url_parse
               \<lparr>hco_Name = routeID @ ''/'' @ upstreamID, hco_Target = target, hco_Path = path,
                hco_Interval = interval, hco_Timeout = timeout\<rparr> of
             Inl e \<Rightarrow> Inl (ActiveHealthFailed routeID upstreamID e)
           | Inr c \<Rightarrow> Inr (Some (hc_Start c)))"

definition buildUpstream ::
    "url_parser \<Rightarrow> proxyOptions \<Rightarrow> upstreamOptions \<Rightarrow> nat \<Rightarrow> proxy_error + upstream" where
  "buildUpstream url_parse options option index =
     (let id0 = trim_space (uo_ID option);
          uid = (if id0 = '''' then ''upstream-'' @ itoa (int index + 1) else id0)
      in case url_parse (uo_URL option) of
           Inl e \<Rightarrow> Inl (UpstreamURLUnparsable uid (uo_URL option) e)
         | Inr targetURL \<Rightarrow>
             if url_Scheme targetURL = '''' \<or> url_Host targetURL = ''''
             then Inl (UpstreamURLIncomplete uid (uo_URL option))
             else
               res_bind
                 (newActiveHealthChecker url_parse (po_RouteID options) uid (uo_URL option)
                   (po_ActiveHealth options))
                 (\<lambda>activeHealth.
                   Inr \<lparr>up_id = uid, up_url = targetURL, up_activeHealth = activeHealth,
                     up_passiveHealth = newPassiveHealthState (po_RouteID options) uid (po_PassiveHealth options),
                     up_circuitBreaker = newCircuitBreakerState (po_RouteID options) uid (po_CircuitBreaker options)\<rparr>))"

definition buildUpstreams :: "url_parser \<Rightarrow> proxyOptions \<Rightarrow> proxy_error + upstream list" where
  "buildUpstreams url_parse options =
     (let upstreamOptions =
        (if po_Upstreams options = [] \<and> po_Target options \<noteq> ''''
         then [\<lparr>uo_ID = ''default'', uo_URL = po_Target options\<rparr>]
         else po_Upstreams options)
      in if upstreamOptions = [] then Inl (RouteRequiresUpstreams (po_RouteID options))
         else res_map (\<lambda>(i, option). buildUpstream url_parse options option i) (enumerate 0 upstreamOptions))"

text \<open>\<^verbatim>\<open>New\<close>: the transport and the \<^verbatim>\<open>httputil.ReverseProxy\<close> it sets up hold no state of the gateway.\<close>

definition newProxyHandler :: "url_parser \<Rightarrow> proxyOptions \<Rightarrow> proxy_error + proxyHandler" where
  "newProxyHandler url_parse options =
     res_bind (buildUpstreams url_parse options) (\<lambda>upstreams.
       Inr \<lparr>h_routeID = po_RouteID options, h_stripPrefix = po_StripPrefix options,
            h_upstreams = upstreams, h_nextIndex = 0\<rparr>)"

section \<open>Guards of one upstream\<close>

text \<open>
  \<^verbatim>\<open>tryAcquire\<close> asks the active check, the passive state and the breaker in that order and stops
  at the first refusal, so a breaker is only asked when the others let the request pass.
\<close>

definition tryAcquireUpstream :: "go_time \<Rightarrow> upstream \<Rightarrow> bool \<times> upstream" where
  "tryAcquireUpstream now u =
     (if up_activeHealth u \<noteq> None \<and> \<not> hc_Available (up_activeHealth u) then (False, u)
      else if (case up_passiveHealth u of None \<Rightarrow> False | Some p \<Rightarrow> \<not> ph_available now p) then (False, u)
      else case up_circuitBreaker u of
        None \<Rightarrow> (True, u)
      | Some c \<Rightarrow>
          (let (ok, c') = cb_allow now c
           in if \<not> ok then (False, u\<lparr>up_circuitBreaker := Some c'\<rparr>)
              else (True, u\<lparr>up_circuitBreaker := Some c'\<rparr>)))"

definition recordSuccess :: "go_time \<Rightarrow> upstream \<Rightarrow> upstream" where
  "recordSuccess now u =
     u\<lparr>up_passiveHealth := map_option (ph_recordSuccess now) (up_passiveHealth u),
       up_circuitBreaker := map_option (cb_recordSuccess now) (up_circuitBreaker u)\<rparr>"

definition recordFailure :: "go_time \<Rightarrow> string \<Rightarrow> upstream \<Rightarrow> upstream" where
  "recordFailure now reason u =
     u\<lparr>up_passiveHealth := map_option (ph_recordFailure now reason) (up_passiveHealth u),
       up_circuitBreaker := map_option (cb_recordFailure now reason) (up_circuitBreaker u)\<rparr>"

definition up_inv :: "upstream \<Rightarrow> bool" where
  "up_inv u \<longleftrightarrow> pred_option ph_inv (up_passiveHealth u) \<and> pred_option cb_inv (up_circuitBreaker u)"

lemma tryAcquire_cases:
  "tryAcquireUpstream now u =
     (if \<not> hc_Available (up_activeHealth u) then (False, u)
      else if \<not> pred_option (ph_available now) (up_passiveHealth u) then (False, u)
      else case up_circuitBreaker u of None \<Rightarrow> (True, u)
        | Some c \<Rightarrow> (fst (cb_allow now c), u\<lparr>up_circuitBreaker := Some (snd (cb_allow now c))\<rparr>))"
  by (cases "up_activeHealth u"; cases "up_passiveHealth u")
     (auto simp: tryAcquireUpstream_def split_beta split: option.splits)

interpretation up: guard up_inv tryAcquireUpstream recordSuccess recordFailure
proof unfold_locales
  fix u t r assume inv: "up_inv u"
  show "up_inv (snd (tryAcquireUpstream t u))"
    using inv cb_inv_allow by (auto simp: tryAcquire_cases up_inv_def split: option.splits)
  show "up_inv (recordSuccess t u)"
    using inv by (auto simp: up_inv_def recordSuccess_def step_inv option.pred_map option.pred_set)
  show "up_inv (recordFailure t r u)"
    using inv by (auto simp: up_inv_def recordFailure_def step_inv option.pred_map option.pred_set)
  show "snd (tryAcquireUpstream t u) = u" if "\<not> fst (tryAcquireUpstream t u)"
    using that inv cb_refusal_frame by (auto simp: tryAcquire_cases up_inv_def split: option.splits if_splits)
qed

lemma up_id_frame [frame]:
  "up_id (snd (tryAcquireUpstream now u)) = up_id u"
  "up_id (recordSuccess now u) = up_id u"
  "up_id (recordFailure now reason u) = up_id u"
  by (simp_all add: tryAcquire_cases recordSuccess_def recordFailure_def split: option.split)

section \<open>Round robin\<close>

text \<open>
  \<^verbatim>\<open>selectUpstream\<close>: the loop over \<open>is\<close>, the values of \<open>i\<close> still to come. The time is read anew for
  every candidate: \<open>now i\<close> is what \<^verbatim>\<open>time.Now()\<close> returns in round \<open>i\<close>. The sum \<open>start + i\<close> and the
  remainder are computed on unsigned 64-bit words, as in the code.
\<close>

definition scan_index :: "64 word \<Rightarrow> nat \<Rightarrow> nat \<Rightarrow> nat" where
  "scan_index start count i = unat ((start + of_nat i) mod of_nat count)"

fun scan :: "(nat \<Rightarrow> go_time) \<Rightarrow> 64 word \<Rightarrow> upstream list \<Rightarrow> nat list \<Rightarrow> nat option \<times> upstream list" where
  "scan now start ups [] = (None, ups)"
| "scan now start ups (i # is) =
     (let index = scan_index start (length ups) i;
          (ok, candidate) = tryAcquireUpstream (now i) (ups ! index);
          ups' = ups[index := candidate]
      in if ok then (Some index, ups') else scan now start ups' is)"

definition selectUpstream :: "(nat \<Rightarrow> go_time) \<Rightarrow> proxyHandler \<Rightarrow> nat option \<times> proxyHandler" where
  "selectUpstream now h =
     (let count = length (h_upstreams h)
      in if count = 0 then (None, h)
         else
           let next = h_nextIndex h + 1;
               start = next - 1;
               (selected, ups) = scan now start (h_upstreams h) [0..<count]
           in (selected, h\<lparr>h_nextIndex := next, h_upstreams := ups\<rparr>))"

text \<open>The reference: the first candidate, in the order of the scan, whose guards let it pass.\<close>

definition h_inv :: "proxyHandler \<Rightarrow> bool" where
  "h_inv h \<longleftrightarrow> list_all up_inv (h_upstreams h)"

definition pick :: "(nat \<Rightarrow> go_time) \<Rightarrow> upstream list \<Rightarrow> (nat \<times> nat) list \<Rightarrow> nat option \<times> upstream list" where
  "pick now ups order =
     (case find (\<lambda>(i, k). fst (tryAcquireUpstream (now i) (ups ! k))) order of
        None \<Rightarrow> (None, ups)
      | Some (i, k) \<Rightarrow> (Some k, ups[k := snd (tryAcquireUpstream (now i) (ups ! k))]))"

lemma pick_Cons:
  "pick now ups ((i, k) # order) =
    (if fst (tryAcquireUpstream (now i) (ups ! k))
     then (Some k, ups[k := snd (tryAcquireUpstream (now i) (ups ! k))]) else pick now ups order)"
  by (simp add: pick_def)

lemma scan_pick:
  assumes "list_all up_inv ups" and "\<And>i. i \<in> set is \<Longrightarrow> scan_index start (length ups) i < length ups"
  shows "scan now start ups is = pick now ups (map (\<lambda>i. (i, scan_index start (length ups) i)) is)"
  using assms(2)
proof (induction "is")
  case Nil
  then show ?case by (simp add: pick_def)
next
  case (Cons i "is")
  let ?k = "scan_index start (length ups) i"
  have k: "?k < length ups" using Cons.prems by simp
  have inv: "up_inv (ups ! ?k)" using assms(1) k by (simp add: list_all_length)
  show ?case
  proof (cases "fst (tryAcquireUpstream (now i) (ups ! ?k))")
    case True
    then show ?thesis by (simp add: split_beta Let_def pick_Cons)
  next
    case False
    then have "ups[?k := snd (tryAcquireUpstream (now i) (ups ! ?k))] = ups"
      using up.refusal_frame [OF inv False] by simp
    with False Cons show ?thesis by (simp add: split_beta Let_def pick_Cons)
  qed
qed

lemma unat_small: "n < 2 ^ 64 \<Longrightarrow> unat (of_nat n :: 64 word) = n"
  by (simp add: unat_of_nat)

lemma scan_index_less: "0 < n \<Longrightarrow> n < 2 ^ 64 \<Longrightarrow> scan_index start n i < n"
  by (simp add: scan_index_def unat_mod unat_small del: of_nat_numeral)

text \<open>As long as the counter does not wrap within the scan, it is the index of round robin.\<close>

lemma scan_index_eq:
  assumes "0 < n" and "n < 2 ^ 64" and "unat start + n \<le> 2 ^ 64" and "i < n"
  shows "scan_index start n i = (unat start + i) mod n"
proof -
  have i: "unat (of_nat i :: 64 word) = i"
    using assms by (intro unat_small) simp
  have "unat (start + of_nat i) = unat start + i"
    using assms i unat_add_lem [of start "of_nat i"] by simp
  then show ?thesis using assms by (simp add: scan_index_def unat_mod unat_small)
qed

text \<open>The candidates of a scan that does not wrap: every upstream once.\<close>

lemma rotation_hits:
  assumes "j < (n :: nat)"
  shows "\<exists>i < n. (s + i) mod n = j"
proof (intro exI conjI)
  let ?i = "(j + (n - s mod n)) mod n"
  show "?i < n" using assms by simp
  have "s + (j + (n - s mod n)) = j + n * (s div n + 1)"
    using assms mod_less_divisor [of n s] mult_div_mod_eq [of n s] by (simp, linarith)
  then have "(s + ?i) mod n = (j + n * (s div n + 1)) mod n" by (simp only: mod_add_right_eq)
  also have "\<dots> = j" using assms by (simp only: mod_mult_self2 mod_less)
  finally show "(s + ?i) mod n = j" .
qed

section \<open>Properties\<close>

lemma h_inv_nth: "h_inv h \<Longrightarrow> i < length (h_upstreams h) \<Longrightarrow> up_inv (h_upstreams h ! i)"
  by (simp add: h_inv_def list_all_length)

text \<open>The order of round robin: round \<open>i\<close> tries position \<open>(start + i) mod n\<close>.\<close>

definition rr_order :: "nat \<Rightarrow> nat \<Rightarrow> (nat \<times> nat) list" where
  "rr_order start n = map (\<lambda>i. (i, (start + i) mod n)) [0..<n]"

lemma rr_order_covers: "0 < n \<Longrightarrow> snd ` set (rr_order start n) = {0..<n}"
proof -
  assume "0 < n"
  then have "snd ` set (rr_order start n) \<subseteq> {0..<n}" by (auto simp: rr_order_def)
  moreover have "{0..<n} \<subseteq> snd ` set (rr_order start n)"
  proof
    fix j assume "j \<in> {0..<n}"
    then obtain i where "i < n" "(start + i) mod n = j" using rotation_hits [of j n start] by auto
    then show "j \<in> snd ` set (rr_order start n)" by (force simp: rr_order_def image_image)
  qed
  ultimately show ?thesis by (rule subset_antisym)
qed

lemma select_pick:
  fixes h :: proxyHandler
  defines "n \<equiv> length (h_upstreams h)" and "start \<equiv> unat (h_nextIndex h)"
  assumes "h_inv h" and "0 < n" and "n < 2 ^ 64" and "start + n \<le> 2 ^ 64"
  shows "selectUpstream now h =
      (let (selected, ups) = pick now (h_upstreams h) (rr_order start n)
       in (selected, h\<lparr>h_nextIndex := h_nextIndex h + 1, h_upstreams := ups\<rparr>))"
proof -
  have "map (\<lambda>i. (i, scan_index (h_nextIndex h) n i)) [0..<n] = rr_order start n"
    unfolding rr_order_def using assms scan_index_eq [of n "h_nextIndex h"] by (intro map_cong) auto
  then have "scan now (h_nextIndex h) (h_upstreams h) [0..<n] = pick now (h_upstreams h) (rr_order start n)"
    using scan_pick [of "h_upstreams h" "[0..<n]" "h_nextIndex h" now] assms scan_index_less
    by (simp add: h_inv_def)
  then show ?thesis
    using assms(4) by (simp add: selectUpstream_def n_def Let_def)
qed

text \<open>A counter that is at least the number of upstreams away from the wrap.\<close>

definition no_wrap :: "proxyHandler \<Rightarrow> bool" where
  "no_wrap h \<longleftrightarrow> h_upstreams h \<noteq> [] \<and> length (h_upstreams h) < 2 ^ 64 \<and>
     unat (h_nextIndex h) + length (h_upstreams h) \<le> 2 ^ 64"

text \<open>
  C9: Round robin, as the design document draws it: the upstreams are tried in order starting at
  the counter, each of them once; the first one whose active check, passive health and breaker
  all let the request pass is chosen, and only that upstream changes. The counter advances by
  one whatever happens. (The counter must not wrap within the scan.)
\<close>

theorem selectUpstream_round_robin:
  assumes "h_inv h" and "no_wrap h"
  shows "selectUpstream now h =
      (let (selected, ups) = pick now (h_upstreams h)
         (rr_order (unat (h_nextIndex h)) (length (h_upstreams h)))
       in (selected, h\<lparr>h_nextIndex := h_nextIndex h + 1, h_upstreams := ups\<rparr>))
    \<and> snd ` set (rr_order (unat (h_nextIndex h)) (length (h_upstreams h))) = {0..<length (h_upstreams h)}"
  using select_pick [of h now] rr_order_covers assms by (simp add: no_wrap_def)

definition plain_upstream :: "string \<Rightarrow> upstream" where
  "plain_upstream i = \<lparr>up_id = i, up_url = demo_url, up_activeHealth = None,
     up_passiveHealth = None, up_circuitBreaker = None\<rparr>"

definition down_upstream :: "string \<Rightarrow> upstream" where
  "down_upstream i = (plain_upstream i)\<lparr>up_activeHealth :=
     Some (hc_checkOnce 1 (Answered 500) demo_checker)\<rparr>"

lemma tryAcquire_plain [simp]:
  "tryAcquireUpstream now (plain_upstream i) = (True, plain_upstream i)"
  "tryAcquireUpstream now (down_upstream i) = (False, down_upstream i)"
  by (simp_all add: tryAcquireUpstream_def plain_upstream_def down_upstream_def hc_checkOnce_def
      hc_update_def Let_def)

definition demo_handler :: "64 word \<Rightarrow> proxyHandler" where
  "demo_handler k = \<lparr>h_routeID = ''demo'', h_stripPrefix = ''/api'',
     h_upstreams = [down_upstream ''b1'', down_upstream ''b2'', plain_upstream ''b3''],
     h_nextIndex = k\<rparr>"

lemma demo_handler_inv [simp]: "h_inv (demo_handler k)"
  by (simp add: h_inv_def demo_handler_def up_inv_def plain_upstream_def down_upstream_def)

theorem selectUpstream_round_robin_witness:
  "selectUpstream (\<lambda>_. 5) (demo_handler 7) = (Some 2, demo_handler 8)"
proof -
  have o: "rr_order 7 (Suc (Suc (Suc 0))) = [(0, Suc 0), (Suc 0, 2), (2, 0)]"
    by (simp add: rr_order_def)
  have "no_wrap (demo_handler 7)" by (simp add: no_wrap_def demo_handler_def)
  from selectUpstream_round_robin [OF demo_handler_inv this, of "\<lambda>_. 5"] o
  show ?thesis by (simp add: demo_handler_def pick_Cons)
qed

text \<open>
  A route answers 503 only when it has to: unless the counter wraps, no upstream is chosen
  if and only if every upstream refuses the request at the time it is asked, and an upstream
  that is chosen did let it pass.
\<close>

theorem selectUpstream_none_iff:
  assumes "h_inv h" and "no_wrap h"
  shows "(fst (selectUpstream (\<lambda>_. t) h) = None \<longleftrightarrow>
      (\<forall>u \<in> set (h_upstreams h). \<not> fst (tryAcquireUpstream t u)))
    \<and> (\<forall>k. fst (selectUpstream (\<lambda>_. t) h) = Some k \<longrightarrow>
      k < length (h_upstreams h) \<and> fst (tryAcquireUpstream t (h_upstreams h ! k)))"
proof -
  let ?n = "length (h_upstreams h)" and ?ups = "h_upstreams h"
  let ?order = "rr_order (unat (h_nextIndex h)) ?n"
  let ?P = "\<lambda>(i::nat, k). fst (tryAcquireUpstream t (?ups ! k))"
  have cover: "snd ` set ?order = {0..<?n}"
    using assms(2) by (intro rr_order_covers) (simp add: no_wrap_def)
  have sel: "fst (selectUpstream (\<lambda>_. t) h) = map_option snd (find ?P ?order)"
    using select_pick [of h "\<lambda>_. t"] assms
    by (simp add: no_wrap_def pick_def split_beta split: option.split)
  have "find ?P ?order = None \<longleftrightarrow> (\<forall>k \<in> snd ` set ?order. \<not> fst (tryAcquireUpstream t (?ups ! k)))"
    by (auto simp: find_None_iff)
  also have "\<dots> \<longleftrightarrow> (\<forall>u \<in> set ?ups. \<not> fst (tryAcquireUpstream t u))"
    unfolding cover by (metis atLeastLessThan_iff in_set_conv_nth zero_le)
  finally have none: "fst (selectUpstream (\<lambda>_. t) h) = None \<longleftrightarrow>
      (\<forall>u \<in> set ?ups. \<not> fst (tryAcquireUpstream t u))"
    by (simp add: sel)
  have "k < ?n \<and> fst (tryAcquireUpstream t (?ups ! k))" if some: "fst (selectUpstream (\<lambda>_. t) h) = Some k" for k
  proof -
    obtain i where f: "find ?P ?order = Some (i, k)" using some sel by auto
    then have "(i, k) \<in> set ?order" and "fst (tryAcquireUpstream t (?ups ! k))"
      by (auto simp: find_Some_iff in_set_conv_nth)
    with cover show ?thesis by (metis atLeastLessThan_iff image_eqI snd_conv)
  qed
  with none show ?thesis by blast
qed

theorem selectUpstream_none_iff_witness:
  "fst (selectUpstream (\<lambda>_. 5) (demo_handler 4)) \<noteq> None"
proof -
  have "no_wrap (demo_handler 4)" by (simp add: no_wrap_def demo_handler_def)
  from selectUpstream_none_iff [OF demo_handler_inv this, of 5]
  show ?thesis by (simp add: demo_handler_def)
qed



section \<open>Fairness\<close>

text \<open>A row of requests; \<open>cs\<close> holds, for each of them, the clock of its scan.\<close>

fun selections :: "(nat \<Rightarrow> go_time) list \<Rightarrow> proxyHandler \<Rightarrow> nat option list \<times> proxyHandler" where
  "selections [] h = ([], h)"
| "selections (now # cs) h =
     (let (k, h') = selectUpstream now h; (ks, h'') = selections cs h' in (k # ks, h''))"

definition unguarded :: "upstream \<Rightarrow> bool" where
  "unguarded u \<longleftrightarrow> up_activeHealth u = None \<and> up_passiveHealth u = None \<and> up_circuitBreaker u = None"

lemma tryAcquire_unguarded: "unguarded u \<Longrightarrow> tryAcquireUpstream now u = (True, u)"
  by (simp add: unguarded_def tryAcquireUpstream_def)

lemma select_unguarded:
  assumes "\<forall>u \<in> set (h_upstreams h). unguarded u" and "h_upstreams h \<noteq> []"
    and "length (h_upstreams h) < 2 ^ 64"
  shows "selectUpstream now h =
    (Some (unat (h_nextIndex h) mod length (h_upstreams h)), h\<lparr>h_nextIndex := h_nextIndex h + 1\<rparr>)"
proof -
  let ?n = "length (h_upstreams h)" and ?k = "unat (h_nextIndex h) mod length (h_upstreams h)"
  have n: "0 < ?n" using assms(2) by simp
  have idx: "scan_index (h_nextIndex h) ?n 0 = ?k"
    using assms(3) by (simp add: scan_index_def unat_mod unat_small)
  have "?k < ?n" using n by simp
  then have "tryAcquireUpstream (now 0) (h_upstreams h ! ?k) = (True, h_upstreams h ! ?k)"
    using assms(1) by (intro tryAcquire_unguarded) auto
  then show ?thesis
    using n idx by (simp add: selectUpstream_def upt_conv_Cons Let_def)
qed

lemma selections_unguarded:
  assumes "\<forall>u \<in> set (h_upstreams h). unguarded u" and "h_upstreams h \<noteq> []"
    and "length (h_upstreams h) < 2 ^ 64" and "unat (h_nextIndex h) + length cs \<le> 2 ^ 64"
  shows "fst (selections cs h) =
    map (\<lambda>i. Some ((unat (h_nextIndex h) + i) mod length (h_upstreams h))) [0..<length cs]"
  using assms
proof (induction cs arbitrary: h)
  case Nil
  then show ?case by simp
next
  case (Cons now cs)
  let ?h' = "h\<lparr>h_nextIndex := h_nextIndex h + 1\<rparr>"
  have rest: "fst (selections cs ?h') =
      map (\<lambda>i. Some ((unat (h_nextIndex h) + Suc i) mod length (h_upstreams h))) [0..<length cs]"
  proof (cases "cs = []")
    case False
    then have "unat (h_nextIndex h) + 1 < 2 ^ 64"
      using Cons.prems(4) by (cases cs) auto
    then have "unat (h_nextIndex h + 1) = unat (h_nextIndex h) + 1"
      using unat_add_lem [of "h_nextIndex h" 1] by simp
    with Cons.prems Cons.IH [of ?h'] show ?thesis by simp
  qed simp
  have "fst (selections (now # cs) h) =
      Some (unat (h_nextIndex h) mod length (h_upstreams h)) # fst (selections cs ?h')"
    using select_unguarded [OF Cons.prems(1-3)] by (simp add: split_beta)
  then show ?case
    unfolding rest by (simp add: upt_conv_Cons map_Suc_upt [symmetric] del: upt_Suc)
qed

lemma count_list_distinct: "distinct xs \<Longrightarrow> x \<in> set xs \<Longrightarrow> count_list xs x = 1"
  by (induction xs) (auto simp: count_list_0_iff)

lemma rotation_count:
  assumes "j < n"
  shows "count_list (map (\<lambda>i. (s + i) mod n) [0..<m * n]) j = m"
proof (induction m)
  case 0
  then show ?case by simp
next
  case (Suc m)
  let ?f = "\<lambda>i. (s + i) mod n"
  have f: "?f ` {0..<n} = {0..<n}"
    using rr_order_covers [of n s] assms by (simp add: rr_order_def image_image)
  then have "inj_on ?f {0..<n}" by (intro eq_card_imp_inj_on) simp_all
  then have one: "count_list (map ?f [0..<n]) j = 1"
    using f assms by (intro count_list_distinct) (simp_all add: distinct_map)
  have shift: "map ?f [m * n..<Suc m * n] = map ?f [0..<n]"
  proof (rule nth_equalityI)
    fix i assume "i < length (map ?f [m * n..<Suc m * n])"
    then have "map ?f [m * n..<Suc m * n] ! i = (s + (m * n + i)) mod n" and "i < n" by simp_all
    moreover have "s + (m * n + i) = (s + i) + m * n" by simp
    ultimately show "map ?f [m * n..<Suc m * n] ! i = map ?f [0..<n] ! i"
      by (simp only: mod_mult_self1) simp
  qed simp
  have "[0..<Suc m * n] = [0..<m * n] @ [m * n..<Suc m * n]"
    by (metis add.commute le_add2 mult_Suc upt_add_eq_append zero_le)
  then have "count_list (map ?f [0..<Suc m * n]) j = m + count_list (map ?f [m * n..<Suc m * n]) j"
    by (simp add: Suc count_list_append)
  then show ?case by (simp only: shift one)
qed

text \<open>
  C34: Round robin is fair: with upstreams that no guard protects, request number \<open>i\<close> goes to
  position \<open>(counter + i) mod n\<close>, so of any \<open>m * n\<close> consecutive requests every upstream gets
  exactly \<open>m\<close> (before the 64-bit counter wraps).
\<close>

theorem selectUpstream_fair:
  assumes "\<forall>u \<in> set (h_upstreams h). unguarded u" and "length (h_upstreams h) < 2 ^ 64"
    and "length cs = m * length (h_upstreams h)" and "unat (h_nextIndex h) + length cs \<le> 2 ^ 64"
    and "j < length (h_upstreams h)"
  shows "count_list (fst (selections cs h)) (Some j) = m"
proof -
  let ?n = "length (h_upstreams h)"
  have "h_upstreams h \<noteq> []" using assms(5) by auto
  then have "fst (selections cs h) = map Some (map (\<lambda>i. (unat (h_nextIndex h) + i) mod ?n) [0..<m * ?n])"
    using selections_unguarded [OF assms(1) _ assms(2,4)] assms(3) by (simp add: comp_def)
  then have "count_list (fst (selections cs h)) (Some j) =
      count_list (map (\<lambda>i. (unat (h_nextIndex h) + i) mod ?n) [0..<m * ?n]) j"
    by (simp only: count_list_map_conv [OF inj_Some])
  then show ?thesis by (simp only: rotation_count [OF assms(5)])
qed

definition fair_handler :: proxyHandler where
  "fair_handler = \<lparr>h_routeID = ''demo'', h_stripPrefix = '''',
     h_upstreams = [plain_upstream ''b1'', plain_upstream ''b2''], h_nextIndex = 9\<rparr>"

theorem selectUpstream_fair_witness:
  "count_list (fst (selections (replicate 6 (\<lambda>_. 5)) fair_handler)) (Some 1) = 3"
  by (rule selectUpstream_fair)
     (simp_all add: fair_handler_def unguarded_def plain_upstream_def)

section \<open>Snapshots and closing\<close>

record upstreamSnapshot =
  ups_ID :: string
  ups_URL :: string
  ups_ActiveHealth :: "checkerSnapshot option"
  ups_PassiveHealth :: "passiveHealthSnapshot option"
  ups_CircuitBreaker :: "circuitBreakerSnapshot option"

definition UpstreamSnapshots :: "(url \<Rightarrow> string) \<Rightarrow> go_time \<Rightarrow> proxyHandler \<Rightarrow> upstreamSnapshot list" where
  "UpstreamSnapshots url_string now h =
     map (\<lambda>item. \<lparr>ups_ID = up_id item, ups_URL = url_string (up_url item),
       ups_ActiveHealth = map_option (\<lambda>c. hc_Snapshot url_string (Some c)) (up_activeHealth item),
       ups_PassiveHealth = map_option (ph_snapshot now) (up_passiveHealth item),
       ups_CircuitBreaker = map_option (cb_snapshot now) (up_circuitBreaker item)\<rparr>)
     (h_upstreams h)"

definition closeChecks :: "upstream \<Rightarrow> upstream" where
  "closeChecks item =
     (if up_activeHealth item \<noteq> None
      then item\<lparr>up_activeHealth := map_option hc_Close (up_activeHealth item)\<rparr> else item)"

definition CloseIdleConnections :: "proxyHandler \<Rightarrow> proxyHandler" where
  "CloseIdleConnections h = h\<lparr>h_upstreams := map closeChecks (h_upstreams h)\<rparr>"

definition upstreamIDOrEmpty :: "upstream option \<Rightarrow> string" where
  "upstreamIDOrEmpty selected = (case selected of None \<Rightarrow> '''' | Some u \<Rightarrow> up_id u)"

text \<open>Closing stops the checks, changes no answer of any guard, and closing twice is closing once.\<close>

lemma CloseIdleConnections_checks:
  "u \<in> set (h_upstreams (CloseIdleConnections h)) \<Longrightarrow> pred_option hc_done (up_activeHealth u)"
  by (auto simp: CloseIdleConnections_def closeChecks_def hc_Close_def option.pred_set)

lemma closeChecks_answers: "fst (tryAcquireUpstream t (closeChecks u)) = fst (tryAcquireUpstream t u)"
  by (cases "up_activeHealth u")
     (auto simp: tryAcquire_cases closeChecks_def hc_Close_def split: option.splits)

lemma closeChecks_idem: "closeChecks (closeChecks u) = closeChecks u"
  by (cases "up_activeHealth u") (auto simp: closeChecks_def hc_Close_def)

lemma CloseIdleConnections_idem: "CloseIdleConnections (CloseIdleConnections h) = CloseIdleConnections h"
  by (simp add: CloseIdleConnections_def closeChecks_idem)

section \<open>What construction gives\<close>

definition effective_upstreams :: "proxyOptions \<Rightarrow> upstreamOptions list" where
  "effective_upstreams options =
     (if po_Upstreams options = [] \<and> po_Target options \<noteq> ''''
      then [\<lparr>uo_ID = ''default'', uo_URL = po_Target options\<rparr>] else po_Upstreams options)"

definition usable_url :: "url_parser \<Rightarrow> string \<Rightarrow> bool" where
  "usable_url url_parse raw =
     (case url_parse raw of Inl e \<Rightarrow> False | Inr u \<Rightarrow> url_Scheme u \<noteq> '''' \<and> url_Host u \<noteq> '''')"

lemma newActiveHealthChecker_usable:
  assumes "usable_url url_parse target"
  shows "\<exists>c. newActiveHealthChecker url_parse routeID uid target opts = Inr c \<and>
    (c \<noteq> None \<longleftrightarrow> aho_Enabled opts) \<and> (\<forall>k. c = Some k \<longrightarrow> \<not> hc_checked k \<and> hc_started k \<and> \<not> hc_done k)"
proof (cases "aho_Enabled opts")
  case True
  from assms obtain u where u: "url_parse target = Inr u" "url_Scheme u \<noteq> ''''" "url_Host u \<noteq> ''''"
    by (auto simp: usable_url_def split: sum.splits)
  let ?o = "\<lparr>hco_Name = routeID @ ''/'' @ uid, hco_Target = target,
    hco_Path = (if aho_Path opts = '''' then ''/health'' else aho_Path opts),
    hco_Interval = (if aho_Interval opts \<le> 0 then 5 * second else aho_Interval opts),
    hco_Timeout = (if aho_Timeout opts \<le> 0 then second else aho_Timeout opts)\<rparr>"
  have "hco_Name ?o \<noteq> ''''" "0 < hco_Interval ?o" "0 < hco_Timeout ?o" by simp_all
  then obtain c where c: "newChecker url_parse ?o = Inr c"
    using newChecker_total [of ?o url_parse u] u by (simp only: checkerOptions.simps) blast
  then have "newActiveHealthChecker url_parse routeID uid target opts = Inr (Some (hc_Start c))"
    using True by (simp add: newActiveHealthChecker_def Let_def)
  with True newChecker_Inr [OF c] show ?thesis by (simp add: hc_Start_def)
qed (simp add: newActiveHealthChecker_def)

definition limits_fit :: "proxyOptions \<Rightarrow> bool" where
  "limits_fit options \<longleftrightarrow>
     is_int64 (pho_FailureThreshold (po_PassiveHealth options)) \<and>
     is_int64 (pho_SuccessThreshold (po_PassiveHealth options)) \<and>
     is_int64 (cbo_FailureThreshold (po_CircuitBreaker options)) \<and>
     is_int64 (cbo_HalfOpenMaxRequests (po_CircuitBreaker options))"

text \<open>A new upstream: its checker runs and has checked nothing, its guards are in order.\<close>

definition fresh_upstream :: "upstream \<Rightarrow> bool" where
  "fresh_upstream u \<longleftrightarrow>
     up_id u \<noteq> '''' \<and> url_Scheme (up_url u) \<noteq> '''' \<and> url_Host (up_url u) \<noteq> '''' \<and>
     pred_option (\<lambda>c. \<not> hc_checked c \<and> hc_started c \<and> \<not> hc_done c) (up_activeHealth u) \<and>
     pred_option (\<lambda>p. \<not> ph_unhealthy p) (up_passiveHealth u) \<and>
     pred_option (\<lambda>c. cb_state c = circuitBreakerStateClosed) (up_circuitBreaker u)"

lemma fresh_admits:
  assumes "up_inv u" and "fresh_upstream u"
  shows "tryAcquireUpstream now u = (True, u)"
proof -
  have a: "hc_Available (up_activeHealth u)"
    using assms(2) by (cases "up_activeHealth u") (auto simp: fresh_upstream_def)
  have p: "pred_option (ph_available now) (up_passiveHealth u)"
    using assms(2) by (cases "up_passiveHealth u") (auto simp: fresh_upstream_def ph_available_def)
  have c: "cb_allow now c = (True, c)" if "up_circuitBreaker u = Some c" for c
    using that assms by (intro cb_allow_closed)
      (auto simp: fresh_upstream_def up_inv_def cb_inv_def cb_open_ok_def cb_halfOpen_ok_def)
  from a p c show ?thesis
    by (cases "up_circuitBreaker u") (simp_all add: tryAcquire_cases)
qed

lemma buildUpstream_iff:
  "(\<exists>u. buildUpstream url_parse options opt i = Inr u) \<longleftrightarrow> usable_url url_parse (uo_URL opt)"
proof
  assume "\<exists>u. buildUpstream url_parse options opt i = Inr u"
  then show "usable_url url_parse (uo_URL opt)"
    by (auto simp: buildUpstream_def usable_url_def Let_def split: sum.splits if_splits)
next
  assume ok: "usable_url url_parse (uo_URL opt)"
  let ?uid = "if trim_space (uo_ID opt) = '''' then ''upstream-'' @ itoa (int i + 1) else trim_space (uo_ID opt)"
  obtain c where "newActiveHealthChecker url_parse (po_RouteID options) ?uid (uo_URL opt)
      (po_ActiveHealth options) = Inr c"
    using newActiveHealthChecker_usable [OF ok] by blast
  with ok show "\<exists>u. buildUpstream url_parse options opt i = Inr u"
    by (auto simp: buildUpstream_def usable_url_def Let_def split: sum.splits)
qed

lemma buildUpstream_fresh:
  assumes "buildUpstream url_parse options opt i = Inr u" and "limits_fit options"
  shows "up_inv u \<and> fresh_upstream u \<and> url_parse (uo_URL opt) = Inr (up_url u) \<and>
    (up_activeHealth u \<noteq> None \<longleftrightarrow> aho_Enabled (po_ActiveHealth options))"
proof -
  let ?uid = "if trim_space (uo_ID opt) = '''' then ''upstream-'' @ itoa (int i + 1) else trim_space (uo_ID opt)"
  have ok: "usable_url url_parse (uo_URL opt)"
    using assms(1) buildUpstream_iff by blast
  obtain v where v: "url_parse (uo_URL opt) = Inr v" "url_Scheme v \<noteq> ''''" "url_Host v \<noteq> ''''"
    using ok by (auto simp: usable_url_def split: sum.splits)
  obtain c where c: "newActiveHealthChecker url_parse (po_RouteID options) ?uid (uo_URL opt)
      (po_ActiveHealth options) = Inr c"
    and c2: "c \<noteq> None \<longleftrightarrow> aho_Enabled (po_ActiveHealth options)"
    and c3: "\<forall>k. c = Some k \<longrightarrow> \<not> hc_checked k \<and> hc_started k \<and> \<not> hc_done k"
    using newActiveHealthChecker_usable [OF ok, of "po_RouteID options" ?uid "po_ActiveHealth options"]
    by (elim exE conjE)
  let ?p = "newPassiveHealthState (po_RouteID options) ?uid (po_PassiveHealth options)"
  let ?b = "newCircuitBreakerState (po_RouteID options) ?uid (po_CircuitBreaker options)"
  have u: "u = \<lparr>up_id = ?uid, up_url = v, up_activeHealth = c, up_passiveHealth = ?p, up_circuitBreaker = ?b\<rparr>"
    using assms(1) v c by (simp add: buildUpstream_def Let_def)
  have "\<forall>p. ?p = Some p \<longrightarrow> ph_inv p \<and> \<not> ph_unhealthy p"
    using assms(2) ph_inv_new ph_new_fields(4) unfolding limits_fit_def by blast
  moreover have "\<forall>b. ?b = Some b \<longrightarrow> cb_inv b \<and> cb_state b = circuitBreakerStateClosed"
    using assms(2) cb_inv_new cb_new_fields(4) unfolding limits_fit_def by blast
  moreover have "?uid \<noteq> ''''" by simp
  ultimately show ?thesis
    using v c2 c3 unfolding u up_inv_def fresh_upstream_def by (auto simp: option.pred_set)
qed

lemma buildUpstream_guards:
  "buildUpstream url_parse options opt i = Inr u \<Longrightarrow>
    (up_circuitBreaker u \<noteq> None \<longleftrightarrow> cbo_Enabled (po_CircuitBreaker options)) \<and>
    (up_passiveHealth u \<noteq> None \<longleftrightarrow> pho_Enabled (po_PassiveHealth options))"
  by (auto simp: buildUpstream_def Let_def res_bind_Inr newCircuitBreakerState_def newPassiveHealthState_def
      split: sum.splits if_splits)

lemma buildUpstreams_eq:
  "buildUpstreams url_parse options =
     (if effective_upstreams options = [] then Inl (RouteRequiresUpstreams (po_RouteID options))
      else res_map (\<lambda>(i, opt). buildUpstream url_parse options opt i)
        (enumerate 0 (effective_upstreams options)))"
  by (simp add: buildUpstreams_def effective_upstreams_def Let_def)

lemma buildUpstreams_Inr:
  assumes "buildUpstreams url_parse options = Inr ups"
  shows "effective_upstreams options \<noteq> []"
    and "list_all2 (\<lambda>(i, opt) u. buildUpstream url_parse options opt i = Inr u)
      (enumerate 0 (effective_upstreams options)) ups"
  using assms by (auto simp: buildUpstreams_eq res_map_Inr split_def split: if_splits)

lemma buildUpstreams_nth:
  assumes "buildUpstreams url_parse options = Inr ups"
  shows "length ups = length (effective_upstreams options)"
    and "i < length ups \<Longrightarrow>
      buildUpstream url_parse options (effective_upstreams options ! i) i = Inr (ups ! i)"
  using buildUpstreams_Inr(2) [OF assms] by (auto simp: list_all2_conv_all_nth nth_enumerate_eq)

lemma newProxyHandler_Inr:
  "newProxyHandler url_parse options = Inr h \<longleftrightarrow>
    (\<exists>ups. buildUpstreams url_parse options = Inr ups \<and>
      h = \<lparr>h_routeID = po_RouteID options, h_stripPrefix = po_StripPrefix options,
            h_upstreams = ups, h_nextIndex = 0\<rparr>)"
  by (auto simp: newProxyHandler_def res_bind_Inr)

lemma newProxyHandler_upstreams:
  assumes "newProxyHandler url_parse options = Inr h" and "limits_fit options"
  shows "h_upstreams h \<noteq> []" and "list_all up_inv (h_upstreams h)"
    and "list_all fresh_upstream (h_upstreams h)" and "h_nextIndex h = 0"
    and "map (Inr \<circ> up_url) (h_upstreams h) = map (url_parse \<circ> uo_URL) (effective_upstreams options)"
proof -
  obtain ups where b: "buildUpstreams url_parse options = Inr ups"
    and h: "h_upstreams h = ups" "h_nextIndex h = 0"
    using assms(1) by (auto simp: newProxyHandler_Inr)
  have len: "length ups = length (effective_upstreams options)" by (rule buildUpstreams_nth(1) [OF b])
  have each: "up_inv (ups ! i) \<and> fresh_upstream (ups ! i) \<and>
      url_parse (uo_URL (effective_upstreams options ! i)) = Inr (up_url (ups ! i))"
    if "i < length ups" for i
    using buildUpstream_fresh [OF buildUpstreams_nth(2) [OF b that] assms(2)] by blast
  show "h_upstreams h \<noteq> []" using len buildUpstreams_Inr(1) [OF b] h by auto
  show "list_all up_inv (h_upstreams h)" "list_all fresh_upstream (h_upstreams h)"
    using each h by (simp_all add: list_all_length)
  show "map (Inr \<circ> up_url) (h_upstreams h) = map (url_parse \<circ> uo_URL) (effective_upstreams options)"
    using each len h by (intro nth_equalityI) simp_all
  show "h_nextIndex h = 0" by (rule h(2))
qed

lemma newProxyHandler_inv:
  "newProxyHandler url_parse options = Inr h \<Longrightarrow> limits_fit options \<Longrightarrow> h_inv h \<and> h_upstreams h \<noteq> []"
  using newProxyHandler_upstreams by (simp add: h_inv_def)

lemma newProxyHandler_iff:
  "(\<exists>h. newProxyHandler url_parse options = Inr h) \<longleftrightarrow>
    effective_upstreams options \<noteq> [] \<and>
    list_all (\<lambda>opt. usable_url url_parse (uo_URL opt)) (effective_upstreams options)"
proof
  assume "\<exists>h. newProxyHandler url_parse options = Inr h"
  then obtain ups where b: "buildUpstreams url_parse options = Inr ups"
    by (auto simp: newProxyHandler_Inr)
  then show "effective_upstreams options \<noteq> [] \<and>
      list_all (\<lambda>opt. usable_url url_parse (uo_URL opt)) (effective_upstreams options)"
    using buildUpstreams_Inr(1) [OF b] buildUpstreams_nth [OF b] buildUpstream_iff
    by (auto simp: list_all_length) blast
next
  assume ok: "effective_upstreams options \<noteq> [] \<and>
    list_all (\<lambda>opt. usable_url url_parse (uo_URL opt)) (effective_upstreams options)"
  have "\<exists>ups. res_map (\<lambda>(i, opt). buildUpstream url_parse options opt i)
      (enumerate 0 (effective_upstreams options)) = Inr ups"
    using ok by (intro res_map_total)
      (auto simp: in_set_enumerate_eq list_all_length buildUpstream_iff)
  with ok show "\<exists>h. newProxyHandler url_parse options = Inr h"
    by (auto simp: newProxyHandler_Inr buildUpstreams_eq)
qed

text \<open>
  Which routes can be built: \<^verbatim>\<open>New\<close> succeeds exactly if there is an upstream (a bare target
  counts as one) and every upstream URL parses to one with a scheme and a host; the active checks
  and the limits can never make it fail, whatever their options.
\<close>

theorem newProxyHandler_succeeds_iff:
  "(\<exists>h. newProxyHandler url_parse options = Inr h) \<longleftrightarrow>
    effective_upstreams options \<noteq> [] \<and>
    list_all (\<lambda>opt. usable_url url_parse (uo_URL opt)) (effective_upstreams options)"
  by (rule newProxyHandler_iff)

text \<open>
  A new route is open: its upstreams are those of the options in their order, its checks run,
  and its first request goes to the first upstream whatever guards are enabled (an unchecked
  backend counts as available, no threshold has been reached).
\<close>

theorem newProxyHandler_first_request:
  assumes "newProxyHandler url_parse options = Inr h" and "limits_fit options"
    and "length (effective_upstreams options) < 2 ^ 64"
  shows "map (Inr \<circ> up_url) (h_upstreams h) = map (url_parse \<circ> uo_URL) (effective_upstreams options)
    \<and> selectUpstream now h = (Some 0, h\<lparr>h_nextIndex := 1\<rparr>)"
proof -
  note ups = newProxyHandler_upstreams [OF assms(1,2)]
  have len: "length (h_upstreams h) = length (effective_upstreams options)"
    using ups(5) by (metis length_map)
  have "tryAcquireUpstream (now 0) (h_upstreams h ! 0) = (True, h_upstreams h ! 0)"
    using ups by (intro fresh_admits) (simp_all add: list_all_length)
  moreover have "scan_index 0 (length (h_upstreams h)) 0 = 0"
    using assms(3) len ups(1) by (simp add: scan_index_def unat_mod unat_small)
  ultimately have "selectUpstream now h = (Some 0, h\<lparr>h_nextIndex := 1\<rparr>)"
    using ups(1,4) by (simp add: selectUpstream_def upt_conv_Cons Let_def)
  with ups(5) show ?thesis by blast
qed

definition demo_proxy_options :: proxyOptions where
  "demo_proxy_options = \<lparr>po_RouteID = ''demo'', po_Target = '''',
     po_Upstreams = [\<lparr>uo_ID = ''backend-1'', uo_URL = ''http://localhost:8081''\<rparr>,
       \<lparr>uo_ID = '''', uo_URL = ''http://localhost:8081''\<rparr>],
     po_StripPrefix = ''/api'',
     po_ActiveHealth = \<lparr>aho_Enabled = True, aho_Path = '''', aho_Interval = 3 * second, aho_Timeout = 0\<rparr>,
     po_PassiveHealth = demo_ph_options, po_CircuitBreaker = demo_cb_options\<rparr>"

lemma demo_limits_fit: "limits_fit demo_proxy_options"
  by (simp add: limits_fit_def demo_proxy_options_def demo_ph_options_def demo_cb_options_def is_int64_def)

theorem newProxyHandler_first_request_witness:
  "\<exists>h. newProxyHandler (\<lambda>_. Inr demo_url) demo_proxy_options = Inr h \<and>
    selectUpstream (\<lambda>_. 5) h = (Some 0, h\<lparr>h_nextIndex := 1\<rparr>)"
proof -
  have "\<exists>h. newProxyHandler (\<lambda>_. Inr demo_url) demo_proxy_options = Inr h"
    by (simp add: newProxyHandler_iff usable_url_def effective_upstreams_def demo_proxy_options_def demo_url_def)
  then obtain h where h: "newProxyHandler (\<lambda>_. Inr demo_url) demo_proxy_options = Inr h" ..
  have "length (effective_upstreams demo_proxy_options) < 2 ^ 64"
    by (simp add: effective_upstreams_def demo_proxy_options_def)
  from newProxyHandler_first_request [OF h demo_limits_fit this, of "\<lambda>_. 5"] h show ?thesis by blast
qed

end
