(* ===== verification/Proxy_Handler.thy ===== *)
theory Proxy_Handler
  imports Upstream
begin

text \<open>
  \<^verbatim>\<open>internal/proxy/handler.go\<close> and \<^verbatim>\<open>proxy_error.go\<close>: one exchange of a route, from the selection of
  an upstream over the rewritten request to the response or the error that is reported to the
  upstream's guards. \<^verbatim>\<open>httputil.ReverseProxy\<close> calls the three hooks of the handler; the order of
  the calls is that of its \<^verbatim>\<open>ServeHTTP\<close>. Log lines are not modelled.
\<close>

section \<open>Errors\<close>

text \<open>
  A Go error as \<^verbatim>\<open>errors.Is\<close> and \<^verbatim>\<open>errors.As\<close> see it: its message, whether it is (or says it is)
  \<^verbatim>\<open>context.DeadlineExceeded\<close>, what \<^verbatim>\<open>Timeout()\<close> says if it is a \<^verbatim>\<open>net.Error\<close>, and what it wraps.
\<close>

datatype go_error = GoError string bool "bool option" "go_error list"

fun error_text :: "go_error \<Rightarrow> string" where
  "error_text (GoError msg d t es) = msg"

fun error_tree :: "go_error \<Rightarrow> go_error list" where
  "error_tree (GoError msg d t es) = GoError msg d t es # concat (map error_tree es)"

fun is_deadline :: "go_error \<Rightarrow> bool" where
  "is_deadline (GoError msg d t es) = d"

fun net_timeout :: "go_error \<Rightarrow> bool option" where
  "net_timeout (GoError msg d t es) = t"

definition isTimeoutError :: "go_error \<Rightarrow> bool" where
  "isTimeoutError err =
     (if list_ex is_deadline (error_tree err) then True
      else case find (\<lambda>e. net_timeout e \<noteq> None) (error_tree err) of
        None \<Rightarrow> False
      | Some netErr \<Rightarrow> (if net_timeout netErr = Some True then True else False))"

definition statusCodeFromProxyError :: "go_error \<Rightarrow> int" where
  "statusCodeFromProxyError err = (if isTimeoutError err then 504 else 502)"

section \<open>The rewritten request\<close>

definition gatewayName :: string where
  "gatewayName = ''go-mini-gateway''"

definition rewritePath :: "string \<Rightarrow> string \<Rightarrow> string" where
  "rewritePath path0 stripPrefix =
     (let path = (if stripPrefix \<noteq> '''' then trim_prefix path0 stripPrefix else path0)
      in if path = '''' then ''/''
         else if \<not> has_prefix path ''/'' then ''/'' @ path
         else path)"

text \<open>\<open>nanos\<close> is the clock \<^verbatim>\<open>time.Now().UnixNano()\<close> reads.\<close>

definition traceIDFromRequest :: "go_time \<Rightarrow> http_request \<Rightarrow> string" where
  "traceIDFromRequest nanos r =
     (let traceID = header_get ''X-Trace-ID'' (rq_Header r)
      in if traceID = '''' then ''trace-'' @ itoa nanos else traceID)"

text \<open>\<^verbatim>\<open>net.SplitHostPort\<close>, its host only.\<close>

definition last_index_byte :: "string \<Rightarrow> char \<Rightarrow> nat option" where
  "last_index_byte s c = map_option (\<lambda>i. length s - 1 - i) (index_byte (rev s) c)"

definition split_host :: "string \<Rightarrow> string option" where
  "split_host s =
     (case last_index_byte s (CHR '':'') of
        None \<Rightarrow> None
      | Some i \<Rightarrow>
          (case (if hd s = CHR ''[''
                 then (case index_byte s (CHR '']'') of
                         None \<Rightarrow> None
                       | Some e \<Rightarrow> if e + 1 = i then Some (take (e - 1) (drop 1 s), 1, e + 1) else None)
                 else if CHR '':'' \<in> set (take i s) then None else Some (take i s, 0, 0)) of
             None \<Rightarrow> None
           | Some (host, j, k) \<Rightarrow>
               if CHR ''['' \<in> set (drop j s) \<or> CHR '']'' \<in> set (drop k s) then None else Some host))"

fun join_with :: "string \<Rightarrow> string list \<Rightarrow> string" where
  "join_with sep [] = ''''"
| "join_with sep [x] = x"
| "join_with sep (x # y # xs) = x @ sep @ join_with sep (y # xs)"

text \<open>\<^verbatim>\<open>ProxyRequest.SetXForwarded\<close>\<close>

definition set_x_forwarded :: "http_request \<Rightarrow> header \<Rightarrow> header" where
  "set_x_forwarded inreq h =
     (let h1 = (case split_host (rq_RemoteAddr inreq) of
                  Some clientIP \<Rightarrow>
                    (let prior = h (header_key ''X-Forwarded-For'')
                     in header_set ''X-Forwarded-For''
                          (if prior \<noteq> [] then join_with '', '' prior @ '', '' @ clientIP else clientIP) h)
                | None \<Rightarrow> header_del ''X-Forwarded-For'' h);
          h2 = header_set ''X-Forwarded-Host'' (rq_Host inreq) h1
      in header_set ''X-Forwarded-Proto'' (if rq_TLS inreq then ''https'' else ''http'') h2)"

text \<open>
  \<^verbatim>\<open>ProxyRequest.SetURL\<close>. The path it joins is not modelled: \<^verbatim>\<open>rewriteRequest\<close> overwrites both
  forms of it in the next two statements.
\<close>

definition set_url :: "url \<Rightarrow> http_request \<Rightarrow> http_request" where
  "set_url target out =
     out\<lparr>rq_Host := '''',
       rq_URL := (rq_URL out)\<lparr>url_Scheme := url_Scheme target, url_Host := url_Host target,
         url_RawQuery :=
           (if url_RawQuery target = '''' \<or> url_RawQuery (rq_URL out) = ''''
            then url_RawQuery target @ url_RawQuery (rq_URL out)
            else url_RawQuery target @ ''&'' @ url_RawQuery (rq_URL out))\<rparr>\<rparr>"

definition rewrite_to :: "go_time \<Rightarrow> proxyHandler \<Rightarrow> upstream \<Rightarrow> http_request \<Rightarrow> http_request \<Rightarrow> http_request" where
  "rewrite_to nanos h selected inreq out =
     (let out1 = set_url (up_url selected) out;
          out2 = out1\<lparr>rq_URL := (rq_URL out1)\<lparr>
            url_Path := rewritePath (url_Path (rq_URL inreq)) (h_stripPrefix h), url_RawPath := ''''\<rparr>\<rparr>
      in out2\<lparr>rq_Header :=
           header_set ''X-Trace-ID'' (traceIDFromRequest nanos inreq)
             (header_set ''X-Gateway-Upstream'' (up_id selected)
               (header_set ''X-Gateway-Route'' (h_routeID h)
                 (header_set ''X-Gateway'' gatewayName
                   (set_x_forwarded inreq (rq_Header out2)))))\<rparr>)"

definition rewriteRequest ::
    "(nat \<Rightarrow> go_time) \<Rightarrow> go_time \<Rightarrow> proxyHandler \<Rightarrow> http_request \<Rightarrow> http_request \<Rightarrow> proxyHandler \<times> http_request" where
  "rewriteRequest now nanos h inreq out =
     (let (selected, h') = (case ctx_upstream (rq_Context inreq) of
                              Some k \<Rightarrow> (Some k, h)
                            | None \<Rightarrow> selectUpstream now h)
      in case selected of
           None \<Rightarrow> (h', out)
         | Some k \<Rightarrow> (h', rewrite_to nanos h' (h_upstreams h' ! k) inreq out))"

section \<open>The handler\<close>

definition upd_upstream :: "nat \<Rightarrow> (upstream \<Rightarrow> upstream) \<Rightarrow> proxyHandler \<Rightarrow> proxyHandler" where
  "upd_upstream k f h = h\<lparr>h_upstreams := (h_upstreams h)[k := f (h_upstreams h ! k)]\<rparr>"

text \<open>
  \<^verbatim>\<open>ServeHTTP\<close> up to the reverse proxy: either the error page is written, or the request goes on
  with the selected upstream in its context.
\<close>

definition serve_select ::
    "(nat \<Rightarrow> go_time) \<Rightarrow> http_request \<Rightarrow> proxyHandler \<Rightarrow> writer \<Rightarrow> proxyHandler \<times> (writer + http_request)" where
  "serve_select now r h w =
     (let (selected, h') = selectUpstream now h
      in case selected of
           None \<Rightarrow>
             (h', Inl (http_Error ''no available upstream'' 503
                (edit_header (header_set ''X-Gateway-Route'' (h_routeID h))
                  (edit_header (header_set ''X-Gateway'' gatewayName) w))))
         | Some k \<Rightarrow> (h', Inr (r\<lparr>rq_Context := (rq_Context r)\<lparr>ctx_upstream := Some k\<rparr>\<rparr>)))"

record http_response =
  rs_StatusCode :: int
  rs_Header :: header
  rs_Body :: "string list"
  rs_Request :: http_request

definition modifyResponse :: "go_time \<Rightarrow> proxyHandler \<Rightarrow> http_response \<Rightarrow> proxyHandler \<times> http_response" where
  "modifyResponse now h resp =
     (let selected = ctx_upstream (rq_Context (rs_Request resp));
          h' = (case selected of
                  None \<Rightarrow> h
                | Some k \<Rightarrow>
                    if rs_StatusCode resp \<ge> 500
                    then upd_upstream k (recordFailure now (''backend status='' @ itoa (rs_StatusCode resp))) h
                    else upd_upstream k (recordSuccess now) h);
          hd1 = header_set ''X-Gateway-Route'' (h_routeID h) (header_set ''X-Gateway'' gatewayName (rs_Header resp));
          hd2 = (case selected of
                   Some k \<Rightarrow> header_set ''X-Gateway-Upstream'' (up_id (h_upstreams h' ! k)) hd1
                 | None \<Rightarrow>
                     (let upstreamID = header_get ''X-Gateway-Upstream'' (rq_Header (rs_Request resp))
                      in if upstreamID \<noteq> '''' then header_set ''X-Gateway-Upstream'' upstreamID hd1 else hd1))
      in (h', resp\<lparr>rs_Header := hd2\<rparr>))"

definition handleProxyError ::
    "go_time \<Rightarrow> http_request \<Rightarrow> go_error \<Rightarrow> proxyHandler \<Rightarrow> writer \<Rightarrow> proxyHandler \<times> writer" where
  "handleProxyError now r err h w =
     (let h' = (case ctx_upstream (rq_Context r) of
                  None \<Rightarrow> h
                | Some k \<Rightarrow> upd_upstream k (recordFailure now (error_text err)) h);
          statusCode = statusCodeFromProxyError err
      in (h', http_Error (StatusText statusCode) statusCode w))"

section \<open>The reverse proxy around the hooks\<close>

text \<open>
  What the backend call gives: informational statuses first, then a response (its headers without
  the hop-by-hop ones, its body in the pieces that are copied) or an error.
\<close>

datatype reply = Reply int header "string list" | Broken go_error

text \<open>An informational status is passed on at once, and the header map is cleared after it.\<close>

definition inform :: "int \<Rightarrow> writer \<Rightarrow> writer" where
  "inform status w = edit_header (\<lambda>_ _. []) (w_WriteHeader status w)"

definition copy_header :: "header \<Rightarrow> header \<Rightarrow> header" where
  "copy_header src dst = (\<lambda>k. dst k @ src k)"

definition deliver :: "http_response \<Rightarrow> writer \<Rightarrow> writer" where
  "deliver resp w =
     fold w_Write (rs_Body resp)
       (w_WriteHeader (rs_StatusCode resp) (edit_header (copy_header (rs_Header resp)) w))"

definition serve_reply ::
    "go_time \<Rightarrow> http_request \<Rightarrow> int list \<Rightarrow> reply \<Rightarrow> proxyHandler \<Rightarrow> writer \<Rightarrow> proxyHandler \<times> writer" where
  "serve_reply now out informs reply h w =
     (let w1 = fold inform informs w
      in case reply of
           Broken err \<Rightarrow> handleProxyError now out err h w1
         | Reply status hdr body \<Rightarrow>
             (let (h', resp) = modifyResponse now h
                \<lparr>rs_StatusCode = status, rs_Header = hdr, rs_Body = body, rs_Request = out\<rparr>
              in (h', deliver resp w1)))"

text \<open>
  A whole exchange with nothing else in between. \<open>prepare\<close> is what \<^verbatim>\<open>ReverseProxy\<close> does to a
  request before it calls the rewrite hook (it clones it and drops the hop-by-hop and the
  forwarding headers), \<open>backend\<close> the call to the backend.
\<close>

definition proxy_ServeHTTP ::
    "(http_request \<Rightarrow> http_request) \<Rightarrow> (http_request \<Rightarrow> int list \<times> reply) \<Rightarrow> (nat \<Rightarrow> go_time) \<Rightarrow> go_time \<Rightarrow>
     go_time \<Rightarrow> http_request \<Rightarrow> proxyHandler \<Rightarrow> writer \<Rightarrow> proxyHandler \<times> writer" where
  "proxy_ServeHTTP prepare backend now nanos later r h w =
     (case serve_select now r h w of
        (h1, Inl w1) \<Rightarrow> (h1, w1)
      | (h1, Inr inreq) \<Rightarrow>
          (let (h2, out) = rewriteRequest now nanos h1 inreq (prepare inreq);
               (informs, reply) = backend out
           in serve_reply later out informs reply h2 w))"

section \<open>Facts about the pieces\<close>

lemma upd_upstream_frame [frame]:
  "h_routeID (upd_upstream k f h) = h_routeID h" "h_stripPrefix (upd_upstream k f h) = h_stripPrefix h"
  "h_nextIndex (upd_upstream k f h) = h_nextIndex h"
  "length (h_upstreams (upd_upstream k f h)) = length (h_upstreams h)"
  by (simp_all add: upd_upstream_def)

lemma upd_upstream_nth:
  "k < length (h_upstreams h) \<Longrightarrow>
    h_upstreams (upd_upstream k f h) ! j = (if j = k then f (h_upstreams h ! k) else h_upstreams h ! j)"
  by (simp add: upd_upstream_def nth_list_update_split)

lemma upd_upstream_inv [step_inv]:
  "h_inv h \<Longrightarrow> (\<And>u. up_inv u \<Longrightarrow> up_inv (f u)) \<Longrightarrow> h_inv (upd_upstream k f h)"
  by (cases "k < length (h_upstreams h)")
     (auto simp: h_inv_def upd_upstream_def list_all_length nth_list_update_split list_update_beyond)

lemma rewritePath_eq:
  "rewritePath p s =
    (let q = trim_prefix p s in if has_prefix q ''/'' then q else ''/'' @ q)"
  by (auto simp: rewritePath_def Let_def trim_prefix_def has_prefix_Cons1)

lemma fold_Write_conn:
  "written w \<Longrightarrow> the_conn (fold w_Write body w) = (the_conn w)\<lparr>cn_body := cn_body (the_conn w) @ concat body\<rparr>
    \<and> written (fold w_Write body w)"
  by (induction body arbitrary: w) (simp_all add: the_conn_Write written_Write)

lemma deliver_conn:
  assumes "untouched w" and "\<not> informational (rs_StatusCode resp)"
  shows "the_conn (deliver resp w) =
    (let hd = copy_header (rs_Header resp) (cn_header (the_conn w))
     in (the_conn w)\<lparr>cn_header := hd, cn_status := Some (rs_StatusCode resp), cn_sent := hd,
          cn_body := concat (rs_Body resp)\<rparr>)"
proof -
  let ?w = "edit_header (copy_header (rs_Header resp)) w"
  have u: "untouched ?w" using assms(1) by simp
  have "the_conn (deliver resp w) =
      (conn_WriteHeader (rs_StatusCode resp) (the_conn ?w))\<lparr>cn_body :=
        cn_body (conn_WriteHeader (rs_StatusCode resp) (the_conn ?w)) @ concat (rs_Body resp)\<rparr>"
    unfolding deliver_def using fold_Write_conn [OF written_WriteHeader [OF u assms(2)], of "rs_Body resp"]
    by (simp only: the_conn_WriteHeader [OF u])
  then show ?thesis
    using untouched_conn [OF assms(1)] assms(2) by (simp add: conn_WriteHeader_def Let_def)
qed

text \<open>An error wrapped in further layers, each with or without a \<^verbatim>\<open>Timeout()\<close> of its own.\<close>

fun wrap :: "(string \<times> bool option) list \<Rightarrow> go_error \<Rightarrow> go_error" where
  "wrap [] e = e"
| "wrap ((msg, t) # ls) e = GoError msg False t [wrap ls e]"

lemma wrapped_deadline: "list_ex is_deadline (error_tree e) \<Longrightarrow> list_ex is_deadline (error_tree (wrap ls e))"
  by (induction ls e rule: wrap.induct) simp_all

lemma status_502_504: "statusCodeFromProxyError e = 502 \<or> statusCodeFromProxyError e = 504"
  by (simp add: statusCodeFromProxyError_def)

text \<open>The headers a client sees, whatever the connection's header map held before.\<close>

lemma error_header_get:
  "header_key k \<noteq> ''Content-Type'' \<Longrightarrow> header_key k \<noteq> ''Content-Length'' \<Longrightarrow>
    header_key k \<noteq> ''X-Content-Type-Options'' \<Longrightarrow> header_get k (error_header h) = header_get k h"
  by (simp add: error_header_def header_get_def header_set_def header_del_def)

lemma select_refused:
  assumes "h_inv h" and "no_wrap h" and "list_all (\<lambda>u. \<forall>i. \<not> fst (tryAcquireUpstream (now i) u)) (h_upstreams h)"
  shows "selectUpstream now h = (None, h\<lparr>h_nextIndex := h_nextIndex h + 1\<rparr>)"
proof -
  have "find (\<lambda>(i, k). fst (tryAcquireUpstream (now i) (h_upstreams h ! k)))
      (rr_order (unat (h_nextIndex h)) (length (h_upstreams h))) = None"
    using assms(2,3) unfolding find_None_iff
    by (auto simp: rr_order_def list_all_length no_wrap_def)
  then show ?thesis
    using select_pick [of h now] assms(1,2) by (simp add: no_wrap_def pick_def)
qed

section \<open>Properties of an exchange\<close>

text \<open>
  The rewritten path always starts with a slash; it is what is left of the path once the strip
  prefix has been cut off the front, if it stands there; and a route that strips its own prefix
  hands on exactly the rest: for a prefix without a final slash, \<open>prefix @ rest\<close> becomes \<open>rest\<close>.
\<close>

theorem rewritePath_correct:
  "has_prefix (rewritePath p s) ''/''
   \<and> (rewritePath p s = trim_prefix p s \<or> rewritePath p s = ''/'' @ trim_prefix p s)
   \<and> rewritePath (s @ ''/'' @ rest) s = ''/'' @ rest \<and> rewritePath s s = ''/''"
proof -
  have "rewritePath s s = ''/''"
    using trim_prefix_append [of s "[]"] by (simp add: rewritePath_eq has_prefix_Cons1)
  then show ?thesis by (auto simp: rewritePath_eq Let_def has_prefix_Cons1)
qed

text \<open>
  With no upstream to send the request to, the client gets the 503 page with the gateway's
  headers whatever the backends would do, and no guard is touched; only the counter moves.
\<close>

theorem exchange_no_upstream:
  assumes "h_inv h" and "no_wrap h" and "untouched w"
    and "list_all (\<lambda>u. \<forall>i. \<not> fst (tryAcquireUpstream (now i) u)) (h_upstreams h)"
  shows "\<exists>w'. proxy_ServeHTTP prepare backend now nanos later r h w =
      (h\<lparr>h_nextIndex := h_nextIndex h + 1\<rparr>, w')
    \<and> cn_status (the_conn w') = Some 503 \<and> cn_body (the_conn w') = ''no available upstream'' @ [byte 10]
    \<and> header_get ''X-Gateway'' (cn_sent (the_conn w')) = gatewayName
    \<and> header_get ''X-Gateway-Route'' (cn_sent (the_conn w')) = h_routeID h"
  using assms(3) select_refused [OF assms(1,2,4)]
  by (simp add: proxy_ServeHTTP_def serve_select_def http_Error_conn informational_def error_header_get
      header_set_other)

definition down_handler :: proxyHandler where
  "down_handler = \<lparr>h_routeID = ''demo'', h_stripPrefix = ''/api'',
     h_upstreams = [down_upstream ''b1''], h_nextIndex = 4\<rparr>"

definition demo_request :: http_request where
  "demo_request = \<lparr>rq_Method = ''GET'', rq_URL = demo_url\<lparr>url_Path := ''/api/items''\<rparr>, rq_Host = ''gw'',
     rq_RemoteAddr = ''10.0.0.7:5123'', rq_TLS = False, rq_Header = (\<lambda>_. []),
     rq_Context = \<lparr>ctx_upstream = Some 0, ctx_routeID = Some ''demo'', ctx_deadline = None\<rparr>\<rparr>"

definition deadline_exceeded :: go_error where
  "deadline_exceeded = GoError ''context deadline exceeded'' True (Some True) []"

theorem exchange_no_upstream_witness:
  "\<exists>w'. proxy_ServeHTTP (\<lambda>r. r) (\<lambda>_. ([], Broken deadline_exceeded)) (\<lambda>_. 5) 1 6 demo_request down_handler (Conn new_conn) =
      (down_handler\<lparr>h_nextIndex := 5\<rparr>, w') \<and> cn_status (the_conn w') = Some 503"
proof -
  have inv: "h_inv down_handler"
    by (simp add: down_handler_def h_inv_def up_inv_def down_upstream_def plain_upstream_def)
  have nw: "no_wrap down_handler" by (simp add: no_wrap_def down_handler_def)
  have refuse: "list_all (\<lambda>u. \<forall>i. \<not> fst (tryAcquireUpstream ((\<lambda>_. 5) i) u)) (h_upstreams down_handler)"
    by (simp add: down_handler_def)
  have "h_nextIndex down_handler + 1 = 5" by (simp add: down_handler_def)
  then show ?thesis
    using exchange_no_upstream [OF inv nw untouched_new(2) refuse, of "\<lambda>r. r" "\<lambda>_. ([], Broken deadline_exceeded)" 1 6 demo_request] by metis
qed

lemma proxy_selected:
  assumes sel: "selectUpstream now h = (Some k, h')"
    and prep: "\<And>q. rq_Context (prepare q) = rq_Context q"
  obtains out where "ctx_upstream (rq_Context out) = Some k"
    and "out = rewrite_to nanos h' (h_upstreams h' ! k)
      (r\<lparr>rq_Context := (rq_Context r)\<lparr>ctx_upstream := Some k\<rparr>\<rparr>)
      (prepare (r\<lparr>rq_Context := (rq_Context r)\<lparr>ctx_upstream := Some k\<rparr>\<rparr>))"
    and "proxy_ServeHTTP prepare backend now nanos later r h w =
      serve_reply later out (fst (backend out)) (snd (backend out)) h' w"
  using sel prep
  by (simp add: proxy_ServeHTTP_def serve_select_def rewriteRequest_def rewrite_to_def set_url_def
      Let_def split_beta)

lemma selectUpstream_frame [frame]:
  "h_routeID (snd (selectUpstream now h)) = h_routeID h"
  "h_stripPrefix (snd (selectUpstream now h)) = h_stripPrefix h"
  by (simp_all add: selectUpstream_def Let_def split_beta)

lemma scan_length [frame]: "length (snd (scan now start ups is)) = length ups"
  by (induction "is" arbitrary: ups) (simp_all add: Let_def split_beta)

lemma selectUpstream_length [frame]:
  "length (h_upstreams (snd (selectUpstream now h))) = length (h_upstreams h)"
  by (simp add: selectUpstream_def Let_def split_beta frame)

lemma reply_delivered:
  assumes "ctx_upstream (rq_Context out) = Some k" and "k < length (h_upstreams h)" and "untouched w"
    and "\<not> informational status" and "cn_header (the_conn w) = (\<lambda>_. [])"
  shows "\<exists>w'. serve_reply later out [] (Reply status hdr body) h w =
      (upd_upstream k (if status \<ge> 500 then recordFailure later (''backend status='' @ itoa status)
                       else recordSuccess later) h, w')
    \<and> cn_status (the_conn w') = Some status \<and> cn_body (the_conn w') = concat body
    \<and> cn_sent (the_conn w') = hdr(''X-Gateway'' := [gatewayName], ''X-Gateway-Route'' := [h_routeID h],
        ''X-Gateway-Upstream'' := [up_id (h_upstreams h ! k)])"
proof -
  have "cn_status (the_conn (deliver resp w)) = Some status \<and> cn_body (the_conn (deliver resp w)) = concat body
      \<and> cn_sent (the_conn (deliver resp w)) = rs_Header resp"
    if "rs_StatusCode resp = status" "rs_Body resp = body" for resp :: http_response
    using that deliver_conn [OF assms(3), of resp] assms(4,5) by (simp add: Let_def copy_header_def)
  then show ?thesis
    using assms(1,2)
    by (auto simp: serve_reply_def modifyResponse_def Let_def header_set_def fun_upd_twist upd_upstream_nth frame
        recordFailure_def recordSuccess_def)
qed

text \<open>
  C14: A backend's answer reaches the client as it is, below the gateway's headers, and is credited
  to the upstream that gave it and to no other: a status of 500 or more is a failure with that
  status as the reason, any other status a success. (For a client that has been sent nothing, an
  answer without informational statuses before it, and an answer that does not itself carry the
  gateway's headers.)
\<close>

theorem exchange_reply:
  assumes "selectUpstream now h = (Some k, h')" and "k < length (h_upstreams h)" and "untouched w"
    and "\<And>q. rq_Context (prepare q) = rq_Context q"
    and "\<And>q. backend q = ([], Reply status hdr body)" and "\<not> informational status"
    and "cn_header (the_conn w) = (\<lambda>_. [])"
  shows "\<exists>w'. proxy_ServeHTTP prepare backend now nanos later r h w =
      (upd_upstream k (if status \<ge> 500 then recordFailure later (''backend status='' @ itoa status)
                       else recordSuccess later) h', w')
    \<and> cn_status (the_conn w') = Some status \<and> cn_body (the_conn w') = concat body
    \<and> cn_sent (the_conn w') = hdr(''X-Gateway'' := [gatewayName], ''X-Gateway-Route'' := [h_routeID h],
        ''X-Gateway-Upstream'' := [up_id (h_upstreams h' ! k)])"
proof -
  obtain out where out: "ctx_upstream (rq_Context out) = Some k"
    "proxy_ServeHTTP prepare backend now nanos later r h w =
      serve_reply later out (fst (backend out)) (snd (backend out)) h' w"
    using proxy_selected [OF assms(1,4), where nanos = nanos and backend = backend and w = w and r = r] by metis
  have "h_routeID h' = h_routeID h" "k < length (h_upstreams h')"
    using selectUpstream_frame [of now h] selectUpstream_length [of now h] assms(1,2) by simp_all
  with reply_delivered [OF out(1) _ assms(3,6,7), of h'] show ?thesis unfolding out(2) by (simp add: assms(5))
qed

definition guarded_handler :: proxyHandler where
  "guarded_handler = \<lparr>h_routeID = ''demo'', h_stripPrefix = ''/api'',
     h_upstreams = [plain_upstream ''b1'', (plain_upstream ''b2'')\<lparr>up_circuitBreaker := Some demo_cb\<rparr>],
     h_nextIndex = 9\<rparr>"

lemma guarded_handler_select:
  "selectUpstream (\<lambda>_. 5) guarded_handler = (Some 1, guarded_handler\<lparr>h_nextIndex := 10\<rparr>)"
proof -
  have "scan_index 9 (Suc (Suc 0)) 0 = Suc 0" by (simp add: scan_index_def unat_mod)
  moreover have "cb_allow 5 demo_cb = (True, demo_cb)"
    using demo_cb_ok by (intro cb_allow_closed) auto
  ultimately show ?thesis
    by (simp add: guarded_handler_def selectUpstream_def tryAcquireUpstream_def plain_upstream_def upt_conv_Cons)
qed

theorem exchange_reply_witness:
  "\<exists>w'. proxy_ServeHTTP (\<lambda>r. r) (\<lambda>_. ([], Reply 503 (\<lambda>_. []) [''try '', ''later''])) (\<lambda>_. 5) 1 6 demo_request
      guarded_handler (Conn new_conn) =
      (upd_upstream 1 (recordFailure 6 ''backend status=503'') (guarded_handler\<lparr>h_nextIndex := 10\<rparr>), w')
    \<and> cn_status (the_conn w') = Some 503 \<and> cn_body (the_conn w') = ''try later''"
proof -
  have s: "''backend status='' @ itoa 503 = ''backend status=503''" by code_simp
  have k: "1 < length (h_upstreams guarded_handler)" by (simp add: guarded_handler_def)
  have c: "cn_header (the_conn (Conn new_conn)) = (\<lambda>_. [])" and i: "\<not> informational 503"
    by (simp_all add: informational_def)
  from exchange_reply [where prepare = "\<lambda>r. r" and backend = "\<lambda>_. ([], Reply 503 (\<lambda>_. []) [''try '', ''later''])"
      and nanos = 1 and later = 6 and r = demo_request, OF guarded_handler_select k untouched_new(2) refl refl i c]
  show ?thesis using s by auto
qed



lemma rewrite_header:
  "rq_Header (rewrite_to nanos h u inreq out) k =
    (if k = ''X-Trace-Id'' then [traceIDFromRequest nanos inreq]
     else if k = ''X-Gateway-Upstream'' then [up_id u]
     else if k = ''X-Gateway-Route'' then [h_routeID h]
     else if k = ''X-Gateway'' then [gatewayName]
     else set_x_forwarded inreq (rq_Header out) k)"
  by (simp add: rewrite_to_def set_url_def Let_def header_set_def)

text \<open>
  C35: The request that goes to the backend: to the scheme and host of the chosen upstream, with the
  path rewritten and any escaped form of it dropped, the client appended to the forwarding chain,
  the gateway's headers and a trace id set (the client's own if it sent one), and every other
  header, the method and the query as they came (for an upstream URL without a query).
\<close>

theorem rewriteRequest_correct:
  assumes "ctx_upstream (rq_Context inreq) = Some k" and "url_RawQuery (up_url (h_upstreams h ! k)) = ''''"
    and "split_host (rq_RemoteAddr inreq) = Some ip" and "rq_Header out ''X-Forwarded-For'' = prior"
  shows "\<exists>out'. rewriteRequest now nanos h inreq out = (h, out')
    \<and> url_Scheme (rq_URL out') = url_Scheme (up_url (h_upstreams h ! k))
    \<and> url_Host (rq_URL out') = url_Host (up_url (h_upstreams h ! k)) \<and> rq_Host out' = ''''
    \<and> url_Path (rq_URL out') = rewritePath (url_Path (rq_URL inreq)) (h_stripPrefix h)
    \<and> url_RawPath (rq_URL out') = '''' \<and> url_RawQuery (rq_URL out') = url_RawQuery (rq_URL out)
    \<and> rq_Method out' = rq_Method out
    \<and> rq_Header out' = (rq_Header out)
        (''X-Forwarded-For'' := [join_with '', '' (prior @ [ip])],
         ''X-Forwarded-Host'' := [rq_Host inreq],
         ''X-Forwarded-Proto'' := [if rq_TLS inreq then ''https'' else ''http''],
         ''X-Gateway'' := [gatewayName], ''X-Gateway-Route'' := [h_routeID h],
         ''X-Gateway-Upstream'' := [up_id (h_upstreams h ! k)],
         ''X-Trace-Id'' := [traceIDFromRequest nanos inreq])"
proof -
  have join: "join_with s (xs @ [x]) = (if xs \<noteq> [] then join_with s xs @ s @ x else x)" for s x and xs :: "string list"
    by (induction s xs rule: join_with.induct) simp_all
  show ?thesis
    using assms
    by (simp add: rewriteRequest_def rewrite_to_def set_url_def Let_def set_x_forwarded_def header_set_def join)
qed

theorem rewriteRequest_correct_witness:
  "\<exists>out'. rewriteRequest (\<lambda>_. 5) 1 guarded_handler demo_request demo_request = (guarded_handler, out')
    \<and> url_Path (rq_URL out') = ''/items'' \<and> url_Host (rq_URL out') = ''localhost:8081''
    \<and> rq_Header out' ''X-Forwarded-For'' = [''10.0.0.7'']"
proof -
  have ctx: "ctx_upstream (rq_Context demo_request) = Some 0"
    and q: "url_RawQuery (up_url (h_upstreams guarded_handler ! 0)) = ''''"
    and hd: "rq_Header demo_request ''X-Forwarded-For'' = []"
    by (simp_all add: demo_request_def guarded_handler_def plain_upstream_def demo_url_def)
  have ip: "split_host (rq_RemoteAddr demo_request) = Some ''10.0.0.7''" by code_simp
  have path: "rewritePath (url_Path (rq_URL demo_request)) (h_stripPrefix guarded_handler) = ''/items''"
    and host: "url_Host (up_url (h_upstreams guarded_handler ! 0)) = ''localhost:8081''"
    by code_simp+
  from rewriteRequest_correct [OF ctx q ip hd, of "\<lambda>_. 5" 1] path host
  show ?thesis by (elim exE conjE) auto
qed

section \<open>Requests in flight\<close>

text \<open>
  A route under concurrent requests. The guards lock for each call, so a call is one step; between
  the selection for a request and the report of its outcome anything else may happen. \<open>px_flying\<close>
  holds the upstreams of the requests whose outcome is still to come.
\<close>

record proxy_sys =
  px_handler :: proxyHandler
  px_flying :: "nat list"

inductive px_step :: "proxy_sys \<Rightarrow> proxy_sys \<Rightarrow> bool" where
  started: "selectUpstream now (px_handler s) = (Some k, h') \<Longrightarrow>
    px_step s (s\<lparr>px_handler := h', px_flying := k # px_flying s\<rparr>)"
| turned_away: "selectUpstream now (px_handler s) = (None, h') \<Longrightarrow> px_step s (s\<lparr>px_handler := h'\<rparr>)"
| answered: "k \<in> set (px_flying s) \<Longrightarrow> ctx_upstream (rq_Context (rs_Request resp)) = Some k \<Longrightarrow>
    px_step s (s\<lparr>px_handler := fst (modifyResponse now (px_handler s) resp),
      px_flying := remove1 k (px_flying s)\<rparr>)"
| broken: "k \<in> set (px_flying s) \<Longrightarrow> ctx_upstream (rq_Context r) = Some k \<Longrightarrow>
    px_step s (s\<lparr>px_handler := fst (handleProxyError now r err (px_handler s) w),
      px_flying := remove1 k (px_flying s)\<rparr>)"
| checked: "px_step s (s\<lparr>px_handler :=
    upd_upstream k (\<lambda>u. u\<lparr>up_activeHealth := map_option (hc_checkOnce now p) (up_activeHealth u)\<rparr>) (px_handler s)\<rparr>)"
| closed: "px_step s (s\<lparr>px_handler := CloseIdleConnections (px_handler s)\<rparr>)"

inductive px_reach :: "proxyHandler \<Rightarrow> proxy_sys \<Rightarrow> bool" for h where
  start: "px_reach h \<lparr>px_handler = h, px_flying = []\<rparr>"
| step: "px_reach h s \<Longrightarrow> px_step s t \<Longrightarrow> px_reach h t"

text \<open>The half-open slots an upstream's breaker has given out.\<close>

definition slots :: "upstream \<Rightarrow> int" where
  "slots u = (case up_circuitBreaker u of None \<Rightarrow> 0 | Some c \<Rightarrow> cb_halfOpenInFlight c)"

lemma cb_slots_allow:
  "cb_inv c \<Longrightarrow> fst (cb_allow now c) \<Longrightarrow> cb_halfOpenInFlight (snd (cb_allow now c)) \<le> cb_halfOpenInFlight c + 1"
  by (erule cb_inv_cases) (auto simp: cb_per_state cb_closed_ok_def cb_open_ok_def split: if_splits)

lemma cb_slots_record:
  "cb_inv c \<Longrightarrow> cb_halfOpenInFlight (cb_recordSuccess now c) \<le> max 0 (cb_halfOpenInFlight c - 1)"
  "cb_inv c \<Longrightarrow> cb_halfOpenInFlight (cb_recordFailure now r c) \<le> max 0 (cb_halfOpenInFlight c - 1)"
  by (erule cb_inv_cases; simp add: cb_per_state cb_closed_ok_def cb_open_ok_def)+

lemma slots_steps:
  "up_inv u \<Longrightarrow> fst (tryAcquireUpstream now u) \<Longrightarrow> slots (snd (tryAcquireUpstream now u)) \<le> slots u + 1"
  "up_inv u \<Longrightarrow> slots (recordSuccess now u) \<le> max 0 (slots u - 1)"
  "up_inv u \<Longrightarrow> slots (recordFailure now r u) \<le> max 0 (slots u - 1)"
  using cb_slots_allow cb_slots_record
  by (auto simp: slots_def up_inv_def tryAcquire_cases recordSuccess_def recordFailure_def
      split: option.splits if_splits)

lemma select_changes:
  assumes "h_inv h" and "length (h_upstreams h) < 2 ^ 64" and "selectUpstream now h = (sel, h')"
  shows "(sel = None \<and> h_upstreams h' = h_upstreams h) \<or>
    (\<exists>k t. sel = Some k \<and> k < length (h_upstreams h) \<and> fst (tryAcquireUpstream t (h_upstreams h ! k)) \<and>
      h_upstreams h' = (h_upstreams h)[k := snd (tryAcquireUpstream t (h_upstreams h ! k))])"
proof (cases "h_upstreams h = []")
  case True
  then show ?thesis using assms(3) by (auto simp: selectUpstream_def)
next
  case False
  let ?n = "length (h_upstreams h)"
  let ?order = "map (\<lambda>i. (i, scan_index (h_nextIndex h) ?n i)) [0..<?n]"
  have idx: "scan_index (h_nextIndex h) ?n i < ?n" for i
    using False assms(2) by (intro scan_index_less) simp_all
  have "scan now (h_nextIndex h) (h_upstreams h) [0..<?n] = pick now (h_upstreams h) ?order"
    using assms(1) idx by (intro scan_pick) (simp_all add: h_inv_def)
  then have sel: "sel = fst (pick now (h_upstreams h) ?order)"
    "h_upstreams h' = snd (pick now (h_upstreams h) ?order)"
    using assms(3) False by (auto simp: selectUpstream_def Let_def split_beta)
  show ?thesis
  proof (cases "find (\<lambda>(i, k). fst (tryAcquireUpstream (now i) (h_upstreams h ! k))) ?order")
    case None
    then show ?thesis using sel by (simp add: pick_def)
  next
    case (Some ik)
    then obtain i where "ik = (i, scan_index (h_nextIndex h) ?n i)"
      "fst (tryAcquireUpstream (now i) (h_upstreams h ! scan_index (h_nextIndex h) ?n i))"
      by (auto simp: find_Some_iff)
    with Some sel idx [of i] show ?thesis by (auto simp: pick_def)
  qed
qed

definition px_inv :: "proxyHandler \<Rightarrow> proxy_sys \<Rightarrow> bool" where
  "px_inv h s \<longleftrightarrow> h_inv (px_handler s) \<and>
     length (h_upstreams (px_handler s)) = length (h_upstreams h) \<and>
     (\<forall>k < length (h_upstreams h). slots (h_upstreams (px_handler s) ! k) \<le> int (count_list (px_flying s) k))"

lemma count_remove1: "k \<in> set xs \<Longrightarrow> int (count_list (remove1 k xs) j) = int (count_list xs j) - (if j = k then 1 else 0)"
proof (induction xs)
  case (Cons x xs)
  then show ?case by (cases "x = k") (auto simp: of_nat_diff)
qed simp

lemma px_inv_report:
  assumes "px_inv h s" and k: "k \<in> set (px_flying s)"
    and f: "\<And>u. up_inv u \<Longrightarrow> up_inv (f u) \<and> slots (f u) \<le> max 0 (slots u - 1)"
  shows "px_inv h (s\<lparr>px_handler := upd_upstream k f (px_handler s), px_flying := remove1 k (px_flying s)\<rparr>)"
proof -
  have "slots (h_upstreams (upd_upstream k f (px_handler s)) ! j) \<le> int (count_list (remove1 k (px_flying s)) j)"
    if j: "j < length (h_upstreams h)" for j
  proof (cases "j = k")
    case True
    let ?u = "h_upstreams (px_handler s) ! k" and ?c = "int (count_list (px_flying s) k)"
    have "count_list (px_flying s) k \<noteq> 0" using k by (simp add: count_list_0_iff)
    then have c: "1 \<le> ?c" by linarith
    have u: "up_inv ?u" "slots ?u \<le> ?c" and n: "k < length (h_upstreams (px_handler s))"
      using assms(1) j True by (auto simp: px_inv_def intro: h_inv_nth)
    have "slots (f ?u) \<le> ?c - 1" using f [OF u(1)] u(2) c by linarith
    then show ?thesis by (simp add: True upd_upstream_nth [OF n] count_remove1 [OF k])
  next
    case False
    then show ?thesis
      using assms(1) j by (simp add: px_inv_def count_remove1 [OF k] upd_upstream_def)
  qed
  moreover have "h_inv (upd_upstream k f (px_handler s))"
    using assms(1) f by (intro upd_upstream_inv) (simp_all add: px_inv_def)
  ultimately show ?thesis using assms(1) by (simp add: px_inv_def frame)
qed

lemma report_fst:
  "ctx_upstream (rq_Context (rs_Request resp)) = Some k \<Longrightarrow> fst (modifyResponse now h resp) =
    upd_upstream k (if rs_StatusCode resp \<ge> 500
      then recordFailure now (''backend status='' @ itoa (rs_StatusCode resp)) else recordSuccess now) h"
  "ctx_upstream (rq_Context r) = Some k \<Longrightarrow> fst (handleProxyError now r err h w) =
    upd_upstream k (recordFailure now (error_text err)) h"
  by (simp_all add: modifyResponse_def handleProxyError_def Let_def)

lemma px_inv_step [step_inv]:
  assumes "px_step s t" and "px_inv h s" and len: "length (h_upstreams h) < 2 ^ 64"
  shows "px_inv h t"
  using assms(1)
proof cases
  case (started now k h')
  have inv: "h_inv (px_handler s)" "length (h_upstreams (px_handler s)) = length (h_upstreams h)"
    using assms(2) by (simp_all add: px_inv_def)
  obtain i where k: "k < length (h_upstreams h)" "fst (tryAcquireUpstream i (h_upstreams (px_handler s) ! k))"
    and ups: "h_upstreams h' =
      (h_upstreams (px_handler s))[k := snd (tryAcquireUpstream i (h_upstreams (px_handler s) ! k))]"
    using select_changes [OF inv(1) _ started(2)] inv(2) len by auto
  have u: "up_inv (h_upstreams (px_handler s) ! k)" using inv k by (intro h_inv_nth) simp_all
  have "h_inv h'"
    using inv ups up.inv_ask [OF u] k by (auto simp: h_inv_def list_all_length nth_list_update_split)
  moreover have "slots (h_upstreams h' ! j) \<le> int (count_list (k # px_flying s) j)" if "j < length (h_upstreams h)" for j
    using that assms(2) slots_steps(1) [OF u k(2)] inv(2) k(1) ups
    by (cases "j = k") (force simp: px_inv_def)+
  ultimately show ?thesis using started(1) ups inv(2) by (simp add: px_inv_def)
next
  case (turned_away now h')
  have inv: "h_inv (px_handler s)" "length (h_upstreams (px_handler s)) = length (h_upstreams h)"
    using assms(2) by (simp_all add: px_inv_def)
  have "h_upstreams h' = h_upstreams (px_handler s)"
    using select_changes [OF inv(1) _ turned_away(2)] inv(2) len by auto
  then show ?thesis using assms(2) turned_away(1) by (simp add: px_inv_def h_inv_def)
next
  case (answered k resp now)
  show ?thesis
    unfolding answered(1) report_fst(1) [OF answered(3)]
    using assms(2) answered(2) slots_steps by (intro px_inv_report) (auto intro: up.inv_ops)
next
  case (broken k r now err w)
  show ?thesis
    unfolding broken(1) report_fst(2) [OF broken(3)]
    using assms(2) broken(2) slots_steps by (intro px_inv_report) (auto intro: up.inv_ops)
next
  case (checked k now p)
  let ?f = "\<lambda>u. u\<lparr>up_activeHealth := map_option (hc_checkOnce now p) (up_activeHealth u)\<rparr>"
  have "slots (h_upstreams (upd_upstream k ?f (px_handler s)) ! j) = slots (h_upstreams (px_handler s) ! j)" for j
  proof (cases "k < length (h_upstreams (px_handler s))")
    case True
    then show ?thesis by (auto simp: upd_upstream_nth slots_def)
  next
    case False
    then show ?thesis by (simp add: upd_upstream_def list_update_beyond)
  qed
  moreover have "h_inv (upd_upstream k ?f (px_handler s))"
    using assms(2) by (intro upd_upstream_inv) (simp_all add: px_inv_def up_inv_def)
  ultimately show ?thesis using assms(2) checked by (simp add: px_inv_def frame)
next
  case closed
  have "slots (closeChecks u) = slots u" "up_inv u \<Longrightarrow> up_inv (closeChecks u)" for u
    by (simp_all add: closeChecks_def slots_def up_inv_def)
  then show ?thesis
    using assms(2) closed by (auto simp: px_inv_def CloseIdleConnections_def h_inv_def list_all_length)
qed

lemma px_reach_inv:
  "px_reach h s \<Longrightarrow> px_inv h \<lparr>px_handler = h, px_flying = []\<rparr> \<Longrightarrow> length (h_upstreams h) < 2 ^ 64 \<Longrightarrow> px_inv h s"
  by (induction rule: px_reach.induct) (auto intro: px_inv_step)

lemma fresh_slots: "fresh_upstream u \<Longrightarrow> up_inv u \<Longrightarrow> slots u = 0"
  by (auto simp: fresh_upstream_def up_inv_def slots_def cb_inv_def cb_ok_defs split: option.split)

lemma px_inv_new:
  assumes "newProxyHandler url_parse options = Inr h" and "limits_fit options"
  shows "px_inv h \<lparr>px_handler = h, px_flying = []\<rparr>"
  using newProxyHandler_upstreams [OF assms] fresh_slots
  by (auto simp: px_inv_def h_inv_def list_all_length)

lemma px_inv_slots:
  assumes "px_inv h s" and "k < length (h_upstreams h)" and "up_circuitBreaker (h_upstreams (px_handler s) ! k) = Some c"
  shows "cb_halfOpenInFlight c \<le> int (count_list (px_flying s) k)
    \<and> (k \<notin> set (px_flying s) \<longrightarrow> cb_nextAttemptAt c \<le> t \<longrightarrow> fst (cb_allow t c))"
proof -
  have le: "cb_halfOpenInFlight c \<le> int (count_list (px_flying s) k)"
    using assms by (auto simp: px_inv_def slots_def split: option.splits)
  have c: "cb_inv c"
    using assms h_inv_nth [of "px_handler s" k] by (simp add: px_inv_def up_inv_def)
  have "fst (cb_allow t c)" if "k \<notin> set (px_flying s)" "cb_nextAttemptAt c \<le> t"
  proof -
    have "cb_halfOpenInFlight c \<le> 0" using that le by (simp add: count_list_0_iff)
    with c that(2) show ?thesis
      by (cases rule: cb_inv_cases) (auto simp: cb_per_state cb_limits_ok_def)
  qed
  with le show ?thesis by blast
qed

text \<open>
  Half-open slots do not leak: in every interleaving of requests, outcomes, active checks and closings on
  a route that \<^verbatim>\<open>New\<close> built, a breaker has given out at most as many half-open slots as there are
  requests on its upstream whose outcome is still to come. So a breaker whose upstream has no such
  request holds none, and lets a request pass as soon as its open time is over: no sequence of
  outcomes, late ones included, can lock an upstream out for good.
\<close>

theorem halfOpen_slots_do_not_leak:
  assumes "newProxyHandler url_parse options = Inr h" and "limits_fit options"
    and "length (h_upstreams h) < 2 ^ 64" and "px_reach h s" and "k < length (h_upstreams h)"
    and "up_circuitBreaker (h_upstreams (px_handler s) ! k) = Some c"
  shows "cb_halfOpenInFlight c \<le> int (count_list (px_flying s) k)
    \<and> (k \<notin> set (px_flying s) \<longrightarrow> cb_nextAttemptAt c \<le> t \<longrightarrow> fst (cb_allow t c))"
  using px_inv_slots [OF _ assms(5,6)] px_reach_inv px_inv_new assms(1-4) by blast

theorem halfOpen_slots_do_not_leak_witness:
  "\<exists>h c. newProxyHandler (\<lambda>_. Inr demo_url) demo_proxy_options = Inr h \<and>
    up_circuitBreaker (h_upstreams h ! 0) = Some c \<and> fst (cb_allow 0 c)"
proof -
  have "\<exists>h. newProxyHandler (\<lambda>_. Inr demo_url) demo_proxy_options = Inr h"
    by (simp add: newProxyHandler_iff usable_url_def effective_upstreams_def demo_proxy_options_def demo_url_def)
  then obtain h where h: "newProxyHandler (\<lambda>_. Inr demo_url) demo_proxy_options = Inr h" ..
  then obtain ups where b: "buildUpstreams (\<lambda>_. Inr demo_url) demo_proxy_options = Inr ups" "h_upstreams h = ups"
    by (auto simp: newProxyHandler_Inr)
  have len: "length ups = 2"
    using buildUpstreams_nth(1) [OF b(1)] by (simp add: effective_upstreams_def demo_proxy_options_def)
  have "buildUpstream (\<lambda>_. Inr demo_url) demo_proxy_options (effective_upstreams demo_proxy_options ! 0) 0 = Inr (ups ! 0)"
    using buildUpstreams_nth(2) [OF b(1), of 0] len by simp
  then have "\<exists>c. up_circuitBreaker (ups ! 0) = Some c"
    using buildUpstream_guards by (fastforce simp: demo_proxy_options_def demo_cb_options_def)
  then obtain c where c: "up_circuitBreaker (ups ! 0) = Some c" ..
  have "fresh_upstream (ups ! 0)"
    using newProxyHandler_upstreams(3) [OF h demo_limits_fit] b(2) len by (simp add: list_all_length)
  moreover have "up_inv (ups ! 0)"
    using newProxyHandler_upstreams(2) [OF h demo_limits_fit] b(2) len by (simp add: list_all_length)
  ultimately have next0: "cb_nextAttemptAt c \<le> 0"
    using c by (auto simp: fresh_upstream_def up_inv_def cb_inv_def cb_ok_defs)
  have "length (h_upstreams h) < 2 ^ 64" "0 < length (h_upstreams h)" using b(2) len by simp_all
  from halfOpen_slots_do_not_leak [OF h demo_limits_fit this(1) px_reach.start this(2), of c 0] c b(2) next0
  have "fst (cb_allow 0 c)" by simp
  with h c b(2) show ?thesis by blast
qed

end
