(* ===== verification/Gate.thy ===== *)
theory Gate
  imports Prelude
begin

text \<open>
  Buffered channels of empty structs, as the two limiters use them, and the contract both
  limiters offer the middleware: a gate with a number of free places, of which a request takes
  one if there is one. The concurrency limiter gives a place back when a request ends, the token
  bucket when its ticker fires.
\<close>

section \<open>Channels used as counters\<close>

record channel =
  ch_cap :: nat
  ch_len :: nat

definition make_chan :: "nat \<Rightarrow> channel" where
  "make_chan n = \<lparr>ch_cap = n, ch_len = 0\<rparr>"

text \<open>\<^verbatim>\<open>select { case ch <- struct{}{}: ...; default: ... }\<close> and its receiving counterpart.\<close>

definition try_send :: "channel \<Rightarrow> bool \<times> channel" where
  "try_send ch = (if ch_len ch < ch_cap ch then (True, ch\<lparr>ch_len := ch_len ch + 1\<rparr>) else (False, ch))"

definition try_recv :: "channel \<Rightarrow> bool \<times> channel" where
  "try_recv ch = (if 0 < ch_len ch then (True, ch\<lparr>ch_len := ch_len ch - 1\<rparr>) else (False, ch))"

definition chan_ok :: "channel \<Rightarrow> bool" where
  "chan_ok ch \<longleftrightarrow> ch_len ch \<le> ch_cap ch"

lemma chan_ok_simps [simp]:
  "chan_ok (make_chan n)"
  "chan_ok ch \<Longrightarrow> chan_ok (snd (try_send ch))"
  "chan_ok ch \<Longrightarrow> chan_ok (snd (try_recv ch))"
  by (auto simp: chan_ok_def make_chan_def try_send_def try_recv_def)

lemma ch_cap_simps [simp]:
  "ch_cap (make_chan n) = n" "ch_cap (snd (try_send ch)) = ch_cap ch" "ch_cap (snd (try_recv ch)) = ch_cap ch"
  by (simp_all add: make_chan_def try_send_def try_recv_def)

section \<open>The contract of a gate\<close>

datatype gate_event = Take | Give

fun gate_run :: "('s \<Rightarrow> bool \<times> 's) \<Rightarrow> ('s \<Rightarrow> 's) \<Rightarrow> 's \<Rightarrow> gate_event list \<Rightarrow> bool list \<times> 's" where
  "gate_run take_one give s [] = ([], s)"
| "gate_run take_one give s (Take # es) =
     (let (b, s') = take_one s; (bs, s'') = gate_run take_one give s' es in (b # bs, s''))"
| "gate_run take_one give s (Give # es) = gate_run take_one give (give s) es"

definition taken :: "bool list \<Rightarrow> nat" where
  "taken bs = length (filter (\<lambda>b. b) bs)"

definition gives :: "gate_event list \<Rightarrow> nat" where
  "gives es = length (filter (\<lambda>e. e = Give) es)"

lemma taken_simps [simp]: "taken [] = 0" "taken (b # bs) = (if b then 1 else 0) + taken bs"
  by (simp_all add: taken_def)

lemma gives_simps [simp]:
  "gives [] = 0" "gives (Take # es) = gives es" "gives (Give # es) = Suc (gives es)"
  by (simp_all add: gives_def)

locale gate =
  fixes ok :: "'s \<Rightarrow> bool"
    and take_one :: "'s \<Rightarrow> bool \<times> 's"
    and give :: "'s \<Rightarrow> 's"
    and free :: "'s \<Rightarrow> nat"
    and total :: "'s \<Rightarrow> nat"
  assumes take_iff: "ok s \<Longrightarrow> fst (take_one s) \<longleftrightarrow> 0 < free s"
    and take_free: "ok s \<Longrightarrow> 0 < free s \<Longrightarrow> free (snd (take_one s)) = free s - 1"
    and take_refused: "ok s \<Longrightarrow> free s = 0 \<Longrightarrow> snd (take_one s) = s"
    and give_free: "ok s \<Longrightarrow> free (give s) = min (total s) (free s + 1)"
    and take_total: "ok s \<Longrightarrow> total (snd (take_one s)) = total s"
    and give_total: "ok s \<Longrightarrow> total (give s) = total s"
    and take_ok: "ok s \<Longrightarrow> ok (snd (take_one s))"
    and give_ok: "ok s \<Longrightarrow> ok (give s)"
    and free_bound: "ok s \<Longrightarrow> free s \<le> total s"
begin

lemmas gate_laws = take_iff take_free take_refused give_free take_total give_total take_ok give_ok

lemma run_ok: "ok s \<Longrightarrow> ok (snd (gate_run take_one give s es)) \<and>
    total (snd (gate_run take_one give s es)) = total s"
proof (induction es arbitrary: s)
  case Nil
  then show ?case by simp
next
  case (Cons e es)
  then show ?case by (cases e) (simp_all add: split_beta gate_laws)
qed

text \<open>No run lets more requests in than there were places at the start and places given back.\<close>

lemma taken_bound:
  "ok s \<Longrightarrow> taken (fst (gate_run take_one give s es)) + free (snd (gate_run take_one give s es))
    \<le> free s + gives es"
proof (induction es arbitrary: s)
  case Nil
  then show ?case by simp
next
  case (Cons e es)
  show ?case
  proof (cases e)
    case Take
    have "taken (fst (gate_run take_one give (snd (take_one s)) es))
        + free (snd (gate_run take_one give (snd (take_one s)) es)) \<le> free (snd (take_one s)) + gives es"
      using Cons by (simp add: take_ok)
    with Take Cons.prems take_iff [of s] take_free [of s] take_refused [of s]
    show ?thesis by (cases "0 < free s") (simp_all add: split_beta)
  next
    case Give
    have "taken (fst (gate_run take_one give (give s) es))
        + free (snd (gate_run take_one give (give s) es)) \<le> free (give s) + gives es"
      using Cons by (simp add: give_ok)
    with Give Cons.prems give_free [of s] show ?thesis by simp
  qed
qed

text \<open>With enough places every request is let in.\<close>

lemma all_taken:
  "ok s \<Longrightarrow> n \<le> free s \<Longrightarrow> fst (gate_run take_one give s (replicate n Take)) = replicate n True"
proof (induction n arbitrary: s)
  case 0
  then show ?case by simp
next
  case (Suc n)
  then have "n \<le> free (snd (take_one s))" using take_free [of s] by simp
  with Suc show ?case by (simp add: split_beta take_ok take_iff)
qed

end

end
