(* ===== verification/Limiter.thy ===== *)
theory Limiter
  imports Gate
begin

text \<open>
  \<^verbatim>\<open>internal/concurrency/limiter.go\<close> and \<^verbatim>\<open>middleware.go\<close>: a semaphore on a buffered channel, and
  the requests that pass the middleware, any number of them at the same time. A nil limiter is
  \<open>None\<close>; \<^verbatim>\<open>TryAcquire\<close> and \<^verbatim>\<open>Release\<close> on it do nothing.
\<close>

section \<open>The limiter\<close>

record limiter =
  lim_name :: string
  lim_capacity :: go_int
  lim_semaphore :: channel

record limiterSnapshot =
  lims_Name :: string
  lims_Capacity :: go_int
  lims_InUse :: go_int
  lims_Available :: go_int

definition newLimiter :: "string \<Rightarrow> go_int \<Rightarrow> limiter option" where
  "newLimiter name maxConcurrency =
     (if maxConcurrency \<le> 0 then None
      else Some \<lparr>lim_name = name, lim_capacity = maxConcurrency,
                 lim_semaphore = make_chan (nat maxConcurrency)\<rparr>)"

fun tryAcquire :: "limiter option \<Rightarrow> bool \<times> limiter option" where
  "tryAcquire None = (True, None)"
| "tryAcquire (Some l) =
     (let (b, ch) = try_send (lim_semaphore l) in (b, Some (l\<lparr>lim_semaphore := ch\<rparr>)))"

fun release :: "limiter option \<Rightarrow> limiter option" where
  "release None = None"
| "release (Some l) = Some (l\<lparr>lim_semaphore := snd (try_recv (lim_semaphore l))\<rparr>)"

fun lim_inUse :: "limiter option \<Rightarrow> go_int" where
  "lim_inUse None = 0"
| "lim_inUse (Some l) = int (ch_len (lim_semaphore l))"

fun lim_Capacity :: "limiter option \<Rightarrow> go_int" where
  "lim_Capacity None = 0"
| "lim_Capacity (Some l) = lim_capacity l"

fun lim_Name :: "limiter option \<Rightarrow> string" where
  "lim_Name None = ''''"
| "lim_Name (Some l) = lim_name l"

fun lim_Snapshot :: "limiter option \<Rightarrow> limiterSnapshot" where
  "lim_Snapshot None = \<lparr>lims_Name = '''', lims_Capacity = 0, lims_InUse = 0, lims_Available = 0\<rparr>"
| "lim_Snapshot (Some l) =
     (let inUse = int (ch_len (lim_semaphore l))
      in \<lparr>lims_Name = lim_Name (Some l), lims_Capacity = lim_Capacity (Some l), lims_InUse = inUse,
          lims_Available = i64 (lim_Capacity (Some l) - inUse)\<rparr>)"

definition lim_ok :: "limiter \<Rightarrow> bool" where
  "lim_ok l \<longleftrightarrow> 0 < lim_capacity l \<and> lim_capacity l \<le> max_int64 \<and>
     int (ch_cap (lim_semaphore l)) = lim_capacity l \<and> chan_ok (lim_semaphore l)"

lemma newLimiter_ok: "is_int64 n \<Longrightarrow> newLimiter name n = Some l \<Longrightarrow>
    lim_ok l \<and> lim_capacity l = n \<and> ch_len (lim_semaphore l) = 0"
  by (auto simp: newLimiter_def lim_ok_def is_int64_def split: if_splits) (simp_all add: make_chan_def)

text \<open>The operations of a limiter that is not nil.\<close>

definition lim_take :: "limiter \<Rightarrow> bool \<times> limiter" where
  "lim_take l = (let (b, ch) = try_send (lim_semaphore l) in (b, l\<lparr>lim_semaphore := ch\<rparr>))"

definition lim_give :: "limiter \<Rightarrow> limiter" where
  "lim_give l = l\<lparr>lim_semaphore := snd (try_recv (lim_semaphore l))\<rparr>"

definition lim_free :: "limiter \<Rightarrow> nat" where
  "lim_free l = ch_cap (lim_semaphore l) - ch_len (lim_semaphore l)"

lemma tryAcquire_Some: "tryAcquire (Some l) = (fst (lim_take l), Some (snd (lim_take l)))"
  by (simp add: lim_take_def split_beta)

lemma release_Some: "release (Some l) = Some (lim_give l)"
  by (simp add: lim_give_def)

interpretation lim: gate lim_ok lim_take lim_give lim_free "\<lambda>l. ch_cap (lim_semaphore l)"
  by unfold_locales
     (auto simp: lim_take_def lim_give_def lim_free_def lim_ok_def chan_ok_def try_send_def
        try_recv_def split_beta)

section \<open>Requests in the middleware\<close>

text \<open>
  The requests inside the middleware of one limiter, by number: a request that finds a place
  enters and runs the next handler; it gives the place back when that handler is left, by a
  return or by a panic, since \<^verbatim>\<open>Release\<close> is deferred. One that finds none is answered 503
  \<^verbatim>\<open>concurrency limit exceeded\<close>. Entering and leaving interleave in any order.
\<close>

record lim_sys =
  ls_limiter :: "limiter option"
  ls_running :: "nat set"
  ls_rejected :: "nat set"

inductive lim_step :: "lim_sys \<Rightarrow> lim_sys \<Rightarrow> bool" where
  enter: "i \<notin> ls_running s \<Longrightarrow> tryAcquire (ls_limiter s) = (True, l') \<Longrightarrow>
    lim_step s (s\<lparr>ls_limiter := l', ls_running := insert i (ls_running s)\<rparr>)"
| reject: "i \<notin> ls_running s \<Longrightarrow> tryAcquire (ls_limiter s) = (False, l') \<Longrightarrow>
    lim_step s (s\<lparr>ls_limiter := l', ls_rejected := insert i (ls_rejected s)\<rparr>)"
| leave: "i \<in> ls_running s \<Longrightarrow>
    lim_step s (s\<lparr>ls_limiter := release (ls_limiter s), ls_running := ls_running s - {i}\<rparr>)"

inductive_cases lim_stepE: "lim_step s t"

inductive lim_reach :: "limiter option \<Rightarrow> lim_sys \<Rightarrow> bool" for l where
  start: "lim_reach l \<lparr>ls_limiter = l, ls_running = {}, ls_rejected = {}\<rparr>"
| step: "lim_reach l s \<Longrightarrow> lim_step s t \<Longrightarrow> lim_reach l t"

text \<open>The places taken are exactly the requests inside.\<close>

definition lim_sys_inv :: "go_int \<Rightarrow> lim_sys \<Rightarrow> bool" where
  "lim_sys_inv n s \<longleftrightarrow> finite (ls_running s) \<and>
     (\<exists>l. ls_limiter s = Some l \<and> lim_ok l \<and> lim_capacity l = n \<and>
        ch_len (lim_semaphore l) = card (ls_running s))"

lemma lim_step_inv [step_inv]: "lim_step s t \<Longrightarrow> lim_sys_inv n s \<Longrightarrow> lim_sys_inv n t"
proof (induction rule: lim_step.induct)
  case (enter i s l')
  then show ?case
    by (auto simp: lim_sys_inv_def lim_ok_def chan_ok_def try_send_def split: if_splits)
next
  case (reject i s l')
  then obtain l where l: "ls_limiter s = Some l" by (auto simp: lim_sys_inv_def)
  with reject have "l' = Some l" by (auto simp: try_send_def split: if_splits)
  with l reject.prems show ?case by (simp add: lim_sys_inv_def)
next
  case (leave i s)
  then have "0 < card (ls_running s)"
    unfolding lim_sys_inv_def using card_gt_0_iff by blast
  with leave show ?case
    by (auto simp: lim_sys_inv_def lim_ok_def chan_ok_def try_recv_def card_Diff_singleton)
qed

lemma lim_reach_inv:
  assumes "lim_reach (Some l) s" and "lim_ok l" and "ch_len (lim_semaphore l) = 0"
  shows "lim_sys_inv (lim_capacity l) s"
  using assms
proof (induction rule: lim_reach.induct)
  case start
  then show ?case by (simp add: lim_sys_inv_def)
next
  case (step s t)
  then show ?case by (blast intro: step_inv)
qed

text \<open>
  In every interleaving of requests entering and leaving the concurrency middleware, at most
  \<^verbatim>\<open>maxConcurrency\<close> of them run the next handler at the same time, the limiter reports exactly
  that many in use, and a further request is let in if and only if fewer are running.
\<close>

theorem limiter_bounds_running:
  assumes "is_int64 n" and "newLimiter name n = Some l" and "lim_reach (Some l) s"
  shows "int (card (ls_running s)) \<le> n
    \<and> lim_inUse (ls_limiter s) = int (card (ls_running s))
    \<and> (fst (tryAcquire (ls_limiter s)) \<longleftrightarrow> int (card (ls_running s)) < n)"
proof -
  have "lim_sys_inv n s"
    using lim_reach_inv [OF assms(3)] newLimiter_ok [OF assms(1,2)] by auto
  then obtain l' where "ls_limiter s = Some l'" "lim_ok l'" "lim_capacity l' = n"
    "ch_len (lim_semaphore l') = card (ls_running s)"
    by (auto simp: lim_sys_inv_def)
  then show ?thesis by (auto simp: lim_ok_def chan_ok_def try_send_def)
qed

theorem limiter_bounds_running_witness:
  "\<exists>s. lim_reach (newLimiter ''route:demo'' 1) s \<and> ls_running s = {7} \<and>
     \<not> fst (tryAcquire (ls_limiter s))"
proof -
  let ?l = "\<lparr>lim_name = ''route:demo'', lim_capacity = 1, lim_semaphore = make_chan 1\<rparr>"
  let ?s = "\<lparr>ls_limiter = Some (?l\<lparr>lim_semaphore := \<lparr>ch_cap = 1, ch_len = 1\<rparr>\<rparr>),
    ls_running = {7}, ls_rejected = {}\<rparr>"
  have new: "newLimiter ''route:demo'' 1 = Some ?l" by (simp add: newLimiter_def)
  have reach: "lim_reach (Some ?l) ?s"
    using lim_reach.step [OF lim_reach.start lim_step.enter [where i = 7]]
    by (simp add: try_send_def make_chan_def)
  have "is_int64 1" by (simp add: is_int64_def)
  from limiter_bounds_running [OF this new reach] new reach show ?thesis by auto
qed

text \<open>
  A snapshot of a limiter in use shows its capacity split into places taken and places
  available, without wrapping, and the available ones are the requests it would still let in.
\<close>

theorem limiter_snapshot_partition:
  assumes "lim_ok l"
  shows "lims_InUse (lim_Snapshot (Some l)) + lims_Available (lim_Snapshot (Some l)) =
      lims_Capacity (lim_Snapshot (Some l))
    \<and> 0 \<le> lims_Available (lim_Snapshot (Some l))
    \<and> fst (gate_run lim_take lim_give l (replicate (nat (lims_Available (lim_Snapshot (Some l)))) Take)) =
        replicate (nat (lims_Available (lim_Snapshot (Some l)))) True"
proof -
  have avail: "lims_Available (lim_Snapshot (Some l)) = int (lim_free l)"
    using assms by (simp add: lim_ok_def chan_ok_def lim_free_def Let_def)
  moreover have "lims_InUse (lim_Snapshot (Some l)) + int (lim_free l) = lims_Capacity (lim_Snapshot (Some l))"
    using assms by (simp add: lim_ok_def chan_ok_def lim_free_def Let_def)
  ultimately show ?thesis using lim.all_taken [OF assms, of "lim_free l"] by simp
qed

theorem limiter_snapshot_partition_witness:
  "lims_Available (lim_Snapshot (Some \<lparr>lim_name = ''x'', lim_capacity = 5,
     lim_semaphore = \<lparr>ch_cap = 5, ch_len = 2\<rparr>\<rparr>)) = 3"
  using limiter_snapshot_partition [of "\<lparr>lim_name = ''x'', lim_capacity = 5,
     lim_semaphore = \<lparr>ch_cap = 5, ch_len = 2\<rparr>\<rparr>"]
  by (simp add: lim_ok_def chan_ok_def Let_def)

end
