(* ===== verification/Token_Bucket.thy ===== *)
theory Token_Bucket
  imports Gate
begin

text \<open>
  \<^verbatim>\<open>internal/ratelimit/token_bucket.go\<close>: tokens in a buffered channel, a ticker that fires every
  \<^verbatim>\<open>1s / rate\<close>, and the goroutine \<^verbatim>\<open>refill\<close> that turns a tick into a token. A nil bucket is \<open>None\<close>.

  The ticker's channel holds at most one tick, and a stopped ticker delivers none (Go 1.23 and
  later; \<^verbatim>\<open>go.mod\<close> asks for 1.26). \<^verbatim>\<open>time.NewTicker\<close> panics for a period that is not positive,
  so the constructor of the model returns that panic as a value.
\<close>

section \<open>State and operations\<close>

record tokenBucket =
  tb_name :: string
  tb_rate :: go_int
  tb_burst :: go_int
  tb_tokens :: channel
  tb_period :: duration
  tb_tick :: bool
  tb_stopped :: bool
  tb_done :: bool
  tb_refilling :: bool

datatype ticker_panic = NonPositiveTickerPeriod duration

definition newTicker :: "duration \<Rightarrow> ticker_panic + duration" where
  "newTicker d = (if d \<le> 0 then Inl (NonPositiveTickerPeriod d) else Inr d)"

text \<open>\<^verbatim>\<open>for i := 0; i < burst; i++ { b.tokens <- struct{}{} }\<close>: none of the sends blocks.\<close>

fun fill :: "nat \<Rightarrow> channel \<Rightarrow> channel" where
  "fill 0 ch = ch"
| "fill (Suc n) ch = fill n (snd (try_send ch))"

definition newTokenBucket :: "string \<Rightarrow> go_int \<Rightarrow> go_int \<Rightarrow> ticker_panic + tokenBucket option" where
  "newTokenBucket name rate burst =
     (if rate \<le> 0 then Inr None
      else if burst \<le> 0 then Inr None
      else
        res_bind (newTicker (second div rate)) (\<lambda>period.
          Inr (Some \<lparr>tb_name = name, tb_rate = rate, tb_burst = burst,
            tb_tokens = fill (nat burst) (make_chan (nat burst)),
            tb_period = period, tb_tick = False, tb_stopped = False,
            tb_done = False, tb_refilling = True\<rparr>)))"

fun tb_Allow :: "tokenBucket option \<Rightarrow> bool \<times> tokenBucket option" where
  "tb_Allow None = (True, None)"
| "tb_Allow (Some b) =
     (let (ok, ch) = try_recv (tb_tokens b) in (ok, Some (b\<lparr>tb_tokens := ch\<rparr>)))"

text \<open>\<^verbatim>\<open>Close\<close>: \<^verbatim>\<open>sync.Once\<close> runs the body the first time only, which is when \<^verbatim>\<open>done\<close> is still open.\<close>

fun tb_Close :: "tokenBucket option \<Rightarrow> tokenBucket option" where
  "tb_Close None = None"
| "tb_Close (Some b) =
     (if tb_done b then Some b
      else Some (b\<lparr>tb_stopped := True, tb_tick := False, tb_done := True\<rparr>))"

text \<open>The two branches of the loop of \<^verbatim>\<open>refill\<close>: a tick was received, or \<^verbatim>\<open>done\<close> was closed.\<close>

definition tb_refill_tick :: "tokenBucket \<Rightarrow> tokenBucket" where
  "tb_refill_tick b = b\<lparr>tb_tick := False, tb_tokens := snd (try_send (tb_tokens b))\<rparr>"

definition tb_refill_done :: "tokenBucket \<Rightarrow> tokenBucket" where
  "tb_refill_done b = b\<lparr>tb_refilling := False\<rparr>"

record tokenBucketSnapShot =
  tbs_Name :: string
  tbs_Rate :: go_int
  tbs_Burst :: go_int
  tbs_AvailableTokens :: go_int

fun tb_Snapshot :: "tokenBucket option \<Rightarrow> tokenBucketSnapShot" where
  "tb_Snapshot None = \<lparr>tbs_Name = '''', tbs_Rate = 0, tbs_Burst = 0, tbs_AvailableTokens = 0\<rparr>"
| "tb_Snapshot (Some b) = \<lparr>tbs_Name = tb_name b, tbs_Rate = tb_rate b, tbs_Burst = tb_burst b,
     tbs_AvailableTokens = int (ch_len (tb_tokens b))\<rparr>"

section \<open>The bucket, its ticker and its goroutine as one system\<close>

datatype tb_label = Fire | Refill | Exit | Allow bool | CloseB

inductive tb_step :: "tokenBucket \<Rightarrow> tb_label \<Rightarrow> tokenBucket \<Rightarrow> bool" where
  fire: "\<not> tb_stopped b \<Longrightarrow> tb_step b Fire (b\<lparr>tb_tick := True\<rparr>)"
| refill: "tb_refilling b \<Longrightarrow> tb_tick b \<Longrightarrow> tb_step b Refill (tb_refill_tick b)"
| exit: "tb_refilling b \<Longrightarrow> tb_done b \<Longrightarrow> tb_step b Exit (tb_refill_done b)"
| allow: "tb_Allow (Some b) = (ok, Some b') \<Longrightarrow> tb_step b (Allow ok) b'"
| close: "tb_Close (Some b) = Some b' \<Longrightarrow> tb_step b CloseB b'"

inductive_cases tb_stepE: "tb_step b lab b'"

inductive tb_steps :: "tokenBucket \<Rightarrow> tb_label list \<Rightarrow> tokenBucket \<Rightarrow> bool" where
  none: "tb_steps b [] b"
| more: "tb_step b lab b' \<Longrightarrow> tb_steps b' labs b'' \<Longrightarrow> tb_steps b (lab # labs) b''"

inductive_cases tb_steps_NilE [elim!]: "tb_steps b [] b'"
inductive_cases tb_steps_ConsE: "tb_steps b (lab # labs) b'"

definition fires :: "tb_label list \<Rightarrow> nat" where
  "fires labs = length (filter (\<lambda>x. x = Fire) labs)"

definition admissions :: "tb_label list \<Rightarrow> nat" where
  "admissions labs = length (filter (\<lambda>x. x = Allow True) labs)"

definition refusals :: "tb_label list \<Rightarrow> nat" where
  "refusals labs = length (filter (\<lambda>x. x = Allow False) labs)"

section \<open>Invariant\<close>

definition tb_inv :: "tokenBucket \<Rightarrow> bool" where
  "tb_inv b \<longleftrightarrow>
     0 < tb_rate b \<and> 0 < tb_burst b \<and> tb_period b = second div tb_rate b \<and> 0 < tb_period b \<and>
     int (ch_cap (tb_tokens b)) = tb_burst b \<and> chan_ok (tb_tokens b) \<and>
     (tb_done b \<longleftrightarrow> tb_stopped b) \<and> (tb_stopped b \<longrightarrow> \<not> tb_tick b)"

lemma fill_len: "ch_len (fill n ch) = min (max (ch_len ch) (ch_cap ch)) (ch_len ch + n) \<and>
    ch_cap (fill n ch) = ch_cap ch"
  by (induction n ch rule: fill.induct) (auto simp: try_send_def)

lemma newTokenBucket_new:
  assumes "newTokenBucket name rate burst = Inr (Some b)"
  shows "tb_inv b" and "int (ch_len (tb_tokens b)) = burst" and "\<not> tb_done b" and "\<not> tb_tick b"
    and "tb_burst b = burst" and "tb_rate b = rate" and "tb_refilling b"
proof -
  have pos: "0 < rate" "0 < burst" using assms by (auto simp: newTokenBucket_def split: if_splits)
  then have b: "newTicker (second div rate) = Inr (tb_period b)"
      "tb_tokens b = fill (nat burst) (make_chan (nat burst))"
      "tb_rate b = rate" "tb_burst b = burst" "\<not> tb_tick b" "\<not> tb_stopped b" "\<not> tb_done b"
      "tb_refilling b"
    using assms by (auto simp: newTokenBucket_def res_bind_Inr)
  have len: "ch_len (tb_tokens b) = nat burst" "ch_cap (tb_tokens b) = nat burst"
    unfolding b(2) fill_len [THEN conjunct1] fill_len [THEN conjunct2] by (simp_all add: make_chan_def)
  show "tb_inv b" using b pos len by (auto simp: tb_inv_def chan_ok_def newTicker_def split: if_splits)
  show "int (ch_len (tb_tokens b)) = burst" using len pos by simp
qed (use assms in \<open>auto simp: newTokenBucket_def res_bind_Inr split: if_splits\<close>)

lemma tb_step_inv [step_inv]: "tb_step b lab b' \<Longrightarrow> tb_inv b \<Longrightarrow> tb_inv b'"
  by (erule tb_stepE)
     (auto simp: tb_inv_def tb_refill_tick_def tb_refill_done_def split_beta split: if_splits)

lemma tb_steps_inv: "tb_steps b labs b' \<Longrightarrow> tb_inv b \<Longrightarrow> tb_inv b'"
  by (induction rule: tb_steps.induct) (auto intro: tb_step_inv)

lemma tb_step_burst [frame]: "tb_step b lab b' \<Longrightarrow> tb_burst b' = tb_burst b"
  by (erule tb_stepE) (auto simp: tb_refill_tick_def tb_refill_done_def split_beta split: if_splits)

lemma tb_steps_burst: "tb_steps b labs b' \<Longrightarrow> tb_burst b' = tb_burst b"
  by (induction rule: tb_steps.induct) (auto dest: tb_step_burst)

section \<open>The bucket as a gate\<close>

definition tb_take :: "tokenBucket \<Rightarrow> bool \<times> tokenBucket" where
  "tb_take b = (let (ok, ch) = try_recv (tb_tokens b) in (ok, b\<lparr>tb_tokens := ch\<rparr>))"

lemma tb_Allow_take: "tb_Allow (Some b) = (fst (tb_take b), Some (snd (tb_take b)))"
  by (simp add: tb_take_def split_beta)

interpretation tb: gate "\<lambda>b. chan_ok (tb_tokens b)" tb_take tb_refill_tick
  "\<lambda>b. ch_len (tb_tokens b)" "\<lambda>b. ch_cap (tb_tokens b)"
  by unfold_locales
     (auto simp: tb_take_def tb_refill_tick_def chan_ok_def try_send_def try_recv_def split_beta)

section \<open>Counting tokens\<close>

text \<open>Tokens in the channel, and the one the pending tick is going to make.\<close>

definition tb_potential :: "tokenBucket \<Rightarrow> nat" where
  "tb_potential b = ch_len (tb_tokens b) + (if tb_tick b then 1 else 0)"

lemma label_counts [simp]:
  "fires [] = 0" "admissions [] = 0"
  "fires (lab # labs) = (if lab = Fire then 1 else 0) + fires labs"
  "admissions (lab # labs) = (if lab = Allow True then 1 else 0) + admissions labs"
  by (simp_all add: fires_def admissions_def)

lemma tb_step_potential:
  "tb_step b lab b' \<Longrightarrow> admissions [lab] + tb_potential b' \<le> tb_potential b + fires [lab]"
  by (erule tb_stepE)
     (auto simp: tb_potential_def tb_refill_tick_def tb_refill_done_def try_send_def try_recv_def
        split_beta split: if_splits)

lemma tb_steps_potential:
  "tb_steps b labs b' \<Longrightarrow> admissions labs + tb_potential b' \<le> tb_potential b + fires labs"
proof (induction rule: tb_steps.induct)
  case (none b)
  then show ?case by simp
next
  case (more b lab b' labs b'')
  then show ?case using tb_step_potential [of b lab b'] by simp
qed

text \<open>A closed bucket: no tick comes any more, so tokens only leave.\<close>

lemma tb_step_closed:
  "tb_step b lab b' \<Longrightarrow> tb_inv b \<Longrightarrow> tb_done b \<Longrightarrow>
    tb_done b' \<and> ch_len (tb_tokens b') + admissions [lab] = ch_len (tb_tokens b)"
  by (erule tb_stepE)
     (auto simp: tb_inv_def tb_refill_done_def try_recv_def split_beta split: if_splits)

lemma tb_steps_closed:
  "tb_steps b labs b' \<Longrightarrow> tb_inv b \<Longrightarrow> tb_done b \<Longrightarrow>
    ch_len (tb_tokens b') + admissions labs = ch_len (tb_tokens b)"
proof (induction rule: tb_steps.induct)
  case (none b)
  then show ?case by simp
next
  case (more b lab b' labs b'')
  then show ?case using tb_step_closed [of b lab b'] tb_step_inv [of b lab b'] by simp
qed

section \<open>Properties\<close>

text \<open>
  The rate limit: however requests, ticks, the refill goroutine and \<^verbatim>\<open>Close\<close> interleave, a new
  bucket never lets more than \<^verbatim>\<open>burst\<close> requests through plus one for each time its ticker has
  fired, and never holds more than \<^verbatim>\<open>burst\<close> tokens.
\<close>

theorem tokenBucket_rate_limit:
  assumes "newTokenBucket name rate burst = Inr (Some b)" and "tb_steps b labs b'"
  shows "int (admissions labs) \<le> burst + int (fires labs)
    \<and> int (ch_len (tb_tokens b')) \<le> burst"
proof
  note new = newTokenBucket_new [OF assms(1)]
  have "int (tb_potential b) = burst" using new by (simp add: tb_potential_def)
  with tb_steps_potential [OF assms(2)] show "int (admissions labs) \<le> burst + int (fires labs)" by simp
  have "tb_inv b'" using tb_steps_inv [OF assms(2) new(1)] .
  with tb_steps_burst [OF assms(2)] new(5) show "int (ch_len (tb_tokens b')) \<le> burst"
    by (auto simp: tb_inv_def chan_ok_def)
qed

definition demo_tb :: tokenBucket where
  "demo_tb = \<lparr>tb_name = ''global'', tb_rate = 10, tb_burst = 1,
     tb_tokens = \<lparr>ch_cap = 1, ch_len = 1\<rparr>, tb_period = 100000000, tb_tick = False,
     tb_stopped = False, tb_done = False, tb_refilling = True\<rparr>"

lemma demo_tb_new: "newTokenBucket ''global'' 10 1 = Inr (Some demo_tb)"
  by (simp add: newTokenBucket_def newTicker_def demo_tb_def make_chan_def try_send_def)

lemma demo_tb_run:
  "\<exists>b. tb_steps demo_tb [Allow True, Allow False, Fire, Refill, Allow True] b"
proof -
  let ?e = "demo_tb\<lparr>tb_tokens := \<lparr>ch_cap = 1, ch_len = 0\<rparr>\<rparr>"
  let ?f = "?e\<lparr>tb_tick := True\<rparr>"
  have "tb_step demo_tb (Allow True) ?e" "tb_step ?e (Allow False) ?e"
    by (rule tb_step.allow, simp add: demo_tb_def try_recv_def)+
  moreover have "tb_step ?e Fire ?f" by (rule tb_step.fire) (simp add: demo_tb_def)
  moreover have "tb_step ?f Refill demo_tb"
    using tb_step.refill [of ?f] by (simp add: demo_tb_def tb_refill_tick_def try_send_def)
  ultimately show ?thesis by (meson tb_steps.intros)
qed

theorem tokenBucket_rate_limit_witness:
  "\<exists>b. tb_steps demo_tb [Allow True, Allow False, Fire, Refill, Allow True] b
    \<and> int (ch_len (tb_tokens b)) \<le> 1"
  using demo_tb_run tokenBucket_rate_limit [OF demo_tb_new] by blast

text \<open>
  After \<^verbatim>\<open>Close\<close> a bucket drains: whatever else happens to it, every request it still lets
  through takes one of the tokens it had at that moment, and no token is ever added again.
\<close>

theorem tokenBucket_closed_drains:
  assumes "tb_inv b" and "tb_Close (Some b) = Some b0" and "tb_steps b0 labs b'"
  shows "ch_len (tb_tokens b') + admissions labs = ch_len (tb_tokens b)"
proof -
  have "tb_done b0" and "ch_len (tb_tokens b0) = ch_len (tb_tokens b)"
    using assms(2) by (auto split: if_splits)
  moreover have "tb_inv b0" using tb_step_inv [OF tb_step.close [OF assms(2)] assms(1)] .
  ultimately show ?thesis using tb_steps_closed [OF assms(3)] by simp
qed

theorem tokenBucket_closed_drains_witness:
  "ch_len (tb_tokens (the (tb_Close (Some demo_tb)))) + admissions [CloseB] = 1"
proof -
  have c: "tb_Close (Some demo_tb) = Some (the (tb_Close (Some demo_tb)))" by (simp add: demo_tb_def)
  have "tb_steps (the (tb_Close (Some demo_tb))) [CloseB] (the (tb_Close (Some demo_tb)))"
    by (rule tb_steps.more [OF tb_step.close tb_steps.none]) (simp add: demo_tb_def)
  from tokenBucket_closed_drains [OF newTokenBucket_new(1) [OF demo_tb_new] c this]
  show ?thesis by (simp add: demo_tb_def)
qed

text \<open>
  For every rate and burst the configuration accepts as enabled (1 to 100000), the
  constructor returns a bucket, neither nil nor a panic of \<^verbatim>\<open>time.NewTicker\<close>; its ticker fires at
  most every 10 microseconds, often enough that a second holds at least \<^verbatim>\<open>rate\<close> periods and at
  least \<^verbatim>\<open>burst\<close> requests are let through at once.
\<close>

theorem newTokenBucket_accepts_config_range:
  assumes "0 < rate" and "rate \<le> 100000" and "0 < burst"
  shows "\<exists>b. newTokenBucket name rate burst = Inr (Some b) \<and> 10000 \<le> tb_period b
    \<and> rate * tb_period b \<le> second
    \<and> fst (gate_run tb_take tb_refill_tick b (replicate (nat burst) Take)) = replicate (nat burst) True"
proof -
  have p: "10000 \<le> second div rate"
    using zdiv_mono2 [of second rate 100000] assms(1,2) by simp
  then obtain b where b: "newTokenBucket name rate burst = Inr (Some b)" "tb_period b = second div rate"
    using assms by (auto simp: newTokenBucket_def newTicker_def)
  note new = newTokenBucket_new [OF b(1)]
  have "rate * (second div rate) \<le> second"
    using mult_div_mod_eq [of rate second] pos_mod_sign [of rate second] assms(1) by linarith
  moreover have "chan_ok (tb_tokens b)" using new(1) by (simp add: tb_inv_def)
  ultimately show ?thesis
    using p b new(2) tb.all_taken [of b "nat burst"] by auto
qed

theorem newTokenBucket_accepts_config_range_witness:
  "\<exists>b. newTokenBucket ''global'' 70000 5 = Inr (Some b) \<and> 10000 \<le> tb_period b"
  using newTokenBucket_accepts_config_range [of 70000 5 "''global''"] by auto

end
