(* ===== verification/Middleware.thy ===== *)
theory Middleware
  imports Http Metrics Limiter Token_Bucket Health_Checker
begin

text \<open>
  The middlewares of \<^verbatim>\<open>internal/server/middleware.go\<close>, \<^verbatim>\<open>internal/ratelimit\<close>,
  \<^verbatim>\<open>internal/concurrency\<close> and \<^verbatim>\<open>internal/health\<close>, the route id of a request
  (\<^verbatim>\<open>route_context.go\<close>) and the system routes (\<^verbatim>\<open>system_handlers.go\<close>).

  A handler takes a request, the state of the gateway and the response writer, and gives the new
  state and writer, or \<open>None\<close> if it never returns. A middleware reaches the limiter it closes over
  through a getter and a setter on the state. Log lines are not modelled.
\<close>

type_synonym 's handler = "http_request \<Rightarrow> 's \<Rightarrow> writer \<Rightarrow> ('s \<times> writer) option"

section \<open>The route id of a request\<close>

definition SetRouteID :: "string \<Rightarrow> statusRecorder \<Rightarrow> statusRecorder" where
  "SetRouteID routeID r = (if routeID = '''' then r else r\<lparr>sr_routeID := routeID\<rparr>)"

text \<open>
  \<^verbatim>\<open>setRouteIDToResponseWriter\<close>. The \<^verbatim>\<open>for\<close> loop ends only by its \<^verbatim>\<open>return\<close> or on a nil writer
  (\<open>None\<close>): the unwrapping stands behind the loop, not in it. There, \<^verbatim>\<open>w\<close> is nil, so the type
  assertion fails and the function returns.
\<close>

fun as_setter :: "writer \<Rightarrow> (string \<Rightarrow> writer) option" where
  "as_setter (Conn c) = None"
| "as_setter (Recorder r w) = Some (\<lambda>routeID. Recorder (SetRouteID routeID r) w)"

partial_function (option) setRouteIDToResponseWriter ::
    "string \<Rightarrow> writer option \<Rightarrow> writer option option" where
  "setRouteIDToResponseWriter routeID w =
     (case w of
        None \<Rightarrow> Some None
      | Some w' \<Rightarrow>
          (case as_setter w' of
             Some setter \<Rightarrow> Some (Some (setter routeID))
           | None \<Rightarrow> setRouteIDToResponseWriter routeID w))"

definition withRouteID :: "string \<Rightarrow> 's handler \<Rightarrow> 's handler" where
  "withRouteID routeID next = (\<lambda>r s w.
     case setRouteIDToResponseWriter routeID (Some w) of
       Some (Some w') \<Rightarrow> next (r\<lparr>rq_Context := (rq_Context r)\<lparr>ctx_routeID := Some routeID\<rparr>\<rparr>) s w'
     | _ \<Rightarrow> None)"

definition path_routeID :: "string \<Rightarrow> string" where
  "path_routeID path =
     (if has_prefix path ''/admin/'' \<or> path = ''/metrics'' then ''admin''
      else if path = ''/ping'' \<or> path = ''/health'' \<or> path = ''/version'' then ''system''
      else ''unknown'')"

definition routeIDFromRequest :: "http_request option \<Rightarrow> string" where
  "routeIDFromRequest r0 =
     (case r0 of
        None \<Rightarrow> ''unknown''
      | Some r \<Rightarrow>
          (case ctx_routeID (rq_Context r) of
             Some routeID \<Rightarrow> if routeID \<noteq> '''' then routeID else path_routeID (url_Path (rq_URL r))
           | None \<Rightarrow> path_routeID (url_Path (rq_URL r))))"

section \<open>The middlewares\<close>

definition sr_StatusCode :: "statusRecorder \<Rightarrow> int" where
  "sr_StatusCode r = (if sr_statusCode r = 0 then 200 else sr_statusCode r)"

text \<open>
  \<^verbatim>\<open>accessLogMiddleware\<close>: the handler runs with a recorder around the writer, and what it recorded
  goes into the registry. \<open>cost\<close> is what \<^verbatim>\<open>time.Since(start)\<close> gives. The recorder is the one the
  middleware made: handlers write through it and do not replace it.
\<close>

definition accessLogMiddleware ::
    "('s \<Rightarrow> registry option) \<Rightarrow> (registry option \<Rightarrow> 's \<Rightarrow> 's) \<Rightarrow> duration \<Rightarrow> 's handler \<Rightarrow> 's handler" where
  "accessLogMiddleware get_reg put_reg cost next = (\<lambda>r s w.
     case next r s (newStatusRecorder w) of
       Some (s', Recorder recorder w') \<Rightarrow>
         (let routeID = (if sr_routeID recorder = '''' then routeIDFromRequest (Some r) else sr_routeID recorder);
              rec = \<lparr>mr_RouteID = routeID, mr_StatusCode = sr_StatusCode recorder,
                     mr_ByteWritten = sr_bytesWritten recorder, mr_Latency = cost\<rparr>
          in Some (put_reg (map_option (Record rec) (get_reg s')) s', w'))
     | _ \<Rightarrow> None)"

text \<open>\<^verbatim>\<open>context.WithTimeout\<close> keeps an earlier deadline.\<close>

definition timeoutMiddleware :: "duration \<Rightarrow> go_time \<Rightarrow> 's handler \<Rightarrow> 's handler" where
  "timeoutMiddleware timeout now next = (\<lambda>r s w.
     next (r\<lparr>rq_Context := (rq_Context r)\<lparr>ctx_deadline :=
       Some (case ctx_deadline (rq_Context r) of None \<Rightarrow> now + timeout | Some d \<Rightarrow> min d (now + timeout))\<rparr>\<rparr>) s w)"

definition plain_text :: "writer \<Rightarrow> writer" where
  "plain_text w = edit_header (header_set ''Content-Type'' ''text/plain; charset=utf-8'') w"

definition ratelimit_Middleware ::
    "('s \<Rightarrow> tokenBucket option) \<Rightarrow> (tokenBucket option \<Rightarrow> 's \<Rightarrow> 's) \<Rightarrow> 's handler \<Rightarrow> 's handler" where
  "ratelimit_Middleware get_limiter put_limiter next = (\<lambda>r s w.
     if get_limiter s = None then next r s w
     else
       (let (ok, l) = tb_Allow (get_limiter s); s1 = put_limiter l s
        in if \<not> ok then Some (s1, http_Error ''rate limit exceeded'' 429 (plain_text w))
           else next r s1 w))"

text \<open>\<^verbatim>\<open>defer limiter.Release()\<close> gives the place back once the handler has returned.\<close>

definition concurrency_Middleware ::
    "('s \<Rightarrow> limiter option) \<Rightarrow> (limiter option \<Rightarrow> 's \<Rightarrow> 's) \<Rightarrow> 's handler \<Rightarrow> 's handler" where
  "concurrency_Middleware get_limiter put_limiter next = (\<lambda>r s w.
     if get_limiter s = None then next r s w
     else
       (let (ok, l) = tryAcquire (get_limiter s); s1 = put_limiter l s
        in if \<not> ok then Some (s1, http_Error ''concurrency limit exceeded'' 503 (plain_text w))
           else (case next r s1 w of
                   None \<Rightarrow> None
                 | Some (s2, w2) \<Rightarrow> Some (put_limiter (release (get_limiter s2)) s2, w2))))"

definition health_Middleware :: "('s \<Rightarrow> checker option) \<Rightarrow> 's handler \<Rightarrow> 's handler" where
  "health_Middleware get_checker next = (\<lambda>r s w.
     if get_checker s = None then next r s w
     else if \<not> hc_Available (get_checker s)
     then Some (s, http_Error ''backend unhealthy'' 503
            (edit_header (header_set ''X-Gateway-Backend-Health'' ''unhealthy'') (plain_text w)))
     else next r s w)"

section \<open>System routes\<close>

definition get_only :: "string \<Rightarrow> 's handler" where
  "get_only body = (\<lambda>r s w.
     if rq_Method r \<noteq> ''GET'' then Some (s, http_Error ''method not allowed'' 405 w)
     else Some (s, w_Write body w))"

definition handlePing :: "'s handler" where "handlePing = get_only ''pong''"
definition handleHealth :: "'s handler" where "handleHealth = get_only ''ok''"
definition handleVersion :: "'s handler" where "handleVersion = get_only ''go-mini-gateway v0.1.0''"

section \<open>Facts\<close>

lemma setRouteID_recorder [simp]:
  "setRouteIDToResponseWriter routeID (Some (Recorder r w)) = Some (Some (Recorder (SetRouteID routeID r) w))"
  by (subst setRouteIDToResponseWriter.simps) simp

lemma setRouteID_nil [simp]: "setRouteIDToResponseWriter routeID None = Some None"
  by (subst setRouteIDToResponseWriter.simps) simp

lemma setRouteID_returns:
  assumes "setRouteIDToResponseWriter routeID w = Some y"
  shows "w = None \<or> (\<exists>r w'. w = Some (Recorder r w'))"
proof (rule setRouteIDToResponseWriter.raw_induct
    [where P = "\<lambda>routeID w y. w = None \<or> (\<exists>r w'. w = Some (Recorder r w'))", OF _ assms])
  fix f :: "string \<Rightarrow> writer option \<Rightarrow> writer option option" and routeID w y
  assume IH: "\<And>routeID w y. f routeID w = Some y \<Longrightarrow> w = None \<or> (\<exists>r w'. w = Some (Recorder r w'))"
    and ret: "(case w of
        None \<Rightarrow> Some None
      | Some w' \<Rightarrow>
          (case as_setter w' of
             Some setter \<Rightarrow> Some (Some (setter routeID))
           | None \<Rightarrow> f routeID w)) = Some y"
  show "w = None \<or> (\<exists>r w'. w = Some (Recorder r w'))"
  proof (cases w)
    case (Some w')
    show ?thesis
    proof (cases w')
      case (Conn c)
      then have "f routeID w = Some y" using ret Some by simp
      then show ?thesis by (rule IH)
    qed (use Some in blast)
  qed blast
qed

text \<open>
  \<^verbatim>\<open>setRouteIDToResponseWriter\<close> returns exactly for a nil writer and for a writer that has a
  \<^verbatim>\<open>SetRouteID\<close> itself; for any other writer, one that could be unwrapped included, its loop never
  ends. (The server only calls it with a recorder.)
\<close>

theorem setRouteID_terminates_iff:
  "(\<exists>y. setRouteIDToResponseWriter routeID w = Some y) \<longleftrightarrow> w = None \<or> (\<exists>r w'. w = Some (Recorder r w'))"
  using setRouteID_returns by fastforce

text \<open>The route id is kept by everything that writes through the recorder.\<close>

fun recorder_of :: "writer \<Rightarrow> statusRecorder option" where
  "recorder_of (Conn c) = None"
| "recorder_of (Recorder r w) = Some r"

lemma recorder_edit [simp]: "recorder_of (edit_header f w) = recorder_of w"
  by (cases w) simp_all

lemma withRouteID_recorder:
  "withRouteID routeID next r s (Recorder rc w) =
    next (r\<lparr>rq_Context := (rq_Context r)\<lparr>ctx_routeID := Some routeID\<rparr>\<rparr>) s (Recorder (SetRouteID routeID rc) w)"
  by (simp add: withRouteID_def)

text \<open>What a handler can do with a writer.\<close>

datatype writer_op = Op_Header "header \<Rightarrow> header" | Op_WriteHeader int | Op_Write string | Op_Flush

fun run_op :: "writer_op \<Rightarrow> writer \<Rightarrow> writer" where
  "run_op (Op_Header f) w = edit_header f w"
| "run_op (Op_WriteHeader status) w = w_WriteHeader status w"
| "run_op (Op_Write data) w = w_Write data w"
| "run_op Op_Flush w = w_Flush w"

definition final_status :: "int \<Rightarrow> bool" where
  "final_status status \<longleftrightarrow> 100 \<le> status \<and> status \<le> 999 \<and> \<not> informational status"

fun op_final :: "writer_op \<Rightarrow> bool" where
  "op_final (Op_WriteHeader status) = final_status status"
| "op_final op = True"

definition agree :: "statusRecorder \<Rightarrow> conn \<Rightarrow> bool" where
  "agree r c \<longleftrightarrow> sr_wroteHeader r = (cn_status c \<noteq> None) \<and>
     sr_statusCode r = (case cn_status c of None \<Rightarrow> 0 | Some st \<Rightarrow> st) \<and> cn_status c \<noteq> Some 0 \<and>
     sr_bytesWritten r = i64 (int (length (cn_body c)))"

fun in_step :: "writer \<Rightarrow> bool" where
  "in_step (Recorder r (Conn c)) = agree r c"
| "in_step w = False"

fun_cases in_stepE: "in_step w"

lemma agree_written: "agree r c \<Longrightarrow> sr_wroteHeader r \<Longrightarrow> \<exists>st. cn_status c = Some st \<and> st \<noteq> 0"
  by (auto simp: agree_def)

lemma in_step_op:
  assumes "in_step w" and "op_final op"
  shows "in_step (run_op op w)"
proof -
  obtain r c where w: "w = Recorder r (Conn c)" and rc: "agree r c" using assms(1) by (elim in_stepE)
  show ?thesis
  proof (cases "cn_status c")
    case None
    with rc have "\<not> sr_wroteHeader r" "sr_statusCode r = 0" by (simp_all add: agree_def)
    with None rc assms(2) show ?thesis
      by (cases op) (auto simp: w agree_def conn_WriteHeader_def final_status_def count_bytes_def
          informational_def Let_def)
  next
    case (Some st)
    with rc have "sr_wroteHeader r" "sr_statusCode r = st" by (simp_all add: agree_def)
    with Some rc show ?thesis
      by (cases op) (auto simp: w agree_def conn_WriteHeader_def count_bytes_def Let_def)
  qed
qed

lemma in_step_ops: "in_step w \<Longrightarrow> list_all op_final ops \<Longrightarrow> in_step (fold run_op ops w)"
  by (induction ops arbitrary: w) (simp_all add: in_step_op)

lemma in_step_new: "in_step (newStatusRecorder (Conn new_conn))"
  by (simp add: agree_def newStatusRecorder_def)

text \<open>The connection when the handler has returned: a status that was never written is 200.\<close>

definition sent_status :: "conn \<Rightarrow> int" where
  "sent_status c = (case cn_status c of None \<Rightarrow> 200 | Some st \<Rightarrow> st)"

text \<open>
  The access log is right about what was sent: whatever a handler does with the recorder
  (headers, statuses, writes and flushes in any order and number, later statuses ignored), as long
  as it writes no informational status, the recorder reports the status that the client got, and
  the number of bytes of the body (modulo the wrap of \<^verbatim>\<open>int64\<close>).
\<close>

theorem recorder_reports_what_was_sent:
  assumes "list_all op_final ops"
  shows "\<exists>r c. fold run_op ops (newStatusRecorder (Conn new_conn)) = Recorder r (Conn c)
    \<and> sr_StatusCode r = sent_status c \<and> sr_bytesWritten r = i64 (int (length (cn_body c)))"
proof -
  have "in_step (fold run_op ops (newStatusRecorder (Conn new_conn)))"
    using assms in_step_new by (intro in_step_ops)
  then obtain r c where "fold run_op ops (newStatusRecorder (Conn new_conn)) = Recorder r (Conn c)" "agree r c"
    by (elim in_stepE)
  moreover from this(2) have "sr_StatusCode r = sent_status c" "sr_bytesWritten r = i64 (int (length (cn_body c)))"
    by (auto simp: agree_def sr_StatusCode_def sent_status_def split: option.splits)
  ultimately show ?thesis by blast
qed

theorem recorder_reports_what_was_sent_witness:
  "\<exists>r c. fold run_op [Op_WriteHeader 404, Op_Write ''not '', Op_WriteHeader 200, Op_Write ''found'']
      (newStatusRecorder (Conn new_conn)) = Recorder r (Conn c)
    \<and> sr_StatusCode r = 404 \<and> sr_bytesWritten r = 9 \<and> cn_body c = ''not found''"
  using recorder_reports_what_was_sent [of "[Op_WriteHeader 404, Op_Write ''not '', Op_WriteHeader 200, Op_Write ''found'']"]
  by (auto simp: final_status_def informational_def newStatusRecorder_def conn_WriteHeader_def
      sent_status_def sr_StatusCode_def count_bytes_def Let_def)

text \<open>
  An informational status is taken for the final one, and the final status that follows it is
  swallowed: after a 103 and a 404 with a body, which a bare connection sends as such, the client
  of a recorder is told 200, and the log says 103.
\<close>

theorem recorder_swallows_final_status:
  "cn_status (the_conn (w_Write data (w_WriteHeader 404 (w_WriteHeader 103 (newStatusRecorder (Conn new_conn))))))
      = Some 200
    \<and> map_option sr_StatusCode (recorder_of (w_Write data (w_WriteHeader 404 (w_WriteHeader 103
        (newStatusRecorder (Conn new_conn)))))) = Some 103
    \<and> cn_status (the_conn (w_Write data (w_WriteHeader 404 (w_WriteHeader 103 (Conn new_conn))))) = Some 404"
  by (simp add: newStatusRecorder_def conn_WriteHeader_def informational_def Let_def count_bytes_def
      sr_StatusCode_def)

end
