(* ===== verification/Route_Runtime.thy ===== *)
theory Route_Runtime
  imports Config Proxy_Handler Middleware
begin

text \<open>
  \<^verbatim>\<open>internal/server/route_runtime.go\<close> and \<^verbatim>\<open>runtime.go\<close>: from a configuration to the routes, their
  limiters and proxies, the patterns of the mux and the main handler.

  What the code reaches through pointers lives in a store, and a pointer is a position in it: the
  routes, the lists that are closed later and the handlers share these objects. \<^verbatim>\<open>http.ServeMux\<close>
  panics on a pattern it cannot parse and on one that conflicts with a registered one; which these
  are is a parameter. A panic is a value, and the store as it then is comes with it.
\<close>

section \<open>The store\<close>

record gateway =
  gw_proxies :: "proxyHandler list"
  gw_buckets :: "tokenBucket list"
  gw_semaphores :: "limiter list"
  gw_registry :: "registry option"

definition get_at :: "('s \<Rightarrow> 'a list) \<Rightarrow> nat option \<Rightarrow> 's \<Rightarrow> 'a option" where
  "get_at field a s = (case a of None \<Rightarrow> None | Some i \<Rightarrow> Some (field s ! i))"

definition put_bucket :: "nat option \<Rightarrow> tokenBucket option \<Rightarrow> gateway \<Rightarrow> gateway" where
  "put_bucket a v g =
     (case (a, v) of (Some i, Some b) \<Rightarrow> g\<lparr>gw_buckets := (gw_buckets g)[i := b]\<rparr> | _ \<Rightarrow> g)"

definition put_semaphore :: "nat option \<Rightarrow> limiter option \<Rightarrow> gateway \<Rightarrow> gateway" where
  "put_semaphore a v g =
     (case (a, v) of (Some i, Some l) \<Rightarrow> g\<lparr>gw_semaphores := (gw_semaphores g)[i := l]\<rparr> | _ \<Rightarrow> g)"

definition put_proxy :: "nat \<Rightarrow> proxyHandler \<Rightarrow> gateway \<Rightarrow> gateway" where
  "put_proxy i h g = g\<lparr>gw_proxies := (gw_proxies g)[i := h]\<rparr>"

definition put_registry :: "registry option \<Rightarrow> gateway \<Rightarrow> gateway" where
  "put_registry reg g = g\<lparr>gw_registry := reg\<rparr>"

text \<open>A new object: its pointer and the store with it.\<close>

definition new_proxy :: "proxyHandler \<Rightarrow> gateway \<Rightarrow> nat \<times> gateway" where
  "new_proxy h g = (length (gw_proxies g), g\<lparr>gw_proxies := gw_proxies g @ [h]\<rparr>)"

fun new_bucket :: "tokenBucket option \<Rightarrow> gateway \<Rightarrow> nat option \<times> gateway" where
  "new_bucket None g = (None, g)"
| "new_bucket (Some b) g = (Some (length (gw_buckets g)), g\<lparr>gw_buckets := gw_buckets g @ [b]\<rparr>)"

fun new_semaphore :: "limiter option \<Rightarrow> gateway \<Rightarrow> nat option \<times> gateway" where
  "new_semaphore None g = (None, g)"
| "new_semaphore (Some l) g = (Some (length (gw_semaphores g)), g\<lparr>gw_semaphores := gw_semaphores g @ [l]\<rparr>)"

section \<open>Routes\<close>

record routeRuntime =
  rr_id :: string
  rr_prefix :: string
  rr_stripPrefix :: string
  rr_target :: string
  rr_upstreams :: "upstreamSnapshot list"
  rr_rateLimitRPS :: go_int
  rr_rateLimitBurst :: go_int
  rr_maxConcurrency :: go_int
  rr_healthCheckEnabled :: bool
  rr_healthCheckPath :: string
  rr_proxyHandler :: nat
  rr_rateLimiter :: "nat option"
  rr_concurrencyLimiter :: "nat option"
  rr_healthChecker :: "checker option"

record routeRegisterResult =
  res_routes :: "routeRuntime list"
  res_proxyHandlers :: "nat list"
  res_rateLimiters :: "nat option list"
  res_healthCheckers :: "checker list"

datatype build_error =
    RequestTimeoutInvalid config_error
  | ActiveHealthOptionsFailed string config_error
  | PassiveHealthOptionsFailed string config_error
  | CircuitBreakerOptionsFailed string config_error
  | ProxyHandlerFailed string proxy_error

datatype build_panic = TickerPanicked ticker_panic | PatternInvalid string | PatternConflict string string

datatype build_stop = BuildError build_error | BuildPanic build_panic

definition toProxyActiveHealthOptions :: "healthCheckConfig \<Rightarrow> config_error + activeHealthOptions" where
  "toProxyActiveHealthOptions h =
     (if \<not> hcc_Enabled h then Inr \<lparr>aho_Enabled = False, aho_Path = '''', aho_Interval = 0, aho_Timeout = 0\<rparr>
      else res_bind (IntervalDuration h) (\<lambda>interval.
           res_bind (TimeoutDuration h) (\<lambda>timeout.
             Inr \<lparr>aho_Enabled = True, aho_Path = hcc_Path h, aho_Interval = interval, aho_Timeout = timeout\<rparr>)))"

definition toProxyPassiveHealthOptions :: "passiveHealthConfig \<Rightarrow> config_error + passiveHealthOptions" where
  "toProxyPassiveHealthOptions p =
     (if \<not> phc_Enabled p
      then Inr \<lparr>pho_Enabled = False, pho_FailureThreshold = 0, pho_SuccessThreshold = 0, pho_UnhealthyDuration = 0\<rparr>
      else res_bind (UnhealthyDurationDuration p) (\<lambda>unhealthyDuration.
        Inr \<lparr>pho_Enabled = phc_Enabled p, pho_FailureThreshold = phc_FailureThreshold p,
             pho_SuccessThreshold = phc_SuccessThreshold p, pho_UnhealthyDuration = unhealthyDuration\<rparr>))"

definition toProxyCircuitBreakerOptions :: "circuitBreakerConfig \<Rightarrow> config_error + circuitBreakerOptions" where
  "toProxyCircuitBreakerOptions c =
     (if \<not> cbc_Enabled c
      then Inr \<lparr>cbo_Enabled = False, cbo_FailureThreshold = 0, cbo_OpenDuration = 0, cbo_HalfOpenMaxRequests = 0\<rparr>
      else res_bind (OpenDurationDuration c) (\<lambda>openDuration.
        Inr \<lparr>cbo_Enabled = cbc_Enabled c, cbo_FailureThreshold = cbc_FailureThreshold c,
             cbo_OpenDuration = openDuration, cbo_HalfOpenMaxRequests = cbc_HalfOpenMaxRequests c\<rparr>))"

definition toProxyUpstreamOptions :: "upstreamConfig list \<Rightarrow> upstreamOptions list" where
  "toProxyUpstreamOptions upstreams = map (\<lambda>u. \<lparr>uo_ID = uc_ID u, uo_URL = uc_URL u\<rparr>) upstreams"

fun wrap_error :: "('e \<Rightarrow> 'f) \<Rightarrow> 'e + 'a \<Rightarrow> 'f + 'a" where
  "wrap_error f (Inl e) = Inl (f e)"
| "wrap_error f (Inr x) = Inr x"

definition route_newProxyHandler :: "url_parser \<Rightarrow> routeConfig \<Rightarrow> build_error + proxyHandler" where
  "route_newProxyHandler url_parse route =
     res_bind (wrap_error (ActiveHealthOptionsFailed (rc_ID route)) (toProxyActiveHealthOptions (rc_HealthCheck route)))
       (\<lambda>activeHealth.
     res_bind (wrap_error (PassiveHealthOptionsFailed (rc_ID route)) (toProxyPassiveHealthOptions (rc_PassiveHealth route)))
       (\<lambda>passiveHealth.
     res_bind (wrap_error (CircuitBreakerOptionsFailed (rc_ID route)) (toProxyCircuitBreakerOptions (rc_CircuitBreaker route)))
       (\<lambda>circuitBreaker.
     wrap_error (ProxyHandlerFailed (rc_ID route)) (newProxyHandler url_parse
       \<lparr>po_RouteID = rc_ID route, po_Target = rc_Target route,
        po_Upstreams = toProxyUpstreamOptions (rc_Upstreams route), po_StripPrefix = rc_StripPrefix route,
        po_ActiveHealth = activeHealth, po_PassiveHealth = passiveHealth, po_CircuitBreaker = circuitBreaker\<rparr>))))"

definition newRouteRuntime ::
    "(url \<Rightarrow> string) \<Rightarrow> go_time \<Rightarrow> routeConfig \<Rightarrow> proxyHandler \<Rightarrow> nat \<Rightarrow> routeRuntime" where
  "newRouteRuntime url_string now route handler ptr =
     \<lparr>rr_id = rc_ID route, rr_prefix = rc_Prefix route, rr_stripPrefix = rc_StripPrefix route,
      rr_target = rc_Target route, rr_upstreams = UpstreamSnapshots url_string now handler,
      rr_rateLimitRPS = rc_RateLimitRPS route, rr_rateLimitBurst = rc_RateLimitBurst route,
      rr_maxConcurrency = rc_MaxConcurrency route, rr_healthCheckEnabled = hcc_Enabled (rc_HealthCheck route),
      rr_healthCheckPath = hcc_Path (rc_HealthCheck route), rr_proxyHandler = ptr,
      rr_rateLimiter = None, rr_concurrencyLimiter = None, rr_healthChecker = None\<rparr>"

definition applyRouteConcurrencyLimit :: "routeConfig \<Rightarrow> routeRuntime \<Rightarrow> gateway \<Rightarrow> routeRuntime \<times> gateway" where
  "applyRouteConcurrencyLimit route rr g =
     (if rc_MaxConcurrency route \<le> 0 then (rr, g)
      else
        (let (ptr, g') = new_semaphore (newLimiter (''route:'' @ rc_ID route) (rc_MaxConcurrency route)) g
         in (rr\<lparr>rr_concurrencyLimiter := ptr\<rparr>, g')))"

text \<open>The list of limiters to close grows by the new one, even if it is nil.\<close>

definition applyRouteRateLimit ::
    "routeConfig \<Rightarrow> routeRuntime \<Rightarrow> nat option list \<Rightarrow> gateway \<Rightarrow>
     ticker_panic + routeRuntime \<times> nat option list \<times> gateway" where
  "applyRouteRateLimit route rr limiters g =
     (if rc_RateLimitRPS route \<le> 0 then Inr (rr, limiters, g)
      else
        (case newTokenBucket (''route:'' @ rc_ID route) (rc_RateLimitRPS route) (rc_RateLimitBurst route) of
           Inl p \<Rightarrow> Inl p
         | Inr limiter \<Rightarrow>
             (let (ptr, g') = new_bucket limiter g
              in Inr (rr\<lparr>rr_rateLimiter := ptr\<rparr>, limiters @ [ptr], g'))))"

section \<open>The mux\<close>

datatype mux_target = PingRoute | HealthRoute | VersionRoute | ProxyRoute nat

type_synonym mux = "(string \<times> mux_target) list"

record mux_rules =
  mux_invalid :: "string \<Rightarrow> bool"
  mux_conflict :: "string \<Rightarrow> string \<Rightarrow> bool"

definition mux_Handle ::
    "mux_rules \<Rightarrow> string \<Rightarrow> 'a \<Rightarrow> (string \<times> 'a) list \<Rightarrow> build_panic + (string \<times> 'a) list" where
  "mux_Handle rules pattern target m =
     (if mux_invalid rules pattern then Inl (PatternInvalid pattern)
      else case find (\<lambda>q. mux_conflict rules pattern q) (map fst m) of
        Some q \<Rightarrow> Inl (PatternConflict pattern q)
      | None \<Rightarrow> Inr (m @ [(pattern, target)]))"

definition registerRoutePatterns :: "mux_rules \<Rightarrow> string \<Rightarrow> mux_target \<Rightarrow> mux \<Rightarrow> build_panic + mux" where
  "registerRoutePatterns rules path handler m =
     res_bind (mux_Handle rules path handler m) (\<lambda>m1.
       let exactPath = trim_suffix path ''/''
       in if exactPath \<noteq> '''' \<and> exactPath \<noteq> path then mux_Handle rules exactPath handler m1 else Inr m1)"

definition registerSystemRoutes :: "mux_rules \<Rightarrow> mux \<Rightarrow> build_panic + mux" where
  "registerSystemRoutes rules m =
     res_bind (mux_Handle rules ''/ping'' PingRoute m) (\<lambda>m1.
     res_bind (mux_Handle rules ''/health'' HealthRoute m1) (\<lambda>m2.
     mux_Handle rules ''/version'' VersionRoute m2))"

section \<open>Building\<close>

text \<open>
  What building reads from outside: \<^verbatim>\<open>url.Parse\<close>, \<^verbatim>\<open>URL.String\<close>, the time of the first
  snapshots, and the mux.
\<close>

record build_env =
  be_parse :: url_parser
  be_string :: "url \<Rightarrow> string"
  be_now :: go_time
  be_rules :: mux_rules

text \<open>One turn of the loop of \<^verbatim>\<open>registerRoutes\<close>. It stops with the store as it has become.\<close>

definition register_route ::
    "build_env \<Rightarrow> routeConfig \<Rightarrow> gateway \<times> mux \<times> routeRegisterResult \<Rightarrow>
     gateway \<times> (build_stop + mux \<times> routeRegisterResult)" where
  "register_route env route st =
     (case st of (g, m, result) \<Rightarrow>
       (case route_newProxyHandler (be_parse env) route of
          Inl e \<Rightarrow> (g, Inl (BuildError e))
        | Inr handler \<Rightarrow>
            (let (ptr, g1) = new_proxy handler g;
                 rr0 = newRouteRuntime (be_string env) (be_now env) route handler ptr;
                 (rr1, g2) = applyRouteConcurrencyLimit route rr0 g1
             in case applyRouteRateLimit route rr1 (res_rateLimiters result) g2 of
                  Inl p \<Rightarrow> (g2, Inl (BuildPanic (TickerPanicked p)))
                | Inr (rr2, limiters, g3) \<Rightarrow>
                    (case registerRoutePatterns (be_rules env) (rc_Prefix route)
                            (ProxyRoute (length (res_routes result))) m of
                       Inl p \<Rightarrow> (g3, Inl (BuildPanic p))
                     | Inr m' \<Rightarrow>
                         (g3, Inr (m', result\<lparr>res_routes := res_routes result @ [rr2],
                            res_rateLimiters := limiters,
                            res_proxyHandlers := res_proxyHandlers result @ [ptr]\<rparr>))))))"

fun register_all ::
    "build_env \<Rightarrow> routeConfig list \<Rightarrow> gateway \<times> mux \<times> routeRegisterResult \<Rightarrow>
     gateway \<times> (build_stop + mux \<times> routeRegisterResult)" where
  "register_all env [] st = (fst st, Inr (snd st))"
| "register_all env (route # routes) st =
     (case register_route env route st of
        (g, Inl e) \<Rightarrow> (g, Inl e)
      | (g, Inr (m, result)) \<Rightarrow> register_all env routes (g, m, result))"

definition no_routes :: routeRegisterResult where
  "no_routes = \<lparr>res_routes = [], res_proxyHandlers = [], res_rateLimiters = [], res_healthCheckers = []\<rparr>"

definition registerRoutes ::
    "build_env \<Rightarrow> mux \<Rightarrow> routeConfig list \<Rightarrow> gateway \<Rightarrow> gateway \<times> (build_stop + mux \<times> routeRegisterResult)" where
  "registerRoutes env m routes g = register_all env routes (g, m, no_routes)"

text \<open>
  The main handler: the mux with the routes it leads to, the timeout around it, and the global
  limiters around that (a nil pointer where there is none).
\<close>

record mainHandler =
  mh_mux :: mux
  mh_routes :: "routeRuntime list"
  mh_timeout :: duration
  mh_concurrency :: "nat option"
  mh_rate :: "nat option"

record runtimeBundle =
  rb_handler :: mainHandler
  rb_routes :: "routeRuntime list"
  rb_proxyHandlers :: "nat list"
  rb_rateLimiters :: "nat option list"
  rb_healthCheckers :: "checker list"
  rb_globalRateLimiter :: "nat option"
  rb_globalConcurrencyLimiter :: "nat option"

definition buildRuntime :: "build_env \<Rightarrow> config \<Rightarrow> gateway \<Rightarrow> gateway \<times> (build_stop + runtimeBundle)" where
  "buildRuntime env cfg g0 =
     (case RequestTimeoutDuration cfg of
        Inl e \<Rightarrow> (g0, Inl (BuildError (RequestTimeoutInvalid e)))
      | Inr requestTimeout \<Rightarrow>
          (case registerSystemRoutes (be_rules env) [] of
             Inl p \<Rightarrow> (g0, Inl (BuildPanic p))
           | Inr m0 \<Rightarrow>
               (case registerRoutes env m0 (cfg_Routes cfg) g0 of
                  (g1, Inl e) \<Rightarrow> (g1, Inl e)
                | (g1, Inr (m, result)) \<Rightarrow>
                    (let s = cfg_Server cfg;
                         (conc, g2) = (if sc_MaxConcurrency s > 0
                                       then new_semaphore (newLimiter ''global'' (sc_MaxConcurrency s)) g1
                                       else (None, g1));
                         rated = (if sc_RateLimitRPS s > 0
                                  then (case newTokenBucket ''global'' (sc_RateLimitRPS s) (sc_RateLimitBurst s) of
                                          Inl p \<Rightarrow> Inl p
                                        | Inr limiter \<Rightarrow>
                                            (let (ptr, g3) = new_bucket limiter g2
                                             in Inr (ptr, res_rateLimiters result @ [ptr], g3)))
                                  else Inr (None, res_rateLimiters result, g2))
                     in case rated of
                          Inl p \<Rightarrow> (g2, Inl (BuildPanic (TickerPanicked p)))
                        | Inr (rate, limiters, g3) \<Rightarrow>
                            (g3, Inr \<lparr>rb_handler = \<lparr>mh_mux = m, mh_routes = res_routes result,
                                 mh_timeout = requestTimeout, mh_concurrency = conc, mh_rate = rate\<rparr>,
                               rb_routes = res_routes result, rb_proxyHandlers = res_proxyHandlers result,
                               rb_rateLimiters = limiters, rb_healthCheckers = res_healthCheckers result,
                               rb_globalRateLimiter = rate, rb_globalConcurrencyLimiter = conc\<rparr>)))))"

section \<open>The patterns of a configuration\<close>

definition patterns_of :: "string \<Rightarrow> string list" where
  "patterns_of path =
     (let exactPath = trim_suffix path ''/''
      in if exactPath \<noteq> '''' \<and> exactPath \<noteq> path then [path, exactPath] else [path])"

definition system_patterns :: "string list" where
  "system_patterns = [''/ping'', ''/health'', ''/version'']"

definition config_patterns :: "config \<Rightarrow> string list" where
  "config_patterns cfg = system_patterns @ concat (map (patterns_of \<circ> rc_Prefix) (cfg_Routes cfg))"

text \<open>
  What the mux documents for a pattern that starts with a slash and has no blank, no wildcard and
  nothing escaped: it is valid, and conflicts with another such pattern exactly if they are equal.
\<close>

definition literal_pattern :: "string \<Rightarrow> bool" where
  "literal_pattern p \<longleftrightarrow> has_prefix p ''/'' \<and> list_all (\<lambda>c. c \<notin> {CHR '' '', byte 9, CHR ''{'', CHR ''}'', CHR ''%''}) p"

definition literal_rules :: "mux_rules \<Rightarrow> bool" where
  "literal_rules rules \<longleftrightarrow>
     (\<forall>p q. literal_pattern p \<longrightarrow> literal_pattern q \<longrightarrow>
        \<not> mux_invalid rules p \<and> (mux_conflict rules p q \<longleftrightarrow> p = q))"

section \<open>Registering patterns\<close>

lemma find_unique: "(\<And>q. q \<in> set xs \<Longrightarrow> P q \<longleftrightarrow> q = p) \<Longrightarrow> find P xs = (if p \<in> set xs then Some p else None)"
  by (induction xs) auto

lemma mux_Handle_literal:
  assumes "literal_rules rules" and "literal_pattern p" and "list_all literal_pattern (map fst m)"
  shows "mux_Handle rules p t m =
    (if p \<in> set (map fst m) then Inl (PatternConflict p p) else Inr (m @ [(p, t)]))"
proof -
  have "find (\<lambda>q. mux_conflict rules p q) (map fst m) = (if p \<in> set (map fst m) then Some p else None)"
    using assms by (intro find_unique) (auto simp: literal_rules_def list_all_iff)
  then show ?thesis using assms(1,2) by (auto simp: mux_Handle_def literal_rules_def)
qed

lemma patterns_distinct: "distinct (patterns_of path)"
  by (auto simp: patterns_of_def Let_def)

lemma registerRoutePatterns_literal:
  assumes "literal_rules rules" and "list_all literal_pattern (patterns_of path)"
    and "list_all literal_pattern (map fst m)"
  shows "if set (patterns_of path) \<inter> set (map fst m) = {}
    then registerRoutePatterns rules path t m = Inr (m @ map (\<lambda>p. (p, t)) (patterns_of path))
    else \<exists>p. registerRoutePatterns rules path t m = Inl (PatternConflict p p)"
proof -
  have lit: "literal_pattern path" using assms(2) by (auto simp: patterns_of_def Let_def split: if_splits)
  let ?e = "trim_suffix path ''/''"
  show ?thesis
  proof (cases "path \<in> set (map fst m)")
    case True
    then show ?thesis
      using mux_Handle_literal [OF assms(1) lit assms(3)]
      by (auto simp: registerRoutePatterns_def patterns_of_def Let_def)
  next
    case out: False
    then have h: "mux_Handle rules path t m = Inr (m @ [(path, t)])"
      using mux_Handle_literal [OF assms(1) lit assms(3)] by simp
    show ?thesis
    proof (cases "?e \<noteq> '''' \<and> ?e \<noteq> path")
      case True
      then have pe: "patterns_of path = [path, ?e]" by (simp add: patterns_of_def Let_def)
      then have "literal_pattern ?e" using assms(2) by simp
      from mux_Handle_literal [OF assms(1) this, of "m @ [(path, t)]"] lit assms(3) True out h pe
      show ?thesis by (auto simp: registerRoutePatterns_def Let_def image_iff)
    next
      case False
      then show ?thesis using h out by (auto simp: registerRoutePatterns_def patterns_of_def Let_def)
    qed
  qed
qed

section \<open>Building a route\<close>

lemma usable_same: "usable_url = usable"
  by (intro ext) (simp add: usable_url_def usable_def split: sum.split)

lemma options_ok:
  "health_ok h \<Longrightarrow> \<exists>o'. toProxyActiveHealthOptions h = Inr o'"
  "passive_ok p \<Longrightarrow> \<exists>o'. toProxyPassiveHealthOptions p = Inr o'"
  "breaker_ok c \<Longrightarrow> \<exists>o'. toProxyCircuitBreakerOptions c = Inr o'"
  by (auto simp: health_ok_def passive_ok_def breaker_ok_def toProxyActiveHealthOptions_def
      toProxyPassiveHealthOptions_def toProxyCircuitBreakerOptions_def duration_ok_def split: sum.splits)

lemma options_limits:
  "passive_ok p \<Longrightarrow> toProxyPassiveHealthOptions p = Inr o1 \<Longrightarrow>
    is_int64 (pho_FailureThreshold o1) \<and> is_int64 (pho_SuccessThreshold o1)"
  "breaker_ok c \<Longrightarrow> toProxyCircuitBreakerOptions c = Inr o2 \<Longrightarrow>
    is_int64 (cbo_FailureThreshold o2) \<and> is_int64 (cbo_HalfOpenMaxRequests o2)"
  by (auto simp: passive_ok_def breaker_ok_def toProxyPassiveHealthOptions_def
      toProxyCircuitBreakerOptions_def res_bind_Inr is_int64_def split: if_splits)

lemma wrap_error_Inr [simp]: "wrap_error f r = Inr x \<longleftrightarrow> r = Inr x"
  by (cases r) simp_all

lemma toProxyUpstreamOptions_usable:
  "upstreams_ok parse us \<Longrightarrow> toProxyUpstreamOptions us \<noteq> [] \<and>
    list_all (\<lambda>o'. usable parse (uo_URL o')) (toProxyUpstreamOptions us)"
  by (auto simp: toProxyUpstreamOptions_def upstreams_ok_def list_all_iff)

text \<open>A valid route can always be built, and what is built is in order.\<close>

lemma route_built:
  assumes "route_ok parse route"
  obtains h where "route_newProxyHandler parse route = Inr h"
  and "h_inv h" and "h_upstreams h \<noteq> []" and "h_routeID h = rc_ID route"
  and "h_stripPrefix h = rc_StripPrefix route" and "list_all fresh_upstream (h_upstreams h)"
  and "length (h_upstreams h) = length (rc_Upstreams route)"
proof -
  have ok: "health_ok (rc_HealthCheck route)" "passive_ok (rc_PassiveHealth route)"
    "breaker_ok (rc_CircuitBreaker route)" "upstreams_ok parse (rc_Upstreams route)"
    using assms by (simp_all add: route_ok_def)
  obtain a p c where opts: "toProxyActiveHealthOptions (rc_HealthCheck route) = Inr a"
    "toProxyPassiveHealthOptions (rc_PassiveHealth route) = Inr p"
    "toProxyCircuitBreakerOptions (rc_CircuitBreaker route) = Inr c"
    using options_ok ok by blast
  let ?o = "\<lparr>po_RouteID = rc_ID route, po_Target = rc_Target route,
     po_Upstreams = toProxyUpstreamOptions (rc_Upstreams route), po_StripPrefix = rc_StripPrefix route,
     po_ActiveHealth = a, po_PassiveHealth = p, po_CircuitBreaker = c\<rparr>"
  have "effective_upstreams ?o \<noteq> [] \<and> list_all (\<lambda>opt. usable_url parse (uo_URL opt)) (effective_upstreams ?o)"
    using toProxyUpstreamOptions_usable [OF ok(4)] by (simp add: effective_upstreams_def usable_same)
  then obtain h where h: "newProxyHandler parse ?o = Inr h" using newProxyHandler_iff by blast
  have "effective_upstreams ?o = toProxyUpstreamOptions (rc_Upstreams route)"
    using toProxyUpstreamOptions_usable [OF ok(4)] by (simp add: effective_upstreams_def)
  then have "length (h_upstreams h) = length (rc_Upstreams route)"
    using h buildUpstreams_nth(1) by (auto simp: newProxyHandler_Inr toProxyUpstreamOptions_def)
  moreover have fit: "limits_fit ?o"
    using options_limits(1) [OF ok(2) opts(2)] options_limits(2) [OF ok(3) opts(3)]
    by (simp add: limits_fit_def)
  moreover have "h_routeID h = rc_ID route" "h_stripPrefix h = rc_StripPrefix route"
    using h by (auto simp: newProxyHandler_Inr)
  moreover have "route_newProxyHandler parse route = Inr h"
    using h opts by (simp add: route_newProxyHandler_def)
  ultimately show ?thesis
    using that newProxyHandler_inv [OF h fit] newProxyHandler_upstreams(3) [OF h fit] by blast
qed

lemma newTicker_config: "0 < rate \<Longrightarrow> rate \<le> 100000 \<Longrightarrow> newTicker (second div rate) = Inr (second div rate)"
  using zdiv_mono2 [of second rate 100000] by (simp add: newTicker_def)

lemma newTokenBucket_config:
  "rate \<le> 100000 \<Longrightarrow> \<exists>b. newTokenBucket name rate burst = Inr b \<and> (b = None \<longleftrightarrow> rate \<le> 0 \<or> burst \<le> 0)"
  by (cases "0 < rate") (auto simp: newTokenBucket_def newTicker_config)

section \<open>Where the mux leads\<close>

text \<open>Whatever the mux makes of the patterns, it leads only to routes that have been built.\<close>

fun target_in :: "nat \<Rightarrow> mux_target \<Rightarrow> bool" where
  "target_in n (ProxyRoute i) \<longleftrightarrow> i < n"
| "target_in n t \<longleftrightarrow> True"

definition led :: "nat \<Rightarrow> mux \<Rightarrow> bool" where
  "led n m \<longleftrightarrow> list_all (\<lambda>(p, t). target_in n t) m"

lemma led_Handle: "mux_Handle rules p t m = Inr m' \<Longrightarrow> led n m \<Longrightarrow> target_in n t \<Longrightarrow> led n m'"
  by (auto simp: mux_Handle_def led_def split: if_splits option.splits)

lemma led_patterns: "registerRoutePatterns rules p t m = Inr m' \<Longrightarrow> led n m \<Longrightarrow> target_in n t \<Longrightarrow> led n m'"
  unfolding registerRoutePatterns_def Let_def res_bind_Inr
  by (auto split: if_splits intro: led_Handle)

lemma led_more: "led n m \<Longrightarrow> n \<le> k \<Longrightarrow> led k m"
proof -
  have "target_in n t \<Longrightarrow> n \<le> k \<Longrightarrow> target_in k t" for t by (cases t) simp_all
  then show "led n m \<Longrightarrow> n \<le> k \<Longrightarrow> led k m" by (auto simp: led_def list_all_iff)
qed

lemma led_route:
  assumes "register_route env route (g, m, result) = (g', Inr (m', result'))" and "led (length (res_routes result)) m"
  shows "led (length (res_routes result')) m'"
proof -
  let ?n = "length (res_routes result)"
  have "registerRoutePatterns (be_rules env) (rc_Prefix route) (ProxyRoute ?n) m = Inr m'"
    and "length (res_routes result') = Suc ?n"
    using assms(1) by (auto simp: register_route_def Let_def split: sum.splits prod.splits if_splits)
  with led_patterns [OF _ led_more [OF assms(2)], of "be_rules env" "rc_Prefix route" "ProxyRoute ?n" m' "Suc ?n"]
  show ?thesis by simp
qed

lemma led_all:
  "register_all env routes (g, m, result) = (g', Inr (m', result')) \<Longrightarrow> led (length (res_routes result)) m \<Longrightarrow>
    led (length (res_routes result')) m'"
proof (induction routes arbitrary: g m result)
  case (Cons route routes)
  then show ?case by (auto split: sum.splits prod.splits dest: led_route)
qed simp

lemma buildRuntime_led:
  assumes "buildRuntime env cfg g0 = (g, Inr rt)"
  shows "led (length (mh_routes (rb_handler rt))) (mh_mux (rb_handler rt))"
proof -
  obtain m0 m result g1 where m0: "registerSystemRoutes (be_rules env) [] = Inr m0"
    and r: "registerRoutes env m0 (cfg_Routes cfg) g0 = (g1, Inr (m, result))"
    and rt: "mh_mux (rb_handler rt) = m" "mh_routes (rb_handler rt) = res_routes result"
    using assms by (auto simp: buildRuntime_def Let_def split: sum.splits prod.splits if_splits)
  have "led 0 m0" using m0 by (auto simp: registerSystemRoutes_def res_bind_Inr led_def mux_Handle_def split: if_splits option.splits)
  then have "led (length (res_routes no_routes)) m0" by (rule led_more) simp
  with led_all [of env "cfg_Routes cfg" g0 m0 no_routes] r rt show ?thesis by (simp add: registerRoutes_def)
qed

section \<open>What has been built\<close>

text \<open>A later store: the objects of the earlier one unchanged, new ones behind them.\<close>

definition extends :: "gateway \<Rightarrow> gateway \<Rightarrow> bool" where
  "extends g g' \<longleftrightarrow> gw_registry g' = gw_registry g \<and>
     (\<exists>ps. gw_proxies g' = gw_proxies g @ ps) \<and> (\<exists>bs. gw_buckets g' = gw_buckets g @ bs) \<and>
     (\<exists>ls. gw_semaphores g' = gw_semaphores g @ ls)"

lemma extends_refl [simp]: "extends g g"
  by (simp add: extends_def)

lemma extends_trans [trans]: "extends g g' \<Longrightarrow> extends g' g'' \<Longrightarrow> extends g g''"
  by (auto simp: extends_def)

definition open_bucket :: "gateway \<Rightarrow> go_int \<Rightarrow> go_int \<Rightarrow> nat \<Rightarrow> bool" where
  "open_bucket g rate burst i \<longleftrightarrow> i < length (gw_buckets g) \<and> tb_rate (gw_buckets g ! i) = rate \<and>
     tb_burst (gw_buckets g ! i) = burst \<and> tb_inv (gw_buckets g ! i) \<and> \<not> tb_done (gw_buckets g ! i) \<and>
     \<not> tb_tick (gw_buckets g ! i) \<and> int (ch_len (tb_tokens (gw_buckets g ! i))) = burst"

definition rate_wired :: "gateway \<Rightarrow> go_int \<Rightarrow> go_int \<Rightarrow> nat option \<Rightarrow> bool" where
  "rate_wired g rate burst a \<longleftrightarrow>
     (case a of None \<Rightarrow> rate \<le> 0 \<or> burst \<le> 0 | Some i \<Rightarrow> 0 < rate \<and> 0 < burst \<and> open_bucket g rate burst i)"

definition semaphore_wired :: "gateway \<Rightarrow> go_int \<Rightarrow> nat option \<Rightarrow> bool" where
  "semaphore_wired g n a \<longleftrightarrow>
     (case a of None \<Rightarrow> n \<le> 0
      | Some i \<Rightarrow> i < length (gw_semaphores g) \<and> lim_ok (gw_semaphores g ! i) \<and>
          lim_capacity (gw_semaphores g ! i) = n \<and> ch_len (lim_semaphore (gw_semaphores g ! i)) = 0)"

definition proxy_wired :: "gateway \<Rightarrow> routeConfig \<Rightarrow> nat \<Rightarrow> bool" where
  "proxy_wired g route i \<longleftrightarrow> i < length (gw_proxies g) \<and> h_inv (gw_proxies g ! i) \<and>
     h_upstreams (gw_proxies g ! i) \<noteq> [] \<and> list_all fresh_upstream (h_upstreams (gw_proxies g ! i)) \<and>
     length (h_upstreams (gw_proxies g ! i)) = length (rc_Upstreams route) \<and>
     h_routeID (gw_proxies g ! i) = rc_ID route \<and> h_stripPrefix (gw_proxies g ! i) = rc_StripPrefix route"

definition wired :: "gateway \<Rightarrow> routeConfig \<Rightarrow> routeRuntime \<Rightarrow> bool" where
  "wired g route rr \<longleftrightarrow> rr_id rr = rc_ID route \<and> rr_prefix rr = rc_Prefix route \<and>
     rr_healthChecker rr = None \<and> proxy_wired g route (rr_proxyHandler rr) \<and>
     rate_wired g (rc_RateLimitRPS route) (rc_RateLimitBurst route) (rr_rateLimiter rr) \<and>
     semaphore_wired g (rc_MaxConcurrency route) (rr_concurrencyLimiter rr)"

lemma wired_extends:
  assumes "extends g g'"
  shows "proxy_wired g route i \<Longrightarrow> proxy_wired g' route i"
    and "rate_wired g rate burst a \<Longrightarrow> rate_wired g' rate burst a"
    and "semaphore_wired g n a \<Longrightarrow> semaphore_wired g' n a"
    and "wired g route rr \<Longrightarrow> wired g' route rr"
  using assms
  by (auto simp: extends_def wired_def proxy_wired_def rate_wired_def semaphore_wired_def open_bucket_def
      nth_append split: option.splits)

lemma new_semaphore_wired:
  assumes "concurrency_ok n" and "new_semaphore (newLimiter name n) g = (a, g')"
  shows "extends g g' \<and> semaphore_wired g' n a \<and> gw_proxies g' = gw_proxies g \<and> gw_buckets g' = gw_buckets g"
proof (cases "newLimiter name n")
  case None
  then show ?thesis using assms(2) by (auto simp: semaphore_wired_def newLimiter_def split: if_splits)
next
  case (Some l)
  have "is_int64 n" using assms(1) by (simp add: concurrency_ok_def is_int64_def)
  from newLimiter_ok [OF this Some] Some assms(2)
  show ?thesis by (auto simp: extends_def semaphore_wired_def)
qed

lemma new_bucket_wired:
  assumes "newTokenBucket name rate burst = Inr b" and "new_bucket b g = (a, g')"
  shows "extends g g' \<and> rate_wired g' rate burst a \<and> gw_proxies g' = gw_proxies g \<and>
    gw_semaphores g' = gw_semaphores g \<and>
    List.map_filter id [a] = [length (gw_buckets g)..<length (gw_buckets g')]"
proof (cases b)
  case None
  then have "rate \<le> 0 \<or> burst \<le> 0" using assms(1) by (auto simp: newTokenBucket_def res_bind_Inr split: if_splits)
  then show ?thesis using assms(2) None by (auto simp: rate_wired_def map_filter_simps)
next
  case (Some k)
  then have new: "newTokenBucket name rate burst = Inr (Some k)" using assms(1) by simp
  then have "0 < rate \<and> 0 < burst" by (auto simp: newTokenBucket_def split: if_splits)
  with newTokenBucket_new [OF new] show ?thesis
    using assms(2) Some by (auto simp: extends_def rate_wired_def open_bucket_def map_filter_simps)
qed

definition built :: "gateway \<Rightarrow> routeConfig list \<Rightarrow> gateway \<Rightarrow> routeRegisterResult \<Rightarrow> bool" where
  "built g0 routes g result \<longleftrightarrow> extends g0 g \<and> list_all2 (wired g) routes (res_routes result) \<and>
     res_proxyHandlers result = [length (gw_proxies g0)..<length (gw_proxies g)] \<and>
     map rr_proxyHandler (res_routes result) = res_proxyHandlers result \<and>
     List.map_filter id (map rr_rateLimiter (res_routes result)) = List.map_filter id (res_rateLimiters result) \<and>
     List.map_filter id (res_rateLimiters result) = [length (gw_buckets g0)..<length (gw_buckets g)] \<and>
     res_healthCheckers result = []"

lemma built_none: "built g [] g no_routes"
  by (simp add: built_def no_routes_def map_filter_simps)

text \<open>One turn: what it builds, and when it stops.\<close>

definition route_fits :: "mux \<Rightarrow> routeConfig \<Rightarrow> bool" where
  "route_fits m route \<longleftrightarrow> set (patterns_of (rc_Prefix route)) \<inter> set (map fst m) = {}"

lemma applyRouteConcurrencyLimit_wired:
  assumes "concurrency_ok (rc_MaxConcurrency route)" and "rr_concurrencyLimiter rr = None"
    and "applyRouteConcurrencyLimit route rr g = (rr', g')"
  shows "\<exists>a. rr' = rr\<lparr>rr_concurrencyLimiter := a\<rparr> \<and> extends g g' \<and> semaphore_wired g' (rc_MaxConcurrency route) a \<and>
    gw_proxies g' = gw_proxies g \<and> gw_buckets g' = gw_buckets g"
proof (cases "rc_MaxConcurrency route \<le> 0")
  case True
  then show ?thesis using assms(2,3)
    by (intro exI [of _ None]) (auto simp: applyRouteConcurrencyLimit_def semaphore_wired_def)
next
  case False
  then obtain a where "new_semaphore (newLimiter (''route:'' @ rc_ID route) (rc_MaxConcurrency route)) g = (a, g')"
    "rr' = rr\<lparr>rr_concurrencyLimiter := a\<rparr>"
    using assms(3) by (auto simp: applyRouteConcurrencyLimit_def split_beta prod_eq_iff)
  with new_semaphore_wired [OF assms(1)] show ?thesis by metis
qed

lemma applyRouteRateLimit_wired:
  assumes "rate_ok (rc_RateLimitRPS route) (rc_RateLimitBurst route)" and "rr_rateLimiter rr = None"
  shows "\<exists>a as g'. applyRouteRateLimit route rr limiters g = Inr (rr\<lparr>rr_rateLimiter := a\<rparr>, limiters @ as, g') \<and>
    extends g g' \<and> rate_wired g' (rc_RateLimitRPS route) (rc_RateLimitBurst route) a \<and>
    gw_proxies g' = gw_proxies g \<and> gw_semaphores g' = gw_semaphores g \<and>
    List.map_filter id as = [length (gw_buckets g)..<length (gw_buckets g')] \<and>
    List.map_filter id [a] = List.map_filter id as"
proof (cases "rc_RateLimitRPS route \<le> 0")
  case True
  then show ?thesis using assms(2)
    by (intro exI [of _ None] exI [of _ "[]"] exI [of _ g])
       (auto simp: applyRouteRateLimit_def rate_wired_def map_filter_simps)
next
  case False
  obtain b where b: "newTokenBucket (''route:'' @ rc_ID route) (rc_RateLimitRPS route) (rc_RateLimitBurst route) = Inr b"
    using newTokenBucket_config assms(1) unfolding rate_ok_def by blast
  obtain a g' where new: "new_bucket b g = (a, g')" by (metis surj_pair)
  show ?thesis
    using new_bucket_wired [OF b new] False b new
    by (intro exI [of _ a] exI [of _ "[a]"] exI [of _ g']) (auto simp: applyRouteRateLimit_def)
qed

definition route_entries :: "nat \<Rightarrow> routeConfig \<Rightarrow> mux" where
  "route_entries i route = map (\<lambda>p. (p, ProxyRoute i)) (patterns_of (rc_Prefix route))"

lemma map_filter_append: "List.map_filter f (xs @ ys) = List.map_filter f xs @ List.map_filter f ys"
  by (induction xs) (simp_all add: map_filter_simps split: option.split)

lemma upt_join: "i \<le> j \<Longrightarrow> j \<le> k \<Longrightarrow> [i..<j] @ [j..<k] = [i..<k]"
  using upt_add_eq_append [of i j "k - j"] by simp

text \<open>A valid route is built; whether it is registered is up to the mux.\<close>

lemma register_route_core:
  assumes ok: "route_ok (be_parse env) route" and sofar: "built g0 ready g result"
  obtains g' result' where "built g0 (ready @ [route]) g' result'"
    and "\<And>m. register_route env route (g, m, result) =
      (case registerRoutePatterns (be_rules env) (rc_Prefix route) (ProxyRoute (length ready)) m of
         Inl p \<Rightarrow> (g', Inl (BuildPanic p)) | Inr m' \<Rightarrow> (g', Inr (m', result')))"
proof -
  have conc: "concurrency_ok (rc_MaxConcurrency route)"
    and rate: "rate_ok (rc_RateLimitRPS route) (rc_RateLimitBurst route)"
    using ok by (simp_all add: route_ok_def)
  obtain h where h: "route_newProxyHandler (be_parse env) route = Inr h" "h_inv h" "h_upstreams h \<noteq> []"
    "h_routeID h = rc_ID route" "h_stripPrefix h = rc_StripPrefix route" "list_all fresh_upstream (h_upstreams h)"
    "length (h_upstreams h) = length (rc_Upstreams route)"
    using route_built [OF ok] by blast
  let ?ptr = "length (gw_proxies g)"
  let ?g1 = "g\<lparr>gw_proxies := gw_proxies g @ [h]\<rparr>"
  let ?rr0 = "newRouteRuntime (be_string env) (be_now env) route h ?ptr"
  have e1: "extends g ?g1" and p1: "proxy_wired ?g1 route ?ptr"
    using h by (auto simp: extends_def proxy_wired_def)
  have nil: "rr_concurrencyLimiter ?rr0 = None" by (simp add: newRouteRuntime_def)
  obtain rr1 g2 where a2: "applyRouteConcurrencyLimit route ?rr0 ?g1 = (rr1, g2)" by (metis surj_pair)
  then obtain s where rr1: "rr1 = ?rr0\<lparr>rr_concurrencyLimiter := s\<rparr>" and e2: "extends ?g1 g2"
    and s2: "semaphore_wired g2 (rc_MaxConcurrency route) s"
    and f2: "gw_proxies g2 = gw_proxies ?g1" "gw_buckets g2 = gw_buckets ?g1"
    using applyRouteConcurrencyLimit_wired [OF conc nil] by blast
  have "rr_rateLimiter rr1 = None" by (simp add: rr1 newRouteRuntime_def)
  from applyRouteRateLimit_wired [OF rate this, of "res_rateLimiters result" g2]
  obtain b as g3 where a3: "applyRouteRateLimit route rr1 (res_rateLimiters result) g2 =
      Inr (rr1\<lparr>rr_rateLimiter := b\<rparr>, res_rateLimiters result @ as, g3)"
    and e3: "extends g2 g3" and b3: "rate_wired g3 (rc_RateLimitRPS route) (rc_RateLimitBurst route) b"
    and f3: "gw_proxies g3 = gw_proxies g2"
    and as: "List.map_filter id as = [length (gw_buckets g2)..<length (gw_buckets g3)]"
      "List.map_filter id [b] = List.map_filter id as" by blast
  let ?rr = "rr1\<lparr>rr_rateLimiter := b\<rparr>"
  have e: "extends g g3" using e1 e2 e3 extends_trans by blast
  have "wired g3 route ?rr"
    using wired_extends(1) [OF e3 wired_extends(1) [OF e2 p1]] wired_extends(3) [OF e3 s2] b3
    by (simp add: wired_def rr1 newRouteRuntime_def)
  moreover have "list_all2 (wired g3) ready (res_routes result)"
    using sofar wired_extends(4) [OF e] by (auto simp: built_def elim: list_all2_mono)
  moreover have "List.map_filter id (res_rateLimiters result @ as) = [length (gw_buckets g0)..<length (gw_buckets g3)]"
  proof -
    have "length (gw_buckets g0) \<le> length (gw_buckets g)" "length (gw_buckets g2) = length (gw_buckets g)"
      "length (gw_buckets g2) \<le> length (gw_buckets g3)"
      using sofar f2 e3 by (auto simp: built_def extends_def)
    then show ?thesis
      using sofar as(1) by (simp add: built_def map_filter_append upt_join)
  qed
  moreover have "res_proxyHandlers result @ [?ptr] = [length (gw_proxies g0)..<length (gw_proxies g3)]"
    using sofar f2 f3 by (auto simp: built_def extends_def)
  moreover have "List.map_filter id (map rr_rateLimiter (res_routes result @ [?rr])) =
      List.map_filter id (res_rateLimiters result @ as)"
    using sofar as(2) by (simp add: built_def map_filter_append)
  moreover have "extends g0 g3" using sofar e extends_trans by (auto simp: built_def)
  ultimately have new: "built g0 (ready @ [route]) g3 (result\<lparr>res_routes := res_routes result @ [?rr],
      res_rateLimiters := res_rateLimiters result @ as, res_proxyHandlers := res_proxyHandlers result @ [?ptr]\<rparr>)"
    using sofar by (simp add: built_def list_all2_appendI rr1 newRouteRuntime_def)
  have len: "length (res_routes result) = length ready"
    using sofar by (auto simp: built_def dest: list_all2_lengthD)
  have "register_route env route (g, m, result) =
     (case registerRoutePatterns (be_rules env) (rc_Prefix route) (ProxyRoute (length ready)) m of
        Inl p \<Rightarrow> (g3, Inl (BuildPanic p))
      | Inr m' \<Rightarrow> (g3, Inr (m', result\<lparr>res_routes := res_routes result @ [?rr],
          res_rateLimiters := res_rateLimiters result @ as, res_proxyHandlers := res_proxyHandlers result @ [?ptr]\<rparr>)))" for m
    using h(1) a2 a3 len by (simp add: register_route_def new_proxy_def Let_def)
  with new show ?thesis by (rule that)
qed

lemma built_extends: "built g0 ready g result \<Longrightarrow> extends g0 g"
  by (simp add: built_def)

lemma register_route_step:
  assumes ok: "route_ok (be_parse env) route" and rules: "literal_rules (be_rules env)"
    and lit: "list_all literal_pattern (patterns_of (rc_Prefix route))" "list_all literal_pattern (map fst m)"
    and sofar: "built g0 ready g result"
  shows "if route_fits m route
    then \<exists>g' result'. register_route env route (g, m, result) =
        (g', Inr (m @ route_entries (length ready) route, result')) \<and> built g0 (ready @ [route]) g' result'
    else \<exists>g' p. register_route env route (g, m, result) = (g', Inl (BuildPanic (PatternConflict p p))) \<and>
        extends g0 g'"
proof -
  obtain g' result' where new: "built g0 (ready @ [route]) g' result'" and eq: "\<And>m. register_route env route (g, m, result) =
      (case registerRoutePatterns (be_rules env) (rc_Prefix route) (ProxyRoute (length ready)) m of
         Inl p \<Rightarrow> (g', Inl (BuildPanic p)) | Inr m' \<Rightarrow> (g', Inr (m', result')))"
    using register_route_core [OF ok sofar] by blast
  show ?thesis
    using registerRoutePatterns_literal [OF rules lit, of "ProxyRoute (length ready)"] new built_extends [OF new]
    unfolding eq route_fits_def route_entries_def by (auto split: if_splits)
qed

section \<open>Building the runtime\<close>

definition entries_from :: "nat \<Rightarrow> routeConfig list \<Rightarrow> mux" where
  "entries_from i routes = concat (map (\<lambda>(j, route). route_entries j route) (enumerate i routes))"

lemma entries_from_simps [simp]:
  "entries_from i [] = []"
  "entries_from i (route # routes) = route_entries i route @ entries_from (Suc i) routes"
  by (simp_all add: entries_from_def)

lemma route_entries_patterns [simp]: "map fst (route_entries i route) = patterns_of (rc_Prefix route)"
  by (simp add: route_entries_def comp_def)

lemma register_all_literal:
  assumes "list_all (route_ok (be_parse env)) routes" and "literal_rules (be_rules env)"
    and "list_all literal_pattern (concat (map (patterns_of \<circ> rc_Prefix) routes))"
    and "list_all literal_pattern (map fst m)" and "distinct (map fst m)" and "built g0 ready g result"
  shows "if distinct (map fst m @ concat (map (patterns_of \<circ> rc_Prefix) routes))
    then \<exists>g' result'. register_all env routes (g, m, result) =
        (g', Inr (m @ entries_from (length ready) routes, result')) \<and> built g0 (ready @ routes) g' result'
    else \<exists>g' p. register_all env routes (g, m, result) = (g', Inl (BuildPanic (PatternConflict p p))) \<and> extends g0 g'"
  using assms
proof (induction routes arbitrary: ready g m result)
  case Nil
  then show ?case by simp
next
  case (Cons route routes)
  let ?m' = "m @ route_entries (length ready) route"
  have ok: "route_ok (be_parse env) route" and lit: "list_all literal_pattern (patterns_of (rc_Prefix route))"
    using Cons.prems by simp_all
  note turn = register_route_step [OF ok Cons.prems(2) lit Cons.prems(4,6)]
  show ?case
  proof (cases "route_fits m route")
    case True
    with turn obtain g1 r1 where one: "register_route env route (g, m, result) = (g1, Inr (?m', r1))"
      "built g0 (ready @ [route]) g1 r1" by auto
    have p: "list_all literal_pattern (map fst ?m')" "distinct (map fst ?m')"
      using Cons.prems lit True patterns_distinct by (auto simp: route_fits_def)
    have q: "list_all (route_ok (be_parse env)) routes"
      "list_all literal_pattern (concat (map (patterns_of \<circ> rc_Prefix) routes))"
      using Cons.prems by (simp_all add: comp_def)
    have rest: "if distinct (map fst ?m' @ concat (map (patterns_of \<circ> rc_Prefix) routes))
      then \<exists>g' result'. register_all env routes (g1, ?m', r1) =
          (g', Inr (m @ entries_from (length ready) (route # routes), result')) \<and>
          built g0 (ready @ route # routes) g' result'
      else \<exists>g' p. register_all env routes (g1, ?m', r1) = (g', Inl (BuildPanic (PatternConflict p p))) \<and> extends g0 g'"
      using Cons.IH [OF q(1) Cons.prems(2) q(2) p one(2)]
      by (simp only: append_assoc append_Cons append_Nil entries_from_simps length_append list.size
          add_Suc_right add_0_right simp_thms)
    have eq: "register_all env (route # routes) (g, m, result) = register_all env routes (g1, ?m', r1)"
      using one(1) by simp
    have d: "distinct (map fst m @ concat (map (patterns_of \<circ> rc_Prefix) (route # routes))) =
        distinct (map fst ?m' @ concat (map (patterns_of \<circ> rc_Prefix) routes))" by simp
    show ?thesis unfolding eq d by (rule rest)
  next
    case False
    with turn show ?thesis by (auto simp: route_fits_def)
  qed
qed

definition bundle_wired :: "gateway \<Rightarrow> config \<Rightarrow> gateway \<Rightarrow> runtimeBundle \<Rightarrow> bool" where
  "bundle_wired g0 cfg g b \<longleftrightarrow> extends g0 g \<and> list_all2 (wired g) (cfg_Routes cfg) (rb_routes b) \<and>
     rb_proxyHandlers b = [length (gw_proxies g0)..<length (gw_proxies g)] \<and>
     map rr_proxyHandler (rb_routes b) = rb_proxyHandlers b \<and>
     List.map_filter id (map rr_rateLimiter (rb_routes b) @ [rb_globalRateLimiter b]) =
       List.map_filter id (rb_rateLimiters b) \<and>
     List.map_filter id (rb_rateLimiters b) = [length (gw_buckets g0)..<length (gw_buckets g)] \<and>
     rb_healthCheckers b = [] \<and>
     rate_wired g (sc_RateLimitRPS (cfg_Server cfg)) (sc_RateLimitBurst (cfg_Server cfg)) (rb_globalRateLimiter b) \<and>
     semaphore_wired g (sc_MaxConcurrency (cfg_Server cfg)) (rb_globalConcurrencyLimiter b) \<and>
     mh_routes (rb_handler b) = rb_routes b \<and> RequestTimeoutDuration cfg = Inr (mh_timeout (rb_handler b)) \<and>
     mh_concurrency (rb_handler b) = rb_globalConcurrencyLimiter b \<and> mh_rate (rb_handler b) = rb_globalRateLimiter b"

definition bundle_ok :: "gateway \<Rightarrow> config \<Rightarrow> gateway \<Rightarrow> runtimeBundle \<Rightarrow> bool" where
  "bundle_ok g0 cfg g b \<longleftrightarrow> bundle_wired g0 cfg g b \<and>
     mh_mux (rb_handler b) = map (\<lambda>p. (p, if p = ''/ping'' then PingRoute else if p = ''/health'' then HealthRoute
       else VersionRoute)) system_patterns @ entries_from 0 (cfg_Routes cfg)"

lemma system_literal: "list_all literal_pattern system_patterns"
  by code_simp

lemma registerSystemRoutes_literal:
  assumes "literal_rules rules"
  shows "registerSystemRoutes rules [] = Inr [(''/ping'', PingRoute), (''/health'', HealthRoute), (''/version'', VersionRoute)]"
proof -
  have "literal_pattern ''/ping''" "literal_pattern ''/health''" "literal_pattern ''/version''" by code_simp+
  then show ?thesis by (simp add: registerSystemRoutes_def mux_Handle_literal [OF assms])
qed

lemma built_grows: "built g0 routes g result \<Longrightarrow> extends g g' \<Longrightarrow> extends g0 g' \<and> list_all2 (wired g') routes (res_routes result)"
  using wired_extends(4) extends_trans by (auto simp: built_def elim: list_all2_mono)

lemma buildRuntime_finish:
  assumes valid: "valid_config (be_parse env) cfg" and sys: "registerSystemRoutes (be_rules env) [] = Inr m0"
    and r: "registerRoutes env m0 (cfg_Routes cfg) g0 = (g1, Inr (m, result))" "built g0 (cfg_Routes cfg) g1 result"
  shows "\<exists>g b. buildRuntime env cfg g0 = (g, Inr b) \<and> bundle_wired g0 cfg g b \<and> mh_mux (rb_handler b) = m"
proof -
  let ?s = "cfg_Server cfg"
  obtain timeout where t: "RequestTimeoutDuration cfg = Inr timeout"
    using valid by (auto simp: valid_config_def duration_ok_def split: sum.splits)
  have rate: "rate_ok (sc_RateLimitRPS ?s) (sc_RateLimitBurst ?s)" and conc: "concurrency_ok (sc_MaxConcurrency ?s)"
    using valid by (simp_all add: valid_config_def)
  obtain c g2 where c: "(if sc_MaxConcurrency ?s > 0 then new_semaphore (newLimiter ''global'' (sc_MaxConcurrency ?s)) g1
      else (None, g1)) = (c, g2)" by (metis surj_pair)
  have c2: "extends g1 g2 \<and> semaphore_wired g2 (sc_MaxConcurrency ?s) c \<and> gw_proxies g2 = gw_proxies g1 \<and>
      gw_buckets g2 = gw_buckets g1"
    using c new_semaphore_wired [OF conc, of "''global''" g1 c g2]
    by (cases "sc_MaxConcurrency ?s > 0") (auto simp: semaphore_wired_def)
  obtain b where b: "newTokenBucket ''global'' (sc_RateLimitRPS ?s) (sc_RateLimitBurst ?s) = Inr b"
    using newTokenBucket_config rate unfolding rate_ok_def by blast
  obtain a g3 where new: "new_bucket b g2 = (a, g3)" by (metis surj_pair)
  define on where "on = (sc_RateLimitRPS ?s > 0)"
  define h where "h = (if on then a else None)"
  define g where "g = (if on then g3 else g2)"
  define as where "as = (if on then [a] else [])"
  have h3: "extends g2 g \<and> rate_wired g (sc_RateLimitRPS ?s) (sc_RateLimitBurst ?s) h \<and>
      gw_proxies g = gw_proxies g2 \<and> List.map_filter id as = [length (gw_buckets g2)..<length (gw_buckets g)] \<and>
      List.map_filter id [h] = List.map_filter id as"
    using new_bucket_wired [OF b new]
    by (cases on) (auto simp: h_def g_def as_def on_def rate_wired_def map_filter_simps)
  let ?b = "\<lparr>rb_handler = \<lparr>mh_mux = m, mh_routes = res_routes result,
       mh_timeout = timeout, mh_concurrency = c, mh_rate = h\<rparr>,
     rb_routes = res_routes result, rb_proxyHandlers = res_proxyHandlers result,
     rb_rateLimiters = res_rateLimiters result @ as, rb_healthCheckers = res_healthCheckers result,
     rb_globalRateLimiter = h, rb_globalConcurrencyLimiter = c\<rparr>"
  have "buildRuntime env cfg g0 = (g, Inr ?b)"
    using t sys r(1) c b new
    by (cases on) (simp_all add: buildRuntime_def on_def h_def g_def as_def Let_def)
  moreover have "bundle_wired g0 cfg g ?b"
  proof -
    have e: "extends g1 g" using c2 h3 extends_trans by blast
    have "length (gw_buckets g0) \<le> length (gw_buckets g1)" "length (gw_buckets g1) \<le> length (gw_buckets g)"
      using r(2) e by (auto simp: built_def extends_def)
    then have "List.map_filter id (res_rateLimiters result @ as) = [length (gw_buckets g0)..<length (gw_buckets g)]"
      using r(2) h3 c2 by (simp add: built_def map_filter_append upt_join)
    moreover have "semaphore_wired g (sc_MaxConcurrency ?s) c" using c2 h3 wired_extends(3) by blast
    moreover have "List.map_filter id (map rr_rateLimiter (res_routes result) @ [h]) =
        List.map_filter id (res_rateLimiters result @ as)"
      using r(2) h3 by (simp add: built_def map_filter_append)
    ultimately show ?thesis
      using r(2) built_grows [OF r(2) e] h3 c2 t by (simp add: bundle_wired_def built_def)
  qed
  ultimately show ?thesis by auto
qed

text \<open>Whatever the mux makes of the patterns: a build fails only by a panic, and then nothing that existed has changed.\<close>

lemma register_all_sound:
  assumes "list_all (route_ok (be_parse env)) routes" and "built g0 ready g result"
    and "register_all env routes (g, m, result) = (g', r)"
  shows "case r of Inl e \<Rightarrow> (\<exists>p. e = BuildPanic p) \<and>
      (\<exists>n result'. 0 < n \<and> n \<le> length routes \<and> built g0 (ready @ take n routes) g' result')
    | Inr (m', result') \<Rightarrow> built g0 (ready @ routes) g' result'"
  using assms
proof (induction routes arbitrary: ready g m result)
  case Nil
  then show ?case by (auto simp: built_def)
next
  case (Cons route routes)
  have ok: "route_ok (be_parse env) route" "list_all (route_ok (be_parse env)) routes" using Cons.prems(1) by simp_all
  obtain g1 r1 where new: "built g0 (ready @ [route]) g1 r1" and eq: "\<And>m. register_route env route (g, m, result) =
      (case registerRoutePatterns (be_rules env) (rc_Prefix route) (ProxyRoute (length ready)) m of
         Inl p \<Rightarrow> (g1, Inl (BuildPanic p)) | Inr m' \<Rightarrow> (g1, Inr (m', r1)))"
    using register_route_core [OF ok(1) Cons.prems(2)] by blast
  show ?case
  proof (cases "registerRoutePatterns (be_rules env) (rc_Prefix route) (ProxyRoute (length ready)) m")
    case (Inl p)
    then have "g' = g1" "r = Inl (BuildPanic p)" using Cons.prems(3) by (auto simp: eq)
    with new show ?thesis by (auto intro!: exI [of _ 1] exI [of _ r1])
  next
    case (Inr m1)
    then have "register_all env routes (g1, m1, r1) = (g', r)" using Cons.prems(3) by (simp add: eq)
    note rest = Cons.IH [OF ok(2) new this]
    show ?thesis
    proof (cases r)
      case (Inl e)
      with rest obtain p n result' where "e = BuildPanic p" "n \<le> length routes"
        "built g0 ((ready @ [route]) @ take n routes) g' result'" by auto
      with Inl show ?thesis by (auto intro!: exI [of _ "Suc n"] exI [of _ result'])
    next
      case (Inr mr)
      with rest show ?thesis by (cases mr) simp
    qed
  qed
qed

lemma buildRuntime_sound:
  assumes valid: "valid_config (be_parse env) cfg" and b: "buildRuntime env cfg g0 = (g, r)"
  shows "case r of
      Inl e \<Rightarrow> (\<exists>p. e = BuildPanic p) \<and> (\<exists>n result. n \<le> length (cfg_Routes cfg) \<and>
        (0 < n \<or> (\<exists>p. registerSystemRoutes (be_rules env) [] = Inl p)) \<and>
        built g0 (take n (cfg_Routes cfg)) g result)
    | Inr rt \<Rightarrow> bundle_wired g0 cfg g rt"
proof -
  obtain timeout where t: "RequestTimeoutDuration cfg = Inr timeout"
    using valid by (auto simp: valid_config_def duration_ok_def split: sum.splits)
  show ?thesis
  proof (cases "registerSystemRoutes (be_rules env) []")
    case (Inl p)
    then have "g = g0" "r = Inl (BuildPanic p)" using b t by (auto simp: buildRuntime_def)
    with Inl built_none [of g0] show ?thesis by (auto intro!: exI [of _ 0] exI [of _ no_routes])
  next
    case (Inr m0)
    obtain g1 r1 where all: "register_all env (cfg_Routes cfg) (g0, m0, no_routes) = (g1, r1)" by (metis surj_pair)
    have ok: "list_all (route_ok (be_parse env)) (cfg_Routes cfg)" using valid by (simp add: valid_config_def)
    note sound = register_all_sound [OF ok built_none all]
    show ?thesis
    proof (cases r1)
      case (Inl e)
      then have "g = g1" "r = Inl e" using b t Inr all by (auto simp: buildRuntime_def registerRoutes_def)
      with Inl sound show ?thesis by auto
    next
      case r1: (Inr mr)
      obtain m result where mr: "mr = (m, result)" by (metis surj_pair)
      have ready: "built g0 (cfg_Routes cfg) g1 result" using sound r1 mr by simp
      have "registerRoutes env m0 (cfg_Routes cfg) g0 = (g1, Inr (m, result))"
        using all r1 mr by (simp add: registerRoutes_def)
      from buildRuntime_finish [OF valid Inr this ready] obtain rt where "r = Inr rt" "bundle_wired g0 cfg g rt"
        using b by auto
      then show ?thesis by simp
    qed
  qed
qed

lemma buildRuntime_literal:
  assumes valid: "valid_config (be_parse env) cfg" and rules: "literal_rules (be_rules env)"
    and lit: "list_all literal_pattern (config_patterns cfg)"
  shows "if distinct (config_patterns cfg)
    then \<exists>g b. buildRuntime env cfg g0 = (g, Inr b) \<and> bundle_ok g0 cfg g b
    else \<exists>g p. buildRuntime env cfg g0 = (g, Inl (BuildPanic (PatternConflict p p))) \<and> extends g0 g"
proof -
  let ?m0 = "[(''/ping'', PingRoute), (''/health'', HealthRoute), (''/version'', VersionRoute)]"
  obtain timeout where t: "RequestTimeoutDuration cfg = Inr timeout"
    using valid by (auto simp: valid_config_def duration_ok_def split: sum.splits)
  have ok: "list_all (route_ok (be_parse env)) (cfg_Routes cfg)" using valid by (simp add: valid_config_def)
  have m0: "map fst ?m0 = system_patterns" by (simp add: system_patterns_def)
  have sys: "list_all literal_pattern (map fst ?m0)" "distinct (map fst ?m0)"
    unfolding m0 by (rule system_literal, simp add: system_patterns_def)
  have lit': "list_all literal_pattern (concat (map (patterns_of \<circ> rc_Prefix) (cfg_Routes cfg)))"
    using lit by (simp add: config_patterns_def)
  have d: "distinct (map fst ?m0 @ concat (map (patterns_of \<circ> rc_Prefix) (cfg_Routes cfg))) = distinct (config_patterns cfg)"
    unfolding m0 config_patterns_def ..
  note all = register_all_literal [OF ok rules lit' sys built_none [of g0], unfolded d]
  show ?thesis
  proof (cases "distinct (config_patterns cfg)")
    case True
    then obtain g1 result where r: "registerRoutes env ?m0 (cfg_Routes cfg) g0 =
        (g1, Inr (?m0 @ entries_from 0 (cfg_Routes cfg), result))" "built g0 (cfg_Routes cfg) g1 result"
      using all by (auto simp: registerRoutes_def)
    from buildRuntime_finish [OF valid registerSystemRoutes_literal [OF rules] r] True
    show ?thesis by (auto simp: bundle_ok_def system_patterns_def)
  next
    case False
    then show ?thesis
      using all t registerSystemRoutes_literal [OF rules] by (auto simp: buildRuntime_def registerRoutes_def)
  qed
qed

section \<open>Properties\<close>

text \<open>
  C6: Which configurations can be run: for a valid configuration (as \<^verbatim>\<open>Load\<close> returns it) whose prefixes
  are literal, \<^verbatim>\<open>buildRuntime\<close> never returns an error; it succeeds exactly if the patterns of the
  system routes and the two patterns of each route are distinct, and panics in the mux otherwise. If
  it succeeds, nothing that existed before has changed, each route has its own new proxy with fresh
  upstreams, and its own full bucket and empty semaphore exactly where the configuration asks for
  one, and the lists kept for closing hold exactly the new proxies and the new buckets.
\<close>

theorem buildRuntime_succeeds_iff:
  assumes "valid_config (be_parse env) cfg" and "literal_rules (be_rules env)"
    and "list_all literal_pattern (config_patterns cfg)"
  shows "((\<exists>g b. buildRuntime env cfg g0 = (g, Inr b) \<and> bundle_ok g0 cfg g b) \<longleftrightarrow> distinct (config_patterns cfg))
    \<and> ((\<exists>g p. buildRuntime env cfg g0 = (g, Inl (BuildPanic (PatternConflict p p))) \<and> extends g0 g) \<longleftrightarrow>
        \<not> distinct (config_patterns cfg))"
  using buildRuntime_literal [OF assms, of g0] by (auto split: if_splits)

definition demo_rules :: mux_rules where
  "demo_rules = \<lparr>mux_invalid = (\<lambda>p. \<not> has_prefix p ''/''), mux_conflict = (\<lambda>p q. p = q)\<rparr>"

definition demo_build :: build_env where
  "demo_build = \<lparr>be_parse = (\<lambda>_. Inr demo_target), be_string = (\<lambda>u. url_Host u), be_now = 5, be_rules = demo_rules\<rparr>"

definition no_objects :: gateway where
  "no_objects = \<lparr>gw_proxies = [], gw_buckets = [], gw_semaphores = [], gw_registry = None\<rparr>"

lemma demo_rules_literal: "literal_rules (be_rules demo_build)"
  by (auto simp: literal_rules_def demo_build_def demo_rules_def literal_pattern_def)

lemma demo_parse [simp]: "be_parse demo_build = (\<lambda>_. Inr demo_target)"
  by (simp add: demo_build_def)

lemma demo_patterns: "config_patterns demo_config = [''/ping'', ''/health'', ''/version'', ''/api/'', ''/api'']"
  by code_simp

theorem buildRuntime_succeeds_iff_witness:
  "\<exists>g b. buildRuntime demo_build demo_config no_objects = (g, Inr b) \<and> bundle_ok no_objects demo_config g b"
proof -
  have v: "valid_config (be_parse demo_build) demo_config" using demo_config_valid by simp
  have l: "list_all literal_pattern (config_patterns demo_config)" unfolding demo_patterns by code_simp
  have d: "distinct (config_patterns demo_config)" by (simp add: demo_patterns)
  show ?thesis using buildRuntime_succeeds_iff [OF v demo_rules_literal l] d by blast
qed

text \<open>
  A valid configuration can be one that cannot be run: if a route's prefix without its final slash
  is the path of a system route, or another route's (\<open>/a\<close> and \<open>/a/\<close> are told apart by the
  validation, and so are \<open>/a/\<close> and \<open>/a//\<close>, but not all their patterns), building panics.
\<close>

theorem valid_config_can_panic:
  assumes "valid_config (be_parse env) cfg" and "literal_rules (be_rules env)"
    and "list_all literal_pattern (config_patterns cfg)"
    and "route \<in> set (cfg_Routes cfg)" and "p \<in> set (patterns_of (rc_Prefix route))"
    and "p \<in> set system_patterns \<or>
      (\<exists>other \<in> set (cfg_Routes cfg). other \<noteq> route \<and> p \<in> set (patterns_of (rc_Prefix other)))"
  shows "\<exists>g q. buildRuntime env cfg g0 = (g, Inl (BuildPanic (PatternConflict q q)))"
proof -
  have "\<not> distinct (config_patterns cfg)"
  proof
    assume d: "distinct (config_patterns cfg)"
    then have out: "set system_patterns \<inter> set (concat (map (patterns_of \<circ> rc_Prefix) (cfg_Routes cfg))) = {}"
      and dc: "distinct (concat (map (patterns_of \<circ> rc_Prefix) (cfg_Routes cfg)))"
      by (simp_all add: config_patterns_def)
    have "\<exists>other \<in> set (cfg_Routes cfg). other \<noteq> route \<and> p \<in> set (patterns_of (rc_Prefix other))"
      using assms(4-6) out by auto
    then obtain other where o: "other \<in> set (cfg_Routes cfg)" "other \<noteq> route" "p \<in> set (patterns_of (rc_Prefix other))"
      by blast
    from split_list [OF assms(4)] obtain xs ys where r: "cfg_Routes cfg = xs @ route # ys" by blast
    with o have "other \<in> set xs \<or> other \<in> set ys" by auto
    then show False using dc o(3) assms(5) unfolding r by auto
  qed
  with buildRuntime_literal [OF assms(1-3), of g0] show ?thesis by auto
qed

definition ping_config :: config where
  "ping_config = demo_config\<lparr>cfg_Routes := [demo_route\<lparr>rc_Prefix := ''/ping/'', rc_StripPrefix := ''/ping''\<rparr>]\<rparr>"

lemma ping_config_valid: "valid_config (be_parse demo_build) ping_config"
  using demo_config_valid by (simp add: valid_config_def ping_config_def demo_config_def route_ok_def
      has_prefix_Cons1 has_prefix_def RequestTimeoutDuration_def ShutdownTimeoutDuration_def demo_route_def)

lemma ping_patterns: "config_patterns ping_config = [''/ping'', ''/health'', ''/version'', ''/ping/'', ''/ping'']"
  by code_simp

lemma ping_literal: "list_all literal_pattern (config_patterns ping_config)"
  unfolding ping_patterns by code_simp

lemma ping_panics: "\<exists>g p. buildRuntime demo_build ping_config g0 = (g, Inl (BuildPanic (PatternConflict p p)))"
proof -
  have "\<not> distinct (config_patterns ping_config)" by (simp add: ping_patterns)
  with buildRuntime_literal [OF ping_config_valid demo_rules_literal ping_literal, of g0] show ?thesis by auto
qed

theorem valid_config_can_panic_witness:
  "valid_config (be_parse demo_build) ping_config \<and>
   (\<exists>g q. buildRuntime demo_build ping_config no_objects = (g, Inl (BuildPanic (PatternConflict q q))))"
proof -
  let ?r = "demo_route\<lparr>rc_Prefix := ''/ping/'', rc_StripPrefix := ''/ping''\<rparr>"
  have r: "?r \<in> set (cfg_Routes ping_config)" by (simp add: ping_config_def)
  have p: "''/ping'' \<in> set (patterns_of (rc_Prefix ?r))" by code_simp
  have q: "''/ping'' \<in> set system_patterns" by (simp add: system_patterns_def)
  from valid_config_can_panic [OF ping_config_valid demo_rules_literal ping_literal r p] q ping_config_valid
  show ?thesis by blast
qed

end
