(* ===== verification/Gateway.thy ===== *)
theory Gateway
  imports Route_Runtime
begin

text \<open>
  Serving a request: the main handler that \<^verbatim>\<open>buildRuntime\<close> of \<^verbatim>\<open>internal/server/runtime.go\<close> stacks
  up, from the access log through the global limiters, the timeout and the mux to the handler of one
  route (\<^verbatim>\<open>registerRoutes\<close> of \<^verbatim>\<open>route_runtime.go\<close>) or of a system route.

  A request runs here with nothing in between; how requests interleave on one limiter, one breaker
  or one route is the subject of the theories of these components.
\<close>

section \<open>The mux\<close>

text \<open>
  Among the patterns that match, \<^verbatim>\<open>http.ServeMux\<close> takes the most specific one, for literal patterns
  the longest. A pattern that ends with a slash matches every path below it, any other only itself.
\<close>

definition pattern_matches :: "string \<Rightarrow> string \<Rightarrow> bool" where
  "pattern_matches p path \<longleftrightarrow> (if has_suffix p ''/'' then has_prefix path p else path = p)"

fun longest_match :: "string \<Rightarrow> (string \<times> 'a) list \<Rightarrow> (string \<times> 'a) option" where
  "longest_match path [] = None"
| "longest_match path ((p, t) # m) =
     (case longest_match path m of
        None \<Rightarrow> if pattern_matches p path then Some (p, t) else None
      | Some (q, u) \<Rightarrow>
          if pattern_matches p path \<and> length q \<le> length p then Some (p, t) else Some (q, u))"

definition mux_match :: "(string \<times> 'a) list \<Rightarrow> string \<Rightarrow> 'a option" where
  "mux_match m path = map_option snd (longest_match path m)"

section \<open>The handlers\<close>

text \<open>
  What one request meets outside: what \<^verbatim>\<open>ReverseProxy\<close> does to it before the rewrite hook, the
  backends, the clock as each part reads it, and what the mux answers by itself (\<^verbatim>\<open>OPTIONS *\<close> and the
  redirect of a path that is not clean).
\<close>

record serve_env =
  se_prepare :: "http_request \<Rightarrow> http_request"
  se_backend :: "http_request \<Rightarrow> int list \<times> reply"
  se_now :: "nat \<Rightarrow> go_time"
  se_nanos :: go_time
  se_later :: go_time
  se_start :: go_time
  se_cost :: duration
  se_own :: "mux \<Rightarrow> http_request \<Rightarrow> writer_op list option"

definition proxy_handler :: "serve_env \<Rightarrow> nat \<Rightarrow> gateway handler" where
  "proxy_handler env ptr = (\<lambda>r s w.
     let (h, w') = proxy_ServeHTTP (se_prepare env) (se_backend env) (se_now env) (se_nanos env) (se_later env)
           r (gw_proxies s ! ptr) w
     in Some (put_proxy ptr h s, w'))"

text \<open>A limiter a route or the gateway does not have is a nil pointer, and its middleware is the next handler.\<close>

definition rate_limited :: "nat option \<Rightarrow> gateway handler \<Rightarrow> gateway handler" where
  "rate_limited a next = ratelimit_Middleware (get_at gw_buckets a) (put_bucket a) next"

definition slot_limited :: "nat option \<Rightarrow> gateway handler \<Rightarrow> gateway handler" where
  "slot_limited a next = concurrency_Middleware (get_at gw_semaphores a) (put_semaphore a) next"

definition route_handler :: "serve_env \<Rightarrow> routeRuntime \<Rightarrow> gateway handler" where
  "route_handler env rr =
     withRouteID (rr_id rr)
       (rate_limited (rr_rateLimiter rr)
         (slot_limited (rr_concurrencyLimiter rr)
           (proxy_handler env (rr_proxyHandler rr))))"

fun target_handler :: "serve_env \<Rightarrow> routeRuntime list \<Rightarrow> mux_target \<Rightarrow> gateway handler" where
  "target_handler env routes PingRoute = handlePing"
| "target_handler env routes HealthRoute = handleHealth"
| "target_handler env routes VersionRoute = handleVersion"
| "target_handler env routes (ProxyRoute i) = route_handler env (routes ! i)"

definition not_found :: "'s handler" where
  "not_found = (\<lambda>r s w. Some (s, http_Error ''404 page not found'' 404 w))"

definition mux_ServeHTTP :: "serve_env \<Rightarrow> mux \<Rightarrow> routeRuntime list \<Rightarrow> gateway handler" where
  "mux_ServeHTTP env m routes = (\<lambda>r s w.
     case se_own env m r of
       Some answer \<Rightarrow> Some (s, fold run_op answer w)
     | None \<Rightarrow>
         (case mux_match m (url_Path (rq_URL r)) of
            None \<Rightarrow> not_found r s w
          | Some t \<Rightarrow> target_handler env routes t r s w))"

text \<open>What the access log stands around.\<close>

definition inner_handler :: "serve_env \<Rightarrow> mainHandler \<Rightarrow> gateway handler" where
  "inner_handler env mh = rate_limited (mh_rate mh)
     (slot_limited (mh_concurrency mh)
       (timeoutMiddleware (mh_timeout mh) (se_start env) (mux_ServeHTTP env (mh_mux mh) (mh_routes mh))))"

definition main_ServeHTTP :: "serve_env \<Rightarrow> mainHandler \<Rightarrow> gateway handler" where
  "main_ServeHTTP env mh =
     accessLogMiddleware gw_registry put_registry (se_cost env) (inner_handler env mh)"

section \<open>Longest match\<close>

lemma longest_match_None: "longest_match path m = None \<longleftrightarrow> (\<forall>(p, t) \<in> set m. \<not> pattern_matches p path)"
  by (induction path m rule: longest_match.induct) (auto split: option.splits)

lemma longest_match_Some:
  "longest_match path m = Some (p, t) \<Longrightarrow>
    (p, t) \<in> set m \<and> pattern_matches p path \<and> (\<forall>(q, u) \<in> set m. pattern_matches q path \<longrightarrow> length q \<le> length p)"
proof (induction path m arbitrary: p t rule: longest_match.induct)
  case (2 path p' t' m)
  show ?case
  proof (cases "longest_match path m")
    case None
    with 2 longest_match_None [of path m] show ?thesis by (auto split: if_splits)
  next
    case (Some qu)
    then obtain q u where "longest_match path m = Some (q, u)" by (cases qu) auto
    with 2 show ?thesis by (auto split: if_splits)
  qed
qed simp

text \<open>Two patterns of one length that match the same path are the same.\<close>

lemma pattern_matches_prefix: "pattern_matches p path \<Longrightarrow> p = take (length p) path"
  by (auto simp: pattern_matches_def has_prefix_iff split: if_splits)

lemma mux_match_iff:
  assumes "distinct (map fst m)"
  shows "mux_match m path = Some t \<longleftrightarrow>
    (\<exists>p. (p, t) \<in> set m \<and> pattern_matches p path \<and>
      (\<forall>(q, u) \<in> set m. pattern_matches q path \<longrightarrow> length q \<le> length p))"
proof
  assume "mux_match m path = Some t"
  then obtain p where "longest_match path m = Some (p, t)" by (auto simp: mux_match_def)
  from longest_match_Some [OF this] show "\<exists>p. (p, t) \<in> set m \<and> pattern_matches p path \<and>
      (\<forall>(q, u) \<in> set m. pattern_matches q path \<longrightarrow> length q \<le> length p)" by blast
next
  assume "\<exists>p. (p, t) \<in> set m \<and> pattern_matches p path \<and>
      (\<forall>(q, u) \<in> set m. pattern_matches q path \<longrightarrow> length q \<le> length p)"
  then obtain p where p: "(p, t) \<in> set m" "pattern_matches p path"
    "\<forall>(q, u) \<in> set m. pattern_matches q path \<longrightarrow> length q \<le> length p" by blast
  then have "longest_match path m \<noteq> None" using longest_match_None by fastforce
  then obtain q u where qu: "longest_match path m = Some (q, u)" by auto
  note found = longest_match_Some [OF qu]
  have "length q = length p" using found p by (intro le_antisym) auto
  then have "q = p" using found p(2) pattern_matches_prefix by metis
  moreover have "u = t" using assms p(1) found \<open>q = p\<close> eq_key_imp_eq_value by fastforce
  ultimately show "mux_match m path = Some t" using qu by (simp add: mux_match_def)
qed

lemma mux_match_None: "mux_match m path = None \<longleftrightarrow> (\<forall>(p, t) \<in> set m. \<not> pattern_matches p path)"
  by (simp add: mux_match_def longest_match_None)

section \<open>What every handler keeps\<close>

text \<open>
  A contract for handlers: on a writer that is in order a handler returns, with a writer that is in
  order, and the state it leaves is related to the one it found. What the middlewares do on their own
  must respect it; then they respect it around every handler that does.
\<close>

definition runs :: "('s \<Rightarrow> 's \<Rightarrow> bool) \<Rightarrow> (writer \<Rightarrow> bool) \<Rightarrow> 's handler \<Rightarrow> bool" where
  "runs R W h \<longleftrightarrow> (\<forall>r s w. W w \<longrightarrow> (\<exists>s' w'. h r s w = Some (s', w') \<and> R s s' \<and> W w'))"

lemma runsD: "runs R W h \<Longrightarrow> W w \<Longrightarrow> \<exists>s' w'. h r s w = Some (s', w') \<and> R s s' \<and> W w'"
  by (simp add: runs_def)

locale service =
  fixes R :: "'s \<Rightarrow> 's \<Rightarrow> bool" and W :: "writer \<Rightarrow> bool"
  assumes R_refl: "R s s"
    and R_trans: "R s s' \<Longrightarrow> R s' s'' \<Longrightarrow> R s s''"
    and W_edit: "W w \<Longrightarrow> W (edit_header f w)"
    and W_status: "W w \<Longrightarrow> final_status status \<Longrightarrow> W (w_WriteHeader status w)"
    and W_body: "W w \<Longrightarrow> W (w_Write data w)"
begin

lemma W_error: "W w \<Longrightarrow> final_status status \<Longrightarrow> W (http_Error msg status w)"
  by (simp add: http_Error_def W_edit W_status W_body)

lemma W_plain: "W w \<Longrightarrow> W (plain_text w)"
  by (simp add: plain_text_def W_edit)

lemma runs_get_only: "runs R W (get_only body)"
  using R_refl by (auto simp: runs_def get_only_def final_status_def informational_def intro!: W_error W_body)

lemma runs_not_found: "runs R W not_found"
  using R_refl by (auto simp: runs_def not_found_def final_status_def informational_def intro!: W_error)

lemma runs_timeout: "runs R W next \<Longrightarrow> runs R W (timeoutMiddleware timeout now next)"
  by (auto simp: runs_def timeoutMiddleware_def)

lemma runs_rate:
  assumes "runs R W next" and put: "\<And>s. R s (put_limiter (snd (tb_Allow (get_limiter s))) s)"
  shows "runs R W (ratelimit_Middleware get_limiter put_limiter next)"
  unfolding runs_def
proof (intro allI impI)
  fix r s w assume w: "W w"
  obtain ok l where a: "tb_Allow (get_limiter s) = (ok, l)" by (cases "tb_Allow (get_limiter s)")
  have "W (http_Error ''rate limit exceeded'' 429 (plain_text w))"
    using w by (intro W_error W_plain) (simp_all add: final_status_def informational_def)
  moreover obtain s2 w2 where n: "next r (put_limiter l s) w = Some (s2, w2)" "R (put_limiter l s) s2" "W w2"
    using runsD [OF assms(1) w] by blast
  moreover have "R s (put_limiter l s)" using put [of s] a by simp
  moreover from this n(2) have "R s s2" by (rule R_trans)
  ultimately show "\<exists>s' w'. ratelimit_Middleware get_limiter put_limiter next r s w = Some (s', w') \<and> R s s' \<and> W w'"
    using runsD [OF assms(1) w, of r s]
    by (cases "get_limiter s = None") (auto simp: ratelimit_Middleware_def a Let_def simp del: tb_Allow.simps)
qed

lemma runs_concurrency:
  assumes "runs R W next"
    and refuse: "\<And>s l. tryAcquire (get_limiter s) = (False, l) \<Longrightarrow> R s (put_limiter l s)"
    and bracket: "\<And>s s' l. get_limiter s \<noteq> None \<Longrightarrow> tryAcquire (get_limiter s) = (True, l) \<Longrightarrow>
      R (put_limiter l s) s' \<Longrightarrow> R s (put_limiter (release (get_limiter s')) s')"
  shows "runs R W (concurrency_Middleware get_limiter put_limiter next)"
  unfolding runs_def
proof (intro allI impI)
  fix r s w assume w: "W w"
  obtain ok l where a: "tryAcquire (get_limiter s) = (ok, l)" by (cases "tryAcquire (get_limiter s)")
  have "W (http_Error ''concurrency limit exceeded'' 503 (plain_text w))"
    using w by (intro W_error W_plain) (simp_all add: final_status_def informational_def)
  moreover obtain s2 w2 where "next r (put_limiter l s) w = Some (s2, w2)" "R (put_limiter l s) s2" "W w2"
    using runsD [OF assms(1) w] by blast
  ultimately show "\<exists>s' w'. concurrency_Middleware get_limiter put_limiter next r s w = Some (s', w') \<and> R s s' \<and> W w'"
    using runsD [OF assms(1) w, of r s] refuse [of s l] bracket [of s l s2] a
    by (cases ok) (auto simp: concurrency_Middleware_def)
qed

lemma W_bodies: "W w \<Longrightarrow> W (fold w_Write body w)"
  by (induction body arbitrary: w) (simp_all add: W_body)

end

text \<open>What a backend and the mux itself may write.\<close>

definition allowed :: "(writer \<Rightarrow> bool) \<Rightarrow> int \<Rightarrow> bool" where
  "allowed W status \<longleftrightarrow> (\<forall>w. W w \<longrightarrow> W (w_WriteHeader status w))"

definition reply_allowed :: "(writer \<Rightarrow> bool) \<Rightarrow> int list \<times> reply \<Rightarrow> bool" where
  "reply_allowed W ir \<longleftrightarrow> list_all (allowed W) (fst ir) \<and>
     (case snd ir of Reply status hdr body \<Rightarrow> allowed W status | Broken err \<Rightarrow> True)"

definition env_allowed :: "(writer \<Rightarrow> bool) \<Rightarrow> serve_env \<Rightarrow> bool" where
  "env_allowed W env \<longleftrightarrow> (\<forall>q. reply_allowed W (se_backend env q)) \<and>
     (\<forall>m r ops. se_own env m r = Some ops \<longrightarrow> (\<forall>w. W w \<longrightarrow> W (fold run_op ops w)))"

context service
begin

lemma W_informs: "list_all (allowed W) informs \<Longrightarrow> W w \<Longrightarrow> W (fold inform informs w)"
  by (induction informs arbitrary: w) (simp_all add: inform_def allowed_def W_edit)

lemma W_reply:
  assumes "reply_allowed W (informs, reply)" and "W w"
  shows "W (snd (serve_reply now out informs reply h w))"
proof -
  have w: "W (fold inform informs w)" using assms by (intro W_informs) (simp_all add: reply_allowed_def)
  show ?thesis
  proof (cases reply)
    case (Reply status hdr body)
    then have "allowed W status" using assms(1) by (simp add: reply_allowed_def)
    with Reply w show ?thesis
      by (auto simp: serve_reply_def split_beta deliver_def modifyResponse_def Let_def allowed_def
          intro!: W_bodies W_edit)
  next
    case (Broken err)
    have "final_status (statusCodeFromProxyError err)"
      using status_502_504 [of err] by (auto simp: final_status_def informational_def)
    with Broken w show ?thesis by (simp add: serve_reply_def handleProxyError_def Let_def W_error)
  qed
qed

lemma W_proxy:
  assumes "\<And>q. reply_allowed W (backend q)" and "W w"
  shows "W (snd (proxy_ServeHTTP prepare backend now nanos later r h w))"
proof (cases "serve_select now r h w")
  case (Pair h1 sel)
  show ?thesis
  proof (cases sel)
    case (Inl w1)
    have "final_status 503" by (simp add: final_status_def informational_def)
    with Inl Pair assms(2) show ?thesis
      by (auto simp: proxy_ServeHTTP_def serve_select_def Let_def W_error W_edit split: option.splits prod.splits)
  next
    case (Inr q)
    with Pair show ?thesis
      using W_reply [OF _ assms(2)] assms(1) by (auto simp: proxy_ServeHTTP_def split: prod.splits) (metis snd_conv)
  qed
qed

end

section \<open>The contract of the gateway's handlers\<close>

locale gateway_service = service R W
  for R :: "gateway \<Rightarrow> gateway \<Rightarrow> bool" and W :: "writer \<Rightarrow> bool" +
  fixes mine :: "nat \<Rightarrow> bool"
  assumes put_bucket: "R s (put_bucket a (snd (tb_Allow (get_at gw_buckets a s))) s)"
    and put_refused: "tryAcquire (get_at gw_semaphores a s) = (False, l) \<Longrightarrow> R s (put_semaphore a l s)"
    and put_bracket: "get_at gw_semaphores a s \<noteq> None \<Longrightarrow> tryAcquire (get_at gw_semaphores a s) = (True, l) \<Longrightarrow>
      R (put_semaphore a l s) s' \<Longrightarrow> R s (put_semaphore a (release (get_at gw_semaphores a s')) s')"
    and put_proxy: "mine ptr \<Longrightarrow> R s (put_proxy ptr
      (fst (proxy_ServeHTTP prepare backend now nanos later r (gw_proxies s ! ptr) w)) s)"
begin

lemma runs_rate_limited: "runs R W next \<Longrightarrow> runs R W (rate_limited a next)"
  unfolding rate_limited_def by (erule runs_rate) (rule put_bucket)

lemma runs_slot_limited: "runs R W next \<Longrightarrow> runs R W (slot_limited a next)"
  unfolding slot_limited_def by (erule runs_concurrency) (rule put_refused, assumption, rule put_bracket)

lemma runs_proxy: "env_allowed W env \<Longrightarrow> mine ptr \<Longrightarrow> runs R W (proxy_handler env ptr)"
  using W_proxy put_proxy by (auto simp: runs_def proxy_handler_def env_allowed_def split_beta)

lemma runs_limited_proxy: "env_allowed W env \<Longrightarrow> mine ptr \<Longrightarrow> runs R W (rate_limited a (slot_limited b (proxy_handler env ptr)))"
  by (intro runs_rate_limited runs_slot_limited runs_proxy)

end

text \<open>The handlers that set the route id need a writer that takes it.\<close>

locale gateway_main = gateway_service +
  assumes W_route: "W w \<Longrightarrow> \<exists>w'. setRouteIDToResponseWriter routeID (Some w) = Some (Some w') \<and> W w'"
    and all_mine: "mine ptr"
begin

lemma runs_withRouteID:
  assumes "runs R W next"
  shows "runs R W (withRouteID routeID next)"
  unfolding runs_def
proof (intro allI impI)
  fix r s w assume "W w"
  then obtain w' where "setRouteIDToResponseWriter routeID (Some w) = Some (Some w')" "W w'"
    using W_route by blast
  with runsD [OF assms this(2)]
  show "\<exists>s' w'. withRouteID routeID next r s w = Some (s', w') \<and> R s s' \<and> W w'"
    by (simp add: withRouteID_def)
qed

lemma runs_route: "env_allowed W env \<Longrightarrow> runs R W (route_handler env rr)"
  unfolding route_handler_def by (intro runs_withRouteID runs_limited_proxy all_mine)

lemma runs_target: "env_allowed W env \<Longrightarrow> runs R W (target_handler env routes t)"
  by (cases t) (simp_all add: handlePing_def handleHealth_def handleVersion_def runs_get_only runs_route)

lemma runs_mux:
  assumes "env_allowed W env"
  shows "runs R W (mux_ServeHTTP env m routes)"
  unfolding runs_def
proof (intro allI impI)
  fix r s w assume w: "W w"
  show "\<exists>s' w'. mux_ServeHTTP env m routes r s w = Some (s', w') \<and> R s s' \<and> W w'"
  proof (cases "se_own env m r")
    case (Some ops)
    then show ?thesis using assms w R_refl by (simp add: mux_ServeHTTP_def env_allowed_def)
  next
    case None
    then show ?thesis
      using runsD [OF runs_not_found w] runsD [OF runs_target [OF assms] w]
      by (cases "mux_match m (url_Path (rq_URL r))") (simp_all add: mux_ServeHTTP_def)
  qed
qed

lemma runs_inner: "env_allowed W env \<Longrightarrow> runs R W (inner_handler env mh)"
  unfolding inner_handler_def by (intro runs_rate_limited runs_slot_limited runs_timeout runs_mux)

end

section \<open>The instances\<close>

text \<open>
  A request leaves the registry and the semaphores as they were (the record is made by the access
  log, around it), and neither makes nor drops an object.
\<close>

definition undisturbed :: "gateway \<Rightarrow> gateway \<Rightarrow> bool" where
  "undisturbed s s' \<longleftrightarrow> gw_registry s' = gw_registry s \<and> gw_semaphores s' = gw_semaphores s \<and>
     length (gw_buckets s') = length (gw_buckets s) \<and> length (gw_proxies s') = length (gw_proxies s)"

fun is_recorder :: "writer \<Rightarrow> bool" where
  "is_recorder (Recorder r w) = True"
| "is_recorder (Conn c) = False"

lemma is_recorder_edit [simp]: "is_recorder (edit_header f w) = is_recorder w"
  by (cases w) simp_all

lemma is_recorder_WriteHeader [simp]: "is_recorder (w_WriteHeader status w) = is_recorder w"
  by (cases w) simp_all

lemma is_recorder_Write [simp]: "is_recorder (w_Write data w) = is_recorder w"
  by (cases w) (simp_all add: Let_def)

lemma is_recorder_Flush [simp]: "is_recorder (w_Flush w) = is_recorder w"
  by (cases w) simp_all

lemma is_recorder_run [simp]: "is_recorder (fold run_op ops w) = is_recorder w"
proof (induction ops arbitrary: w)
  case (Cons op ops)
  then show ?case by (cases op) simp_all
qed simp

lemma release_acquired: "tryAcquire (Some l) = (True, Some l') \<Longrightarrow> release (Some l') = Some l"
  by (auto simp: try_send_def try_recv_def split: if_splits)

lemma put_bracket_undisturbed:
  assumes "get_at gw_semaphores a s \<noteq> None" and "tryAcquire (get_at gw_semaphores a s) = (True, l)"
    and "undisturbed (put_semaphore a l s) s'"
  shows "undisturbed s (put_semaphore a (release (get_at gw_semaphores a s')) s')"
proof -
  obtain i where a: "a = Some i" using assms(1) by (auto simp: get_at_def split: option.splits)
  obtain l' where l: "l = Some l'" "tryAcquire (Some (gw_semaphores s ! i)) = (True, Some l')"
    using assms(2) a by (auto simp: get_at_def Let_def split_beta)
  show ?thesis
  proof (cases "i < length (gw_semaphores s)")
    case True
    then show ?thesis
      using assms(3) release_acquired [OF l(2)] by (simp add: undisturbed_def put_semaphore_def get_at_def a l(1))
  next
    case False
    then show ?thesis
      using assms(3) by (simp add: undisturbed_def put_semaphore_def get_at_def a l(1) list_update_beyond)
  qed
qed

lemma undisturbed_laws:
  "undisturbed s s" "undisturbed s s' \<Longrightarrow> undisturbed s' s'' \<Longrightarrow> undisturbed s s''"
  "undisturbed s (put_bucket a b s)" "undisturbed s (put_proxy ptr h s)"
  by (simp_all add: undisturbed_def put_bucket_def put_proxy_def split: option.splits)

lemma put_refused_undisturbed:
  assumes "tryAcquire (get_at gw_semaphores a s) = (False, l)"
  shows "undisturbed s (put_semaphore a l s)"
proof (cases a)
  case (Some i)
  with assms have "l = Some (gw_semaphores s ! i)" by (auto simp: get_at_def try_send_def split: if_splits)
  with Some show ?thesis by (simp add: undisturbed_def put_semaphore_def)
qed (simp add: undisturbed_def put_semaphore_def)

text \<open>Any writer with a recorder in front, whatever the backends send.\<close>

interpretation any: gateway_main undisturbed is_recorder "\<lambda>_. True"
proof unfold_locales
  show "\<exists>w'. setRouteIDToResponseWriter routeID (Some w) = Some (Some w') \<and> is_recorder w'" if "is_recorder w" for w routeID
    using that by (cases w) simp_all
qed (auto intro: undisturbed_laws put_refused_undisturbed put_bracket_undisturbed)

text \<open>A recorder directly on a connection, in step with it.\<close>

lemma in_step_ops1:
  "in_step w \<Longrightarrow> in_step (edit_header f w)" "in_step w \<Longrightarrow> in_step (w_Write data w)"
  "in_step w \<Longrightarrow> final_status status \<Longrightarrow> in_step (w_WriteHeader status w)"
  using in_step_op [of w "Op_Header f"] in_step_op [of w "Op_Write data"] in_step_op [of w "Op_WriteHeader status"]
  by simp_all

interpretation calm: gateway_main undisturbed in_step "\<lambda>_. True"
proof unfold_locales
  show "\<exists>w'. setRouteIDToResponseWriter routeID (Some w) = Some (Some w') \<and> in_step w'" if "in_step w" for w routeID
    using that by (elim in_stepE) (simp add: agree_def SetRouteID_def)
qed (auto intro: undisturbed_laws put_refused_undisturbed put_bracket_undisturbed in_step_ops1)

text \<open>A recorder that knows the route id, in front of a handler that touches one proxy only.\<close>

definition only_proxy :: "nat \<Rightarrow> gateway \<Rightarrow> gateway \<Rightarrow> bool" where
  "only_proxy ptr s s' \<longleftrightarrow> undisturbed s s' \<and> (\<forall>j. j \<noteq> ptr \<longrightarrow> gw_proxies s' ! j = gw_proxies s ! j)"

lemma only_proxy_laws:
  "only_proxy ptr s s" "only_proxy ptr s s' \<Longrightarrow> only_proxy ptr s' s'' \<Longrightarrow> only_proxy ptr s s''"
  "only_proxy ptr s (put_bucket a b s)" "only_proxy ptr s (put_proxy ptr h s)"
  "tryAcquire (get_at gw_semaphores a s) = (False, l) \<Longrightarrow> only_proxy ptr s (put_semaphore a l s)"
  using undisturbed_laws put_refused_undisturbed
  by (auto simp: only_proxy_def put_bucket_def put_proxy_def put_semaphore_def split: option.splits)

lemma put_bracket_only_proxy:
  assumes "get_at gw_semaphores a s \<noteq> None" and "tryAcquire (get_at gw_semaphores a s) = (True, l)"
    and "only_proxy ptr (put_semaphore a l s) s'"
  shows "only_proxy ptr s (put_semaphore a (release (get_at gw_semaphores a s')) s')"
  using put_bracket_undisturbed [OF assms(1,2)] assms(3)
  by (auto simp: only_proxy_def put_semaphore_def split: option.splits)

fun labelled :: "string \<Rightarrow> writer \<Rightarrow> bool" where
  "labelled routeID (Recorder r w) = (sr_routeID r = routeID)"
| "labelled routeID (Conn c) = False"

lemma labelled_edit: "labelled routeID (edit_header f w) = labelled routeID w"
  by (cases w) simp_all

lemma labelled_WriteHeader: "labelled routeID (w_WriteHeader status w) = labelled routeID w"
  by (cases w) simp_all

lemma labelled_Write: "labelled routeID (w_Write data w) = labelled routeID w"
  by (cases w) (simp_all add: Let_def count_bytes_def)

lemma labelled_Flush: "labelled routeID (w_Flush w) = labelled routeID w"
  by (cases w) simp_all

lemmas labelled_ops [simp] = labelled_edit labelled_WriteHeader labelled_Write labelled_Flush

interpretation label: gateway_service "only_proxy ptr" "labelled routeID" "\<lambda>p. p = ptr" for ptr routeID
  by unfold_locales (auto intro: only_proxy_laws put_bracket_only_proxy)

text \<open>Every environment is allowed where every status is.\<close>

lemma env_allowed_recorder: "env_allowed is_recorder env"
  by (auto simp: env_allowed_def reply_allowed_def allowed_def list_all_iff split: reply.split)

lemma labelled_run: "labelled routeID (fold run_op ops w) = labelled routeID w"
proof (induction ops arbitrary: w)
  case (Cons op ops)
  then show ?case by (cases op) simp_all
qed simp

lemma env_allowed_labelled: "env_allowed (labelled routeID) env"
  by (auto simp: env_allowed_def reply_allowed_def allowed_def list_all_iff labelled_run split: reply.split)

text \<open>Backends that send final statuses only.\<close>

definition calm_env :: "serve_env \<Rightarrow> bool" where
  "calm_env env \<longleftrightarrow>
     (\<forall>q. fst (se_backend env q) = [] \<and>
        (case snd (se_backend env q) of Reply status hdr body \<Rightarrow> final_status status | Broken err \<Rightarrow> True)) \<and>
     (\<forall>m r. pred_option (list_all op_final) (se_own env m r))"

lemma env_allowed_calm:
  assumes "calm_env env"
  shows "env_allowed in_step env"
proof -
  have "reply_allowed in_step (se_backend env q)" for q
  proof (cases "se_backend env q")
    case (Pair informs reply)
    with assms have "fst (informs, reply) = []"
      "case snd (informs, reply) of Reply status hdr body \<Rightarrow> final_status status | Broken err \<Rightarrow> True"
      unfolding calm_env_def by metis+
    then show ?thesis
      unfolding Pair by (cases reply) (simp_all add: reply_allowed_def allowed_def in_step_ops1)
  qed
  with assms show ?thesis
    by (auto simp: calm_env_def env_allowed_def option.pred_set intro: in_step_ops)
qed

section \<open>Properties\<close>

text \<open>What the access log records of a request.\<close>

definition record_of :: "serve_env \<Rightarrow> http_request \<Rightarrow> statusRecorder \<Rightarrow> metricsRecord" where
  "record_of env r rc =
     \<lparr>mr_RouteID = (if sr_routeID rc = '''' then routeIDFromRequest (Some r) else sr_routeID rc),
      mr_StatusCode = sr_StatusCode rc, mr_ByteWritten = sr_bytesWritten rc, mr_Latency = se_cost env\<rparr>"

lemma main_of_inner:
  "inner_handler env mh r s (newStatusRecorder w) = Some (s1, Recorder rc w') \<Longrightarrow>
    main_ServeHTTP env mh r s w =
      Some (put_registry (map_option (Record (record_of env r rc)) (gw_registry s1)) s1, w')"
  by (simp add: main_ServeHTTP_def accessLogMiddleware_def record_of_def Let_def)

lemma main_returns:
  assumes "runs undisturbed W (inner_handler env mh)" and "W (newStatusRecorder w)" and "\<And>w'. W w' \<Longrightarrow> is_recorder w'"
  obtains s1 rc w' where "inner_handler env mh r s (newStatusRecorder w) = Some (s1, Recorder rc w')"
    and "undisturbed s s1" and "W (Recorder rc w')"
    and "main_ServeHTTP env mh r s w = Some (put_registry (map_option (Record (record_of env r rc)) (gw_registry s)) s1, w')"
proof -
  obtain s1 w1 where i: "inner_handler env mh r s (newStatusRecorder w) = Some (s1, w1)" "undisturbed s s1" "W w1"
    using runsD [OF assms(1,2)] by blast
  from assms(3) [OF i(3)] obtain rc w' where w1: "w1 = Recorder rc w'" by (cases w1) simp_all
  have "gw_registry s1 = gw_registry s" using i(2) by (simp add: undisturbed_def)
  with i w1 that main_of_inner show ?thesis by metis
qed



definition demo_serve :: serve_env where
  "demo_serve = \<lparr>se_prepare = (\<lambda>r. r), se_backend = (\<lambda>_. ([], Reply 200 (\<lambda>_. []) [''hello''])),
     se_now = (\<lambda>_. 5), se_nanos = 1, se_later = 6, se_start = 4, se_cost = 2, se_own = (\<lambda>m r. None)\<rparr>"

lemma demo_serve_calm: "calm_env demo_serve"
  by (simp add: calm_env_def demo_serve_def final_status_def informational_def)

definition empty_handler :: mainHandler where
  "empty_handler = \<lparr>mh_mux = [(''/ping'', PingRoute)], mh_routes = [], mh_timeout = 3 * second,
     mh_concurrency = Some 0, mh_rate = None\<rparr>"

definition one_place :: gateway where
  "one_place = \<lparr>gw_proxies = [], gw_buckets = [],
     gw_semaphores = [\<lparr>lim_name = ''global'', lim_capacity = 1, lim_semaphore = \<lparr>ch_cap = 1, ch_len = 0\<rparr>\<rparr>],
     gw_registry = Some (NewRegistry 0)\<rparr>"


section \<open>Refusals\<close>

lemma refusal_page:
  assumes "untouched w" and "final_status status"
  shows "\<exists>rc w'. http_Error msg status (plain_text (newStatusRecorder w)) = Recorder rc w'
    \<and> sr_routeID rc = '''' \<and> sr_statusCode rc = status \<and> sr_bytesWritten rc = i64 (int (length msg) + 1)
    \<and> cn_status (the_conn w') = Some status \<and> cn_body (the_conn w') = msg @ [byte 10]"
proof -
  let ?r = "\<lparr>sr_statusCode = 0, sr_bytesWritten = 0, sr_wroteHeader = False, sr_routeID = ''''\<rparr>"
  let ?w = "edit_header (header_set ''Content-Type'' ''text/plain; charset=utf-8'') w"
  have p: "plain_text (newStatusRecorder w) = Recorder ?r ?w" by (simp add: plain_text_def newStatusRecorder_def)
  have u: "untouched (Recorder ?r ?w)" and i: "\<not> informational status"
    using assms by (simp_all add: final_status_def)
  obtain w' where w': "http_Error msg status (Recorder ?r ?w) = Recorder (?r\<lparr>sr_statusCode := status,
      sr_wroteHeader := True, sr_bytesWritten := i64 (int (length msg) + 1)\<rparr>) w'"
    using http_Error_recorder [OF u i] by blast
  have c: "the_conn w' = the_conn (http_Error msg status (Recorder ?r ?w))" by (simp add: w')
  show ?thesis using w' c http_Error_conn [OF u i, of msg] p by simp
qed

text \<open>The id in the log of a request that never reached its route.\<close>

definition unrouted :: "http_request \<Rightarrow> bool" where
  "unrouted r \<longleftrightarrow> ctx_routeID (rq_Context r) = None"

lemma refused_record:
  assumes "untouched w" and "unrouted r" and "final_status status" and "length msg < 1000"
    and "inner_handler env mh r s (newStatusRecorder w) =
      Some (s1, http_Error msg status (plain_text (newStatusRecorder w)))"
  shows "\<exists>w'. main_ServeHTTP env mh r s w = Some (put_registry (map_option (Record
        \<lparr>mr_RouteID = path_routeID (url_Path (rq_URL r)), mr_StatusCode = status,
         mr_ByteWritten = int (length msg) + 1, mr_Latency = se_cost env\<rparr>) (gw_registry s1)) s1, w')
    \<and> cn_status (the_conn w') = Some status \<and> cn_body (the_conn w') = msg @ [byte 10]"
proof -
  obtain rc w' where p: "http_Error msg status (plain_text (newStatusRecorder w)) = Recorder rc w'"
    "sr_routeID rc = ''''" "sr_statusCode rc = status" "sr_bytesWritten rc = i64 (int (length msg) + 1)"
    "cn_status (the_conn w') = Some status" "cn_body (the_conn w') = msg @ [byte 10]"
    using refusal_page [OF assms(1,3), of msg] by blast
  have "record_of env r rc = \<lparr>mr_RouteID = path_routeID (url_Path (rq_URL r)), mr_StatusCode = status,
         mr_ByteWritten = int (length msg) + 1, mr_Latency = se_cost env\<rparr>"
    using p(2-4) assms(2-4) by (simp add: record_of_def sr_StatusCode_def routeIDFromRequest_def unrouted_def
        final_status_def)
  with main_of_inner [of env mh r s w s1 rc w'] assms(5) p show ?thesis by simp
qed

text \<open>
  The global rate limit comes first: with no token in the global bucket a request gets the 429
  page and goes no further. The concurrency limiters, the routes, their limiters and their upstreams
  are as they were; only the registry has changed, by a record under the id that the path alone gives
  (\<open>unknown\<close> for a path of a route).
\<close>

theorem global_rate_limit_first:
  assumes "untouched w" and "unrouted r" and "mh_rate mh = Some i"
    and "ch_len (tb_tokens (gw_buckets s ! i)) = 0"
  shows "\<exists>w'. main_ServeHTTP env mh r s w = Some (put_registry (map_option (Record
        \<lparr>mr_RouteID = path_routeID (url_Path (rq_URL r)), mr_StatusCode = 429,
         mr_ByteWritten = 20, mr_Latency = se_cost env\<rparr>) (gw_registry s)) s, w')
    \<and> cn_status (the_conn w') = Some 429 \<and> cn_body (the_conn w') = ''rate limit exceeded'' @ [byte 10]"
proof -
  have "tb_Allow (get_at gw_buckets (mh_rate mh) s) = (False, Some (gw_buckets s ! i))"
    using assms(3,4) by (simp add: get_at_def try_recv_def)
  then have "inner_handler env mh r s (newStatusRecorder w) =
      Some (s, http_Error ''rate limit exceeded'' 429 (plain_text (newStatusRecorder w)))"
    using assms(3) by (simp add: inner_handler_def rate_limited_def ratelimit_Middleware_def get_at_def
        put_bucket_def Let_def)
  from refused_record [OF assms(1,2) _ _ this] show ?thesis by (simp add: final_status_def informational_def)
qed

definition rated_handler :: mainHandler where
  "rated_handler = empty_handler\<lparr>mh_rate := Some 0\<rparr>"

definition no_token :: gateway where
  "no_token = one_place\<lparr>gw_buckets := [demo_tb\<lparr>tb_tokens := \<lparr>ch_cap = 1, ch_len = 0\<rparr>\<rparr>]\<rparr>"

definition ping_request :: http_request where
  "ping_request = demo_request\<lparr>rq_URL := demo_url\<lparr>url_Path := ''/ping''\<rparr>,
     rq_Context := \<lparr>ctx_upstream = None, ctx_routeID = None, ctx_deadline = None\<rparr>\<rparr>"

lemma ping_unrouted: "unrouted ping_request"
  by (simp add: unrouted_def ping_request_def demo_request_def)

theorem global_rate_limit_first_witness:
  "\<exists>w'. main_ServeHTTP demo_serve rated_handler ping_request no_token (Conn new_conn) =
      Some (put_registry (Some (Record \<lparr>mr_RouteID = ''system'', mr_StatusCode = 429,
         mr_ByteWritten = 20, mr_Latency = 2\<rparr> (NewRegistry 0))) no_token, w')
    \<and> cn_status (the_conn w') = Some 429"
proof -
  have h: "mh_rate rated_handler = Some 0" "ch_len (tb_tokens (gw_buckets no_token ! 0)) = 0"
    by (simp_all add: rated_handler_def no_token_def)
  have "path_routeID (url_Path (rq_URL ping_request)) = ''system''" by code_simp
  with global_rate_limit_first [OF untouched_new(2) ping_unrouted h, of demo_serve]
  show ?thesis by (auto simp: demo_serve_def no_token_def one_place_def)
qed

text \<open>
  The global concurrency limit comes second: with every place taken, a request that the rate limit
  let pass gets the 503 page. It has cost its token; the routes, their limiters and their upstreams
  are as they were, and no place has been taken or given back.
\<close>

theorem global_concurrency_limit_second:
  assumes "untouched w" and "unrouted r" and "mh_rate mh = Some i" and "i < length (gw_buckets s)"
    and "0 < ch_len (tb_tokens (gw_buckets s ! i))" and "mh_concurrency mh = Some j"
    and "ch_cap (lim_semaphore (gw_semaphores s ! j)) \<le> ch_len (lim_semaphore (gw_semaphores s ! j))"
  shows "\<exists>s' w'. main_ServeHTTP env mh r s w = Some (put_registry (map_option (Record
        \<lparr>mr_RouteID = path_routeID (url_Path (rq_URL r)), mr_StatusCode = 503,
         mr_ByteWritten = 27, mr_Latency = se_cost env\<rparr>) (gw_registry s)) s', w')
    \<and> gw_semaphores s' = gw_semaphores s \<and> gw_proxies s' = gw_proxies s
    \<and> gw_buckets s' = (gw_buckets s)[i := snd (tb_take (gw_buckets s ! i))]
    \<and> ch_len (tb_tokens (gw_buckets s' ! i)) + 1 = ch_len (tb_tokens (gw_buckets s ! i))
    \<and> cn_status (the_conn w') = Some 503"
proof -
  let ?b = "snd (tb_take (gw_buckets s ! i))"
  let ?s = "s\<lparr>gw_buckets := (gw_buckets s)[i := ?b]\<rparr>"
  have a: "tb_Allow (Some (gw_buckets s ! i)) = (True, Some ?b)"
    using assms(5) by (simp add: tb_take_def try_recv_def)
  have l: "tryAcquire (Some (gw_semaphores s ! j)) = (False, Some (gw_semaphores s ! j))"
    using assms(7) by (simp add: try_send_def)
  have "inner_handler env mh r s (newStatusRecorder w) =
      Some (?s, http_Error ''concurrency limit exceeded'' 503 (plain_text (newStatusRecorder w)))"
    using assms(3,6) a l by (simp add: inner_handler_def rate_limited_def ratelimit_Middleware_def slot_limited_def
        concurrency_Middleware_def get_at_def put_bucket_def put_semaphore_def Let_def del: tb_Allow.simps tryAcquire.simps)
  from refused_record [OF assms(1,2) _ _ this]
  obtain w' where w': "main_ServeHTTP env mh r s w = Some (put_registry (map_option (Record
        \<lparr>mr_RouteID = path_routeID (url_Path (rq_URL r)), mr_StatusCode = 503,
         mr_ByteWritten = 27, mr_Latency = se_cost env\<rparr>) (gw_registry s)) ?s, w')"
    "cn_status (the_conn w') = Some 503" by (auto simp: final_status_def informational_def)
  have "ch_len (tb_tokens ?b) + 1 = ch_len (tb_tokens (gw_buckets s ! i))"
    using assms(5) by (simp add: tb_take_def try_recv_def)
  with w' assms(4) show ?thesis by (intro exI [of _ ?s] exI [of _ w']) simp
qed

theorem global_concurrency_limit_second_witness:
  "\<exists>s' w'. main_ServeHTTP demo_serve rated_handler ping_request
      (one_place\<lparr>gw_buckets := [demo_tb], gw_semaphores := [\<lparr>lim_name = ''global'', lim_capacity = 1,
         lim_semaphore = \<lparr>ch_cap = 1, ch_len = 1\<rparr>\<rparr>]\<rparr>) (Conn new_conn) = Some (s', w')
    \<and> ch_len (tb_tokens (gw_buckets s' ! 0)) = 0 \<and> cn_status (the_conn w') = Some 503"
proof -
  let ?s = "one_place\<lparr>gw_buckets := [demo_tb], gw_semaphores := [\<lparr>lim_name = ''global'', lim_capacity = 1,
         lim_semaphore = \<lparr>ch_cap = 1, ch_len = 1\<rparr>\<rparr>]\<rparr>"
  have h: "mh_rate rated_handler = Some 0" "0 < length (gw_buckets ?s)" "0 < ch_len (tb_tokens (gw_buckets ?s ! 0))"
    "mh_concurrency rated_handler = Some 0"
    "ch_cap (lim_semaphore (gw_semaphores ?s ! 0)) \<le> ch_len (lim_semaphore (gw_semaphores ?s ! 0))"
    by (simp_all add: rated_handler_def empty_handler_def demo_tb_def)
  from global_concurrency_limit_second [OF untouched_new(2) ping_unrouted h, of demo_serve]
  obtain s' w' where "main_ServeHTTP demo_serve rated_handler ping_request ?s (Conn new_conn) =
      Some (put_registry (map_option (Record \<lparr>mr_RouteID = path_routeID (url_Path (rq_URL ping_request)),
        mr_StatusCode = 503, mr_ByteWritten = 27, mr_Latency = se_cost demo_serve\<rparr>) (gw_registry ?s)) s', w')"
    "ch_len (tb_tokens (gw_buckets s' ! 0)) + 1 = ch_len (tb_tokens (gw_buckets ?s ! 0))"
    "cn_status (the_conn w') = Some 503" by blast
  then show ?thesis by (simp add: put_registry_def demo_tb_def)
qed

section \<open>Which route serves a request\<close>

lemma entries_from_iff:
  "(p, t) \<in> set (entries_from k routes) \<longleftrightarrow>
    (\<exists>i < length routes. t = ProxyRoute (k + i) \<and> p \<in> set (patterns_of (rc_Prefix (routes ! i))))"
proof (induction routes arbitrary: k)
  case (Cons route routes)
  have "(\<exists>i < length (route # routes). t = ProxyRoute (k + i) \<and> p \<in> set (patterns_of (rc_Prefix ((route # routes) ! i)))) \<longleftrightarrow>
      (t = ProxyRoute k \<and> p \<in> set (patterns_of (rc_Prefix route))) \<or>
      (\<exists>i < length routes. t = ProxyRoute (Suc k + i) \<and> p \<in> set (patterns_of (rc_Prefix (routes ! i))))"
    by (simp add: Ex_less_Suc2)
  with Cons show ?case by (auto simp: route_entries_def)
qed simp

lemma entries_from_patterns: "map fst (entries_from k routes) = concat (map (patterns_of \<circ> rc_Prefix) routes)"
  by (induction routes arbitrary: k) simp_all

lemma bundle_mux:
  assumes "bundle_ok g0 cfg g b"
  shows "map fst (mh_mux (rb_handler b)) = config_patterns cfg"
    and "i < length (cfg_Routes cfg) \<Longrightarrow> p \<in> set (patterns_of (rc_Prefix (cfg_Routes cfg ! i))) \<Longrightarrow>
      (p, ProxyRoute i) \<in> set (mh_mux (rb_handler b))"
  using assms
  by (auto simp: bundle_ok_def config_patterns_def entries_from_patterns entries_from_iff comp_def system_patterns_def)

lemma bundle_match:
  assumes "bundle_ok g0 cfg g b" and "distinct (config_patterns cfg)" and "i < length (cfg_Routes cfg)"
    and "p \<in> set (patterns_of (rc_Prefix (cfg_Routes cfg ! i)))" and "pattern_matches p path"
    and "\<forall>q \<in> set (config_patterns cfg). pattern_matches q path \<longrightarrow> length q \<le> length p"
  shows "mux_match (mh_mux (rb_handler b)) path = Some (ProxyRoute i)"
proof -
  have "\<forall>(q, u) \<in> set (mh_mux (rb_handler b)). pattern_matches q path \<longrightarrow> length q \<le> length p"
    using assms(6) unfolding bundle_mux(1) [OF assms(1), symmetric] by auto
  then show ?thesis
    using assms(2,5) bundle_mux [OF assms(1)] assms(3,4) by (subst mux_match_iff) auto
qed

lemma rate_passes:
  assumes "fst (tb_Allow (get_at gw_buckets a s))"
  obtains s1 where "rate_limited a next r s w = next r s1 w" and "only_proxy ptr s s1"
    and "gw_semaphores s1 = gw_semaphores s"
proof (cases "get_at gw_buckets a s = None")
  case True
  with that [of s] show ?thesis by (simp add: rate_limited_def ratelimit_Middleware_def only_proxy_laws)
next
  case False
  obtain l where "tb_Allow (get_at gw_buckets a s) = (True, l)"
    using assms by (cases "tb_Allow (get_at gw_buckets a s)") simp
  with False have eq: "rate_limited a next r s w = next r (put_bucket a l s) w"
    by (simp only: rate_limited_def ratelimit_Middleware_def Let_def prod.case if_False not_True_eq_False)
  have "gw_semaphores (put_bucket a l s) = gw_semaphores s" by (simp add: put_bucket_def split: option.splits)
  then show ?thesis by (rule that [OF eq only_proxy_laws(3)])
qed

lemma slot_passes:
  assumes "fst (tryAcquire (get_at gw_semaphores a s))"
    and "\<And>s1. \<exists>s2 w2. next r s1 w = Some (s2, w2) \<and> only_proxy ptr s1 s2 \<and> Q w2"
  shows "\<exists>s2 w2. slot_limited a next r s w = Some (s2, w2) \<and> only_proxy ptr s s2 \<and> Q w2"
proof (cases "get_at gw_semaphores a s = None")
  case True
  then show ?thesis using assms(2) [of s] by (simp add: slot_limited_def concurrency_Middleware_def)
next
  case False
  obtain l where l: "tryAcquire (get_at gw_semaphores a s) = (True, l)"
    using assms(1) by (cases "tryAcquire (get_at gw_semaphores a s)") simp
  obtain s2 w2 where n: "next r (put_semaphore a l s) w = Some (s2, w2)" "only_proxy ptr (put_semaphore a l s) s2" "Q w2"
    using assms(2) by blast
  have "slot_limited a next r s w = Some (put_semaphore a (release (get_at gw_semaphores a s2)) s2, w2)"
    using False by (simp only: slot_limited_def concurrency_Middleware_def Let_def l n(1) prod.case option.case
        if_False not_True_eq_False)
  with put_bracket_only_proxy [OF False l n(2)] n(3) show ?thesis by blast
qed


lemma fresh_limits_admit:
  "rate_wired g rate burst a \<Longrightarrow> fst (tb_Allow (get_at gw_buckets a g))"
  "semaphore_wired g n a \<Longrightarrow> fst (tryAcquire (get_at gw_semaphores a g))"
  by (auto simp: rate_wired_def open_bucket_def semaphore_wired_def get_at_def try_recv_def try_send_def
      lim_ok_def split: option.splits)

definition api_request :: http_request where
  "api_request = ping_request\<lparr>rq_URL := demo_url\<lparr>url_Path := ''/api/items''\<rparr>\<rparr>"


end
