(* ===== verification/Server.thy ===== *)
theory Server
  imports Gateway
begin

text \<open>
  \<^verbatim>\<open>internal/server/server.go\<close>, \<^verbatim>\<open>reload.go\<close>, \<^verbatim>\<open>reloadable_handler.go\<close> and \<^verbatim>\<open>lifecycle.go\<close>: the server
  around a runtime, the exchange of the runtime by a reload, and shutting down. The server shares the
  store of \<open>Route_Runtime\<close> with the handlers; the metrics registry in it is the one that \<^verbatim>\<open>New\<close> makes.

  \<^verbatim>\<open>config.Load\<close> reads the file, the JSON decoder and the environment, which are parameters; what the
  HTTP servers answer to \<^verbatim>\<open>ListenAndServe\<close>, \<^verbatim>\<open>Shutdown\<close> and \<^verbatim>\<open>Close\<close> is an input.
\<close>

section \<open>State\<close>

text \<open>What an \<^verbatim>\<open>atomic.Value\<close> of handlers holds: both are an \<^verbatim>\<open>http.HandlerFunc\<close>, so no store panics.\<close>

datatype stored_handler = MainHandler mainHandler | NotFoundHandler

record reloadableHandler =
  rh_value :: "stored_handler option"

datatype admin_page =
    RoutesPage | HealthPage | StatsPage | MetricsPage | ReloadPage | PrometheusPage | PprofPage string

datatype admin_target = Guarded admin_page | Bare admin_page

type_synonym admin_mux = "(string \<times> admin_target) list"

record httpServer =
  srv_Addr :: string
  srv_ReadHeaderTimeout :: duration

record server =
  sv_httpServer :: "httpServer option"
  sv_adminHTTPServer :: "httpServer option"
  sv_adminMux :: admin_mux
  sv_mainHandler :: reloadableHandler
  sv_configPath :: string
  sv_currentConfig :: "config option"
  sv_routes :: "routeRuntime list"
  sv_proxyHandlers :: "nat list"
  sv_rateLimiters :: "nat option list"
  sv_healthCheckers :: "checker list"
  sv_globalRateLimiter :: "nat option"
  sv_globalConcurrencyLimiter :: "nat option"
  sv_adminEnabled :: bool
  sv_adminToken :: string
  sv_metricsRequireToken :: bool
  sv_pprofEnabled :: bool

section \<open>The reloadable handler\<close>

definition rh_Store :: "mainHandler option \<Rightarrow> reloadableHandler \<Rightarrow> reloadableHandler" where
  "rh_Store handler h =
     h\<lparr>rh_value := Some (case handler of None \<Rightarrow> NotFoundHandler | Some m \<Rightarrow> MainHandler m)\<rparr>"

definition newReloadableHandler :: "mainHandler option \<Rightarrow> reloadableHandler" where
  "newReloadableHandler handler = rh_Store handler \<lparr>rh_value = None\<rparr>"

definition rh_ServeHTTP :: "serve_env \<Rightarrow> reloadableHandler \<Rightarrow> gateway handler" where
  "rh_ServeHTTP env h =
     (case rh_value h of
        None \<Rightarrow> not_found
      | Some NotFoundHandler \<Rightarrow> not_found
      | Some (MainHandler m) \<Rightarrow> main_ServeHTTP env m)"

section \<open>Routes of the admin server\<close>

fun handle_all :: "mux_rules \<Rightarrow> (string \<times> 'a) list \<Rightarrow> (string \<times> 'a) list \<Rightarrow> build_panic + (string \<times> 'a) list" where
  "handle_all rules [] m = Inr m"
| "handle_all rules ((p, t) # ps) m = res_bind (mux_Handle rules p t m) (handle_all rules ps)"

definition pprof_patterns :: "string list" where
  "pprof_patterns = map (\<lambda>name. ''/debug/pprof/'' @ name)
     ['''', ''cmdline'', ''profile'', ''symbol'', ''trace'', ''allocs'', ''block'', ''goroutine'', ''heap'',
      ''mutex'', ''threadcreate'']"

definition registerPprofRoutes :: "mux_rules \<Rightarrow> admin_mux \<Rightarrow> build_panic + admin_mux" where
  "registerPprofRoutes rules = handle_all rules (map (\<lambda>p. (p, Guarded (PprofPage p))) pprof_patterns)"

definition registerAdminRoutes :: "mux_rules \<Rightarrow> server \<Rightarrow> admin_mux \<Rightarrow> build_panic + admin_mux" where
  "registerAdminRoutes rules s m =
     res_bind
       (if sv_adminEnabled s
        then res_bind (handle_all rules
               [(''/admin/routes'', Guarded RoutesPage), (''/admin/health'', Guarded HealthPage),
                (''/admin/stats'', Guarded StatsPage), (''/admin/metrics'', Guarded MetricsPage),
                (''/admin/reload'', Guarded ReloadPage)] m)
               (\<lambda>m1. if sv_pprofEnabled s then registerPprofRoutes rules m1 else Inr m1)
        else Inr m)
       (\<lambda>m2. if sv_metricsRequireToken s then mux_Handle rules ''/metrics'' (Guarded PrometheusPage) m2
             else mux_Handle rules ''/metrics'' (Bare PrometheusPage) m2)"

section \<open>Construction\<close>

text \<open>A server on a runtime, before its HTTP servers.\<close>

definition server_of :: "config \<Rightarrow> string \<Rightarrow> runtimeBundle \<Rightarrow> server" where
  "server_of cfg configPath rt =
     \<lparr>sv_httpServer = None, sv_adminHTTPServer = None, sv_adminMux = [],
      sv_mainHandler = newReloadableHandler (Some (rb_handler rt)), sv_configPath = configPath,
      sv_currentConfig = Some cfg, sv_routes = rb_routes rt, sv_proxyHandlers = rb_proxyHandlers rt,
      sv_rateLimiters = rb_rateLimiters rt, sv_healthCheckers = rb_healthCheckers rt,
      sv_globalRateLimiter = rb_globalRateLimiter rt,
      sv_globalConcurrencyLimiter = rb_globalConcurrencyLimiter rt,
      sv_adminEnabled = ac_Enabled (cfg_Admin cfg), sv_adminToken = ac_Token (cfg_Admin cfg),
      sv_metricsRequireToken = ac_MetricsRequireToken (cfg_Admin cfg),
      sv_pprofEnabled = ac_PprofEnabled (cfg_Admin cfg)\<rparr>"

definition NewWithConfigPath ::
    "build_env \<Rightarrow> config \<Rightarrow> string \<Rightarrow> gateway \<Rightarrow> gateway \<times> (build_stop + server)" where
  "NewWithConfigPath env cfg configPath g0 =
     (case buildRuntime env cfg (g0\<lparr>gw_registry := Some (NewRegistry (be_now env))\<rparr>) of
        (g, Inl e) \<Rightarrow> (g, Inl e)
      | (g, Inr rt) \<Rightarrow>
          (let srv = server_of cfg configPath rt;
               srv1 = srv\<lparr>sv_httpServer := Some \<lparr>srv_Addr = cfg_Addr cfg, srv_ReadHeaderTimeout = 5 * second\<rparr>\<rparr>
           in if ac_Enabled (cfg_Admin cfg)
              then (case registerAdminRoutes (be_rules env) srv1 [] of
                      Inl p \<Rightarrow> (g, Inl (BuildPanic p))
                    | Inr m \<Rightarrow> (g, Inr (srv1\<lparr>sv_adminMux := m, sv_adminHTTPServer :=
                        Some \<lparr>srv_Addr = ac_Addr (cfg_Admin cfg), srv_ReadHeaderTimeout = 5 * second\<rparr>\<rparr>)))
              else (g, Inr srv1)))"

definition New :: "build_env \<Rightarrow> config \<Rightarrow> gateway \<Rightarrow> gateway \<times> (build_stop + server)" where
  "New env cfg g0 = NewWithConfigPath env cfg '''' g0"

section \<open>Closing\<close>

definition close_proxy :: "nat \<Rightarrow> gateway \<Rightarrow> gateway" where
  "close_proxy i g = put_proxy i (CloseIdleConnections (gw_proxies g ! i)) g"

definition close_bucket :: "nat option \<Rightarrow> gateway \<Rightarrow> gateway" where
  "close_bucket a g = put_bucket a (tb_Close (get_at gw_buckets a g)) g"

text \<open>The checkers of the third list are not shared with anything; the list comes back closed.\<close>

definition closeRuntimeResources ::
    "nat list \<Rightarrow> nat option list \<Rightarrow> checker list \<Rightarrow> gateway \<Rightarrow> gateway \<times> checker list" where
  "closeRuntimeResources proxyHandlers rateLimiters healthCheckers g =
     (fold close_bucket rateLimiters (fold close_proxy proxyHandlers g), map hc_Close healthCheckers)"

definition CloseResource :: "server \<Rightarrow> gateway \<Rightarrow> server \<times> gateway" where
  "CloseResource s g =
     (let (g', checkers) = closeRuntimeResources (sv_proxyHandlers s) (sv_rateLimiters s) (sv_healthCheckers s) g
      in (s\<lparr>sv_healthCheckers := checkers\<rparr>, g'))"

section \<open>Reloading\<close>

record routeDTO =
  dto_ID :: string
  dto_Prefix :: string
  dto_StripPrefix :: string
  dto_Target :: string
  dto_Upstreams :: "upstreamSnapshot list"
  dto_RateLimitRPS :: go_int
  dto_RateLimitBurst :: go_int
  dto_MaxConcurrency :: go_int
  dto_HealthCheckEnabled :: bool
  dto_HealthCheckPath :: string

definition routeDTOsLocked :: "(url \<Rightarrow> string) \<Rightarrow> go_time \<Rightarrow> gateway \<Rightarrow> server \<Rightarrow> routeDTO list" where
  "routeDTOsLocked url_string now g s =
     map (\<lambda>route. \<lparr>dto_ID = rr_id route, dto_Prefix = rr_prefix route, dto_StripPrefix = rr_stripPrefix route,
        dto_Target = rr_target route,
        dto_Upstreams = UpstreamSnapshots url_string now (gw_proxies g ! rr_proxyHandler route),
        dto_RateLimitRPS = rr_rateLimitRPS route, dto_RateLimitBurst = rr_rateLimitBurst route,
        dto_MaxConcurrency = rr_maxConcurrency route, dto_HealthCheckEnabled = rr_healthCheckEnabled route,
        dto_HealthCheckPath = rr_healthCheckPath route\<rparr>) (sv_routes s)"

datatype reload_error =
    ConfigPathMissing
  | LoadConfigFailed config_error
  | AddrChanged string string
  | ShutdownTimeoutChanged string string
  | AdminEnabledChanged
  | AdminAddrChanged string string
  | AdminTokenChanged
  | MetricsRequireTokenChanged
  | PprofEnabledChanged
  | BuildRuntimeFailed build_error

datatype reload_stop = ReloadError reload_error | ReloadPanic build_panic

definition addr_of :: "httpServer option \<Rightarrow> string" where
  "addr_of h = (case h of None \<Rightarrow> '''' | Some x \<Rightarrow> srv_Addr x)"

definition validateReloadConfig :: "server \<Rightarrow> config \<Rightarrow> reload_error option" where
  "validateReloadConfig s newConfig =
     (let oldHTTPAddr = addr_of (sv_httpServer s);
          oldAdminAddr = addr_of (sv_adminHTTPServer s);
          oldShutdownTimeout = (case sv_currentConfig s of None \<Rightarrow> '''' | Some c \<Rightarrow> sc_ShutdownTimeout (cfg_Server c));
          newAdminAddr = (if ac_Enabled (cfg_Admin newConfig) then ac_Addr (cfg_Admin newConfig) else '''')
      in first_err
        [fail_if (cfg_Addr newConfig \<noteq> oldHTTPAddr) (AddrChanged oldHTTPAddr (cfg_Addr newConfig)),
         fail_if (sc_ShutdownTimeout (cfg_Server newConfig) \<noteq> oldShutdownTimeout)
           (ShutdownTimeoutChanged oldShutdownTimeout (sc_ShutdownTimeout (cfg_Server newConfig))),
         fail_if (ac_Enabled (cfg_Admin newConfig) \<noteq> sv_adminEnabled s) AdminEnabledChanged,
         fail_if (newAdminAddr \<noteq> oldAdminAddr) (AdminAddrChanged oldAdminAddr newAdminAddr),
         fail_if (ac_Token (cfg_Admin newConfig) \<noteq> sv_adminToken s) AdminTokenChanged,
         fail_if (ac_MetricsRequireToken (cfg_Admin newConfig) \<noteq> sv_metricsRequireToken s) MetricsRequireTokenChanged,
         fail_if (ac_PprofEnabled (cfg_Admin newConfig) \<noteq> sv_pprofEnabled s) PprofEnabledChanged])"

text \<open>What a reload reads: the file system, the JSON decoder and the process environment.\<close>

record load_env =
  le_read :: "string \<Rightarrow> string + string"
  le_unmarshal :: "string \<Rightarrow> string + config"
  le_lookup :: environment

text \<open>The exchange under the lock.\<close>

definition swap_runtime :: "config \<Rightarrow> runtimeBundle \<Rightarrow> server \<Rightarrow> server" where
  "swap_runtime newConfig rt s =
     s\<lparr>sv_routes := rb_routes rt, sv_proxyHandlers := rb_proxyHandlers rt, sv_rateLimiters := rb_rateLimiters rt,
       sv_healthCheckers := rb_healthCheckers rt, sv_globalRateLimiter := rb_globalRateLimiter rt,
       sv_globalConcurrencyLimiter := rb_globalConcurrencyLimiter rt, sv_currentConfig := Some newConfig,
       sv_mainHandler := rh_Store (Some (rb_handler rt)) (sv_mainHandler s)\<rparr>"

text \<open>What comes before the lock: only objects nobody else knows of yet are made.\<close>

definition prepare_reload ::
    "build_env \<Rightarrow> load_env \<Rightarrow> server \<Rightarrow> gateway \<Rightarrow> gateway \<times> (reload_stop + config \<times> runtimeBundle)" where
  "prepare_reload env files s g0 =
     (if sv_configPath s = '''' then (g0, Inl (ReloadError ConfigPathMissing))
      else case Load (le_read files) (le_unmarshal files) (le_lookup files) (be_parse env) (sv_configPath s) of
        Inl e \<Rightarrow> (g0, Inl (ReloadError (LoadConfigFailed e)))
      | Inr newConfig \<Rightarrow>
          (case validateReloadConfig s newConfig of
             Some e \<Rightarrow> (g0, Inl (ReloadError e))
           | None \<Rightarrow>
               (case buildRuntime env newConfig g0 of
                  (g1, Inl (BuildError e)) \<Rightarrow> (g1, Inl (ReloadError (BuildRuntimeFailed e)))
                | (g1, Inl (BuildPanic p)) \<Rightarrow> (g1, Inl (ReloadPanic p))
                | (g1, Inr rt) \<Rightarrow> (g1, Inr (newConfig, rt)))))"

text \<open>The whole of it: preparing, the exchange under the lock, and closing what the lock had given out.\<close>

definition Reload ::
    "build_env \<Rightarrow> load_env \<Rightarrow> server \<Rightarrow> gateway \<Rightarrow> server \<times> gateway \<times> (reload_stop + routeDTO list)" where
  "Reload env files s g0 =
     (case prepare_reload env files s g0 of
        (g1, Inl e) \<Rightarrow> (s, g1, Inl e)
      | (g1, Inr (newConfig, newRuntime)) \<Rightarrow>
          (let s1 = swap_runtime newConfig newRuntime s;
               routes = routeDTOsLocked (be_string env) (be_now env) g1 s1;
               (g2, closed) = closeRuntimeResources (sv_proxyHandlers s) (sv_rateLimiters s) (sv_healthCheckers s) g1
           in (s1, g2, Inr routes)))"


section \<open>What closing does\<close>

abbreviation shut :: "tokenBucket \<Rightarrow> tokenBucket" where
  "shut b \<equiv> the (tb_Close (Some b))"

lemma shut_bucket:
  "tb_Close (Some b) = Some (shut b)" "tb_done (shut b)" "shut (shut b) = shut b"
  "tb_rate (shut b) = tb_rate b" "tb_burst (shut b) = tb_burst b" "tb_inv b \<Longrightarrow> tb_inv (shut b)"
  by (auto simp: tb_inv_def)

lemma close_proxies:
  "gw_registry (fold close_proxy ps g) = gw_registry g" "gw_buckets (fold close_proxy ps g) = gw_buckets g"
  "gw_semaphores (fold close_proxy ps g) = gw_semaphores g"
  "length (gw_proxies (fold close_proxy ps g)) = length (gw_proxies g)"
  by (induction ps arbitrary: g) (simp_all add: close_proxy_def put_proxy_def)

lemma close_proxies_nth:
  "j < length (gw_proxies g) \<Longrightarrow> gw_proxies (fold close_proxy ps g) ! j =
     (if j \<in> set ps then CloseIdleConnections (gw_proxies g ! j) else gw_proxies g ! j)"
proof (induction ps arbitrary: g)
  case (Cons i ps)
  then show ?case
    by (cases "i = j") (simp_all add: close_proxy_def put_proxy_def CloseIdleConnections_idem)
qed simp

lemma close_bucket_cases:
  "close_bucket None g = g"
  "close_bucket (Some i) g = g\<lparr>gw_buckets := (gw_buckets g)[i := shut (gw_buckets g ! i)]\<rparr>"
  by (simp_all add: close_bucket_def get_at_def put_bucket_def)

lemma close_buckets:
  "gw_registry (fold close_bucket as g) = gw_registry g \<and> gw_proxies (fold close_bucket as g) = gw_proxies g \<and>
   gw_semaphores (fold close_bucket as g) = gw_semaphores g \<and>
   length (gw_buckets (fold close_bucket as g)) = length (gw_buckets g)"
proof (induction as arbitrary: g)
  case (Cons a as)
  then show ?case by (cases a) (simp_all add: close_bucket_cases)
qed simp

lemma close_buckets_nth:
  "j < length (gw_buckets g) \<Longrightarrow> gw_buckets (fold close_bucket as g) ! j =
     (if Some j \<in> set as then shut (gw_buckets g ! j) else gw_buckets g ! j)"
proof (induction as arbitrary: g)
  case (Cons a as)
  show ?case
  proof (cases a)
    case (Some i)
    then show ?thesis
      using Cons.IH [of "close_bucket a g"] Cons.prems
      by (cases "i = j") (simp_all add: close_bucket_cases shut_bucket(3) del: tb_Close.simps)
  qed (use Cons in \<open>simp add: close_bucket_cases\<close>)
qed simp

text \<open>A store in which the objects of two lists have been closed and everything else is as it was.\<close>

definition closed_in :: "nat list \<Rightarrow> nat option list \<Rightarrow> gateway \<Rightarrow> gateway \<Rightarrow> bool" where
  "closed_in ps as g g' \<longleftrightarrow> gw_registry g' = gw_registry g \<and> gw_semaphores g' = gw_semaphores g \<and>
     length (gw_proxies g') = length (gw_proxies g) \<and> length (gw_buckets g') = length (gw_buckets g) \<and>
     (\<forall>j < length (gw_proxies g). gw_proxies g' ! j =
        (if j \<in> set ps then CloseIdleConnections (gw_proxies g ! j) else gw_proxies g ! j)) \<and>
     (\<forall>j < length (gw_buckets g). gw_buckets g' ! j =
        (if Some j \<in> set as then shut (gw_buckets g ! j) else gw_buckets g ! j))"

lemma closeRuntimeResources_closed:
  "closed_in ps as g (fst (closeRuntimeResources ps as cs g))"
  by (simp add: closed_in_def closeRuntimeResources_def close_proxies close_proxies_nth close_buckets
      close_buckets_nth
      del: tb_Close.simps)

text \<open>What a reload has built is behind everything the old runtime had, so closing the old one leaves it alone.\<close>

lemma wired_closed:
  assumes "closed_in ps as g g'" and "\<And>i. i \<in> set ps \<Longrightarrow> i < p" and "\<And>i. Some i \<in> set as \<Longrightarrow> i < b"
  shows "p \<le> i \<Longrightarrow> proxy_wired g route i \<Longrightarrow> proxy_wired g' route i"
    and "(\<And>i. a = Some i \<Longrightarrow> b \<le> i) \<Longrightarrow> rate_wired g rate burst a \<Longrightarrow> rate_wired g' rate burst a"
    and "semaphore_wired g n c \<Longrightarrow> semaphore_wired g' n c"
  using assms
  by (auto simp: closed_in_def proxy_wired_def rate_wired_def semaphore_wired_def open_bucket_def
      split: option.splits simp del: tb_Close.simps dest: leD)
section \<open>A reload\<close>

text \<open>A server none of whose pointers leaves the store.\<close>

definition points_into :: "server \<Rightarrow> gateway \<Rightarrow> bool" where
  "points_into s g \<longleftrightarrow> list_all (\<lambda>i. i < length (gw_proxies g)) (sv_proxyHandlers s) \<and>
     list_all (\<lambda>a. pred_option (\<lambda>i. i < length (gw_buckets g)) a) (sv_rateLimiters s)"

lemma in_map_filter_id: "i \<in> set (List.map_filter id xs) \<longleftrightarrow> Some i \<in> set xs"
  by (induction xs) (auto simp: map_filter_simps split: option.split)

lemma limiter_in_list:
  "List.map_filter id (xs @ [x]) = List.map_filter id ys \<Longrightarrow> Some i \<in> set (x # xs) \<Longrightarrow> Some i \<in> set ys"
  using in_map_filter_id [of i "xs @ [x]"] in_map_filter_id [of i ys] by auto

lemma bundle_pointers:
  assumes "bundle_wired g0 cfg g rt"
  shows "i \<in> set (rb_proxyHandlers rt) \<longleftrightarrow> length (gw_proxies g0) \<le> i \<and> i < length (gw_proxies g)"
    and "Some j \<in> set (rb_rateLimiters rt) \<longleftrightarrow> length (gw_buckets g0) \<le> j \<and> j < length (gw_buckets g)"
    and "Some j \<in> set (rb_globalRateLimiter rt # map rr_rateLimiter (rb_routes rt)) \<Longrightarrow> length (gw_buckets g0) \<le> j"
    and "rr \<in> set (rb_routes rt) \<Longrightarrow> length (gw_proxies g0) \<le> rr_proxyHandler rr"
proof -
  show 2: "Some j \<in> set (rb_rateLimiters rt) \<longleftrightarrow> length (gw_buckets g0) \<le> j \<and> j < length (gw_buckets g)" for j
    using assms in_map_filter_id [of j "rb_rateLimiters rt"] by (auto simp: bundle_wired_def)
  show "Some j \<in> set (rb_globalRateLimiter rt # map rr_rateLimiter (rb_routes rt)) \<Longrightarrow> length (gw_buckets g0) \<le> j"
    using assms limiter_in_list [of "map rr_rateLimiter (rb_routes rt)" "rb_globalRateLimiter rt" "rb_rateLimiters rt" j] 2
    by (simp only: bundle_wired_def)
  show "i \<in> set (rb_proxyHandlers rt) \<longleftrightarrow> length (gw_proxies g0) \<le> i \<and> i < length (gw_proxies g)" for i
    using assms by (auto simp: bundle_wired_def)
  then show "rr \<in> set (rb_routes rt) \<Longrightarrow> length (gw_proxies g0) \<le> rr_proxyHandler rr"
    using assms by (auto simp: bundle_wired_def dest!: arg_cong [where f = set])
qed
text \<open>A server that runs a configuration and has not served anything yet.\<close>

definition serving :: "config \<Rightarrow> server \<Rightarrow> bool" where
  "serving cfg s \<longleftrightarrow> (case rh_value (sv_mainHandler s) of
     Some (MainHandler m) \<Rightarrow> mh_routes m = sv_routes s \<and> mh_rate m = sv_globalRateLimiter s \<and>
       mh_concurrency m = sv_globalConcurrencyLimiter s \<and> RequestTimeoutDuration cfg = Inr (mh_timeout m)
   | _ \<Rightarrow> False)"

definition fresh_runtime :: "gateway \<Rightarrow> config \<Rightarrow> server \<Rightarrow> bool" where
  "fresh_runtime g cfg s \<longleftrightarrow> sv_currentConfig s = Some cfg \<and> serving cfg s \<and>
     list_all2 (wired g) (cfg_Routes cfg) (sv_routes s) \<and> map rr_proxyHandler (sv_routes s) = sv_proxyHandlers s \<and>
     rate_wired g (sc_RateLimitRPS (cfg_Server cfg)) (sc_RateLimitBurst (cfg_Server cfg)) (sv_globalRateLimiter s) \<and>
     semaphore_wired g (sc_MaxConcurrency (cfg_Server cfg)) (sv_globalConcurrencyLimiter s) \<and>
     List.map_filter id (map rr_rateLimiter (sv_routes s) @ [sv_globalRateLimiter s]) =
       List.map_filter id (sv_rateLimiters s) \<and> sv_healthCheckers s = []"

lemma serving_swap: "bundle_wired g0 cfg g rt \<Longrightarrow> serving cfg (swap_runtime cfg rt s)"
  by (simp add: serving_def swap_runtime_def rh_Store_def bundle_wired_def)

lemma fresh_runtime_swap:
  assumes b: "bundle_wired g0 cfg g1 rt" and into: "points_into s g0"
    and c: "closed_in (sv_proxyHandlers s) (sv_rateLimiters s) g1 g2"
  shows "fresh_runtime g2 cfg (swap_runtime cfg rt s)"
proof -
  have old: "i \<in> set (sv_proxyHandlers s) \<Longrightarrow> i < length (gw_proxies g0)"
    "Some j \<in> set (sv_rateLimiters s) \<Longrightarrow> j < length (gw_buckets g0)" for i j
    using into by (auto simp: points_into_def list_all_iff)
  note keep = wired_closed [OF c old]
  have limiter: "length (gw_buckets g0) \<le> i"
    if "Some i \<in> set (rb_globalRateLimiter rt # map rr_rateLimiter (rb_routes rt))" for i
    using bundle_pointers(3) [OF b that] .
  have "wired g2 route rr" if "wired g1 route rr" and rr: "rr \<in> set (rb_routes rt)" for route rr
  proof -
    have "length (gw_buckets g0) \<le> i" if "rr_rateLimiter rr = Some i" for i
    proof (rule limiter)
      have "Some i \<in> rr_rateLimiter ` set (rb_routes rt)" using that rr by (metis imageI)
      then show "Some i \<in> set (rb_globalRateLimiter rt # map rr_rateLimiter (rb_routes rt))" by simp
    qed
    with that keep bundle_pointers(4) [OF b rr] show ?thesis by (auto simp: wired_def)
  qed
  with b have "list_all2 (wired g2) (cfg_Routes cfg) (rb_routes rt)"
    by (auto simp: bundle_wired_def list_all2_conv_all_nth)
  moreover have "rate_wired g2 (sc_RateLimitRPS (cfg_Server cfg)) (sc_RateLimitBurst (cfg_Server cfg)) (rb_globalRateLimiter rt)"
    using b limiter keep(2) [of "rb_globalRateLimiter rt"] by (simp add: bundle_wired_def)
  moreover have "semaphore_wired g2 (sc_MaxConcurrency (cfg_Server cfg)) (rb_globalConcurrencyLimiter rt)"
    using b keep(3) by (simp add: bundle_wired_def)
  ultimately show ?thesis
    using b serving_swap [OF b, of s] by (simp add: fresh_runtime_def swap_runtime_def bundle_wired_def)
qed

text \<open>What remains of the old objects: those of the old runtime are closed, the others as they were.\<close>

definition old_closed :: "server \<Rightarrow> gateway \<Rightarrow> gateway \<Rightarrow> bool" where
  "old_closed s g0 g' \<longleftrightarrow> gw_registry g' = gw_registry g0 \<and> (\<exists>ls. gw_semaphores g' = gw_semaphores g0 @ ls) \<and>
     (\<forall>j < length (gw_proxies g0). gw_proxies g' ! j =
        (if j \<in> set (sv_proxyHandlers s) then CloseIdleConnections (gw_proxies g0 ! j) else gw_proxies g0 ! j)) \<and>
     (\<forall>j < length (gw_buckets g0). gw_buckets g' ! j =
        (if Some j \<in> set (sv_rateLimiters s) then shut (gw_buckets g0 ! j) else gw_buckets g0 ! j))"

lemma old_closed_after:
  "extends g0 g1 \<Longrightarrow> closed_in (sv_proxyHandlers s) (sv_rateLimiters s) g1 g2 \<Longrightarrow> old_closed s g0 g2"
  by (auto simp: extends_def closed_in_def old_closed_def nth_append simp del: tb_Close.simps)

lemma validateReloadConfig_reason: "validateReloadConfig s cfg \<noteq> Some (BuildRuntimeFailed b)"
  by (simp add: validateReloadConfig_def Let_def fail_if_def)

text \<open>The three ways the preparation of a reload can go, and with it the reload.\<close>

lemma prepare_cases:
  assumes "prepare_reload env files s g0 = (g1, r)"
  obtains (refused) e where "r = Inl (ReloadError e)" and "g1 = g0" and "\<And>b. e \<noteq> BuildRuntimeFailed b"
  | (panicked) p cfg n result where "r = Inl (ReloadPanic p)"
      and "Load (le_read files) (le_unmarshal files) (le_lookup files) (be_parse env) (sv_configPath s) = Inr cfg"
      and "0 < n \<or> (\<exists>p. registerSystemRoutes (be_rules env) [] = Inl p)"
      and "n \<le> length (cfg_Routes cfg)" and "built g0 (take n (cfg_Routes cfg)) g1 result"
  | (prepared) cfg rt where "r = Inr (cfg, rt)"
      and "Load (le_read files) (le_unmarshal files) (le_lookup files) (be_parse env) (sv_configPath s) = Inr cfg"
      and "validateReloadConfig s cfg = None" and "bundle_wired g0 cfg g1 rt"
proof (cases "sv_configPath s = ''''")
  case True
  then show ?thesis using assms by (intro refused) (auto simp: prepare_reload_def)
next
  case path: False
  let ?load = "Load (le_read files) (le_unmarshal files) (le_lookup files) (be_parse env) (sv_configPath s)"
  show ?thesis
  proof (cases ?load)
    case (Inl e)
    then show ?thesis using assms path by (intro refused [of "LoadConfigFailed e"]) (auto simp: prepare_reload_def)
  next
    case (Inr cfg)
    show ?thesis
    proof (cases "validateReloadConfig s cfg")
      case (Some e)
      then show ?thesis using assms path Inr validateReloadConfig_reason [of s cfg]
        by (intro refused [of e]) (auto simp: prepare_reload_def)
    next
      case None
      have valid: "valid_config (be_parse env) cfg" using Load_valid Inr by blast
      obtain g2 b where build: "buildRuntime env cfg g0 = (g2, b)" by (metis surj_pair)
      note sound = buildRuntime_sound [OF valid build]
      show ?thesis
      proof (cases b)
        case (Inl e)
        with sound obtain p n result where e: "e = BuildPanic p"
          and n: "0 < n \<or> (\<exists>p. registerSystemRoutes (be_rules env) [] = Inl p)" "n \<le> length (cfg_Routes cfg)"
          and built: "built g0 (take n (cfg_Routes cfg)) g2 result" by auto
        have "r = Inl (ReloadPanic p)" "g1 = g2"
          using assms path Inr None build Inl e by (simp_all add: prepare_reload_def)
        with Inr n built show ?thesis by (intro panicked [of p cfg n result]) simp_all
      next
        case b: (Inr rt)
        have "r = Inr (cfg, rt)" "g1 = g2" using assms path Inr None build b by (simp_all add: prepare_reload_def)
        with Inr None sound b show ?thesis by (intro prepared [of cfg rt]) simp_all
      qed
    qed
  qed
qed

lemma Reload_prepared:
  assumes "prepare_reload env files s g0 = (g1, r)"
  shows "Reload env files s g0 = (case r of
      Inl e \<Rightarrow> (s, g1, Inl e)
    | Inr (cfg, rt) \<Rightarrow>
        (swap_runtime cfg rt s,
         fst (closeRuntimeResources (sv_proxyHandlers s) (sv_rateLimiters s) (sv_healthCheckers s) g1),
         Inr (routeDTOsLocked (be_string env) (be_now env) g1 (swap_runtime cfg rt s))))"
  using assms by (simp add: Reload_def Let_def split_beta split: sum.split)

lemma Reload_cases:
  assumes "Reload env files s g0 = (s', g', r)"
  obtains (refused) e where "r = Inl (ReloadError e)" and "s' = s" and "g' = g0"
      and "\<And>b. e \<noteq> BuildRuntimeFailed b"
  | (panicked) p cfg n result where "r = Inl (ReloadPanic p)" and "s' = s"
      and "Load (le_read files) (le_unmarshal files) (le_lookup files) (be_parse env) (sv_configPath s) = Inr cfg"
      and "0 < n \<or> (\<exists>p. registerSystemRoutes (be_rules env) [] = Inl p)"
      and "n \<le> length (cfg_Routes cfg)" and "built g0 (take n (cfg_Routes cfg)) g' result"
  | (replaced) cfg g1 rt where "prepare_reload env files s g0 = (g1, Inr (cfg, rt))"
      and "Load (le_read files) (le_unmarshal files) (le_lookup files) (be_parse env) (sv_configPath s) = Inr cfg"
      and "validateReloadConfig s cfg = None" and "bundle_wired g0 cfg g1 rt"
      and "s' = swap_runtime cfg rt s"
      and "g' = fst (closeRuntimeResources (sv_proxyHandlers s) (sv_rateLimiters s) (sv_healthCheckers s) g1)"
      and "r = Inr (routeDTOsLocked (be_string env) (be_now env) g1 s')"
proof -
  obtain g1 p where prep: "prepare_reload env files s g0 = (g1, p)" by (metis surj_pair)
  note R = assms [unfolded Reload_prepared [OF prep]]
  from prep show ?thesis
  proof (cases rule: prepare_cases)
    case (refused e)
    then show ?thesis using R by (intro that(1) [of e]) auto
  next
    case (panicked p cfg n result)
    then show ?thesis using R by (intro that(2) [of p cfg n result]) auto
  next
    case (prepared cfg rt)
    then show ?thesis using R prep by (intro that(3) [of g1 cfg rt]) auto
  qed
qed

section \<open>Restart-only settings\<close>

text \<open>The settings a reload must not change, as a server and a configuration have them.\<close>

record restart_settings =
  rs_addr :: string
  rs_shutdownTimeout :: string
  rs_adminEnabled :: bool
  rs_adminAddr :: string
  rs_adminToken :: string
  rs_metricsRequireToken :: bool
  rs_pprofEnabled :: bool

definition settings_of :: "config \<Rightarrow> restart_settings" where
  "settings_of cfg = \<lparr>rs_addr = cfg_Addr cfg, rs_shutdownTimeout = sc_ShutdownTimeout (cfg_Server cfg),
     rs_adminEnabled = ac_Enabled (cfg_Admin cfg),
     rs_adminAddr = (if ac_Enabled (cfg_Admin cfg) then ac_Addr (cfg_Admin cfg) else ''''),
     rs_adminToken = ac_Token (cfg_Admin cfg), rs_metricsRequireToken = ac_MetricsRequireToken (cfg_Admin cfg),
     rs_pprofEnabled = ac_PprofEnabled (cfg_Admin cfg)\<rparr>"

definition settings_in :: "server \<Rightarrow> restart_settings" where
  "settings_in s = \<lparr>rs_addr = addr_of (sv_httpServer s),
     rs_shutdownTimeout = (case sv_currentConfig s of None \<Rightarrow> '''' | Some c \<Rightarrow> sc_ShutdownTimeout (cfg_Server c)),
     rs_adminEnabled = sv_adminEnabled s, rs_adminAddr = addr_of (sv_adminHTTPServer s),
     rs_adminToken = sv_adminToken s, rs_metricsRequireToken = sv_metricsRequireToken s,
     rs_pprofEnabled = sv_pprofEnabled s\<rparr>"

lemma validateReloadConfig_iff: "validateReloadConfig s cfg = None \<longleftrightarrow> settings_of cfg = settings_in s"
  by (auto simp: validateReloadConfig_def settings_of_def settings_in_def Let_def)

lemma settings_swap:
  "settings_of cfg = settings_in s \<Longrightarrow> settings_in (swap_runtime cfg rt s) = settings_in s"
  by (simp add: settings_of_def settings_in_def swap_runtime_def)

section \<open>Starting\<close>

text \<open>A server whose fields are those of a runtime.\<close>

definition holds_runtime :: "config \<Rightarrow> runtimeBundle \<Rightarrow> server \<Rightarrow> bool" where
  "holds_runtime cfg rt s \<longleftrightarrow> sv_currentConfig s = Some cfg \<and>
     rh_value (sv_mainHandler s) = Some (MainHandler (rb_handler rt)) \<and> sv_routes s = rb_routes rt \<and>
     sv_proxyHandlers s = rb_proxyHandlers rt \<and> sv_rateLimiters s = rb_rateLimiters rt \<and>
     sv_healthCheckers s = rb_healthCheckers rt \<and> sv_globalRateLimiter s = rb_globalRateLimiter rt \<and>
     sv_globalConcurrencyLimiter s = rb_globalConcurrencyLimiter rt"

lemma holds_swap: "holds_runtime cfg rt (swap_runtime cfg rt s)"
  by (simp add: holds_runtime_def swap_runtime_def rh_Store_def)

lemma holds_fresh: "bundle_wired g0 cfg g rt \<Longrightarrow> holds_runtime cfg rt s \<Longrightarrow> fresh_runtime g cfg s"
  by (simp add: bundle_wired_def holds_runtime_def fresh_runtime_def serving_def)

lemma holds_points_into:
  assumes "bundle_wired g0 cfg g rt" and "holds_runtime cfg rt s"
  shows "points_into s g"
  using assms(2) bundle_pointers(1,2) [OF assms(1)]
  by (auto simp: points_into_def holds_runtime_def list_all_iff option.pred_set)

lemma NewWithConfigPath_started:
  assumes "valid_config (be_parse env) cfg" and "NewWithConfigPath env cfg path g0 = (g, Inr s)"
  obtains rt where "bundle_wired (g0\<lparr>gw_registry := Some (NewRegistry (be_now env))\<rparr>) cfg g rt"
    and "holds_runtime cfg rt s" and "settings_in s = settings_of cfg" and "sv_configPath s = path"
proof -
  let ?g0 = "g0\<lparr>gw_registry := Some (NewRegistry (be_now env))\<rparr>"
  obtain g1 b where build: "buildRuntime env cfg ?g0 = (g1, b)" by (metis surj_pair)
  then obtain rt where b: "b = Inr rt" using assms(2) by (cases b) (simp_all add: NewWithConfigPath_def)
  have "g1 = g" using assms(2) build b
    by (auto simp: NewWithConfigPath_def Let_def split: if_splits sum.splits)
  moreover have "bundle_wired ?g0 cfg g1 rt" using buildRuntime_sound [OF assms(1) build] b by simp
  moreover have "holds_runtime cfg rt s \<and> settings_in s = settings_of cfg \<and> sv_configPath s = path"
    using assms(2) build b
    by (auto simp: NewWithConfigPath_def holds_runtime_def settings_in_def settings_of_def server_of_def
        newReloadableHandler_def rh_Store_def addr_of_def Let_def split: if_splits sum.splits)
  ultimately show ?thesis using that by blast
qed

section \<open>Properties\<close>

text \<open>
  C20: A reload that fails changes nothing: if the file cannot be loaded, the configuration is not
  valid or changes what needs a restart, the server and everything it has are as before; only a panic
  of the mux, while the new runtime is built, leaves new objects behind, and the old ones and the
  server are untouched then too. A valid configuration is never refused for another reason.
\<close>

theorem failed_reload_changes_nothing:
  assumes "Reload env files s g0 = (s', g', Inl e)"
  shows "s' = s \<and> extends g0 g' \<and> (\<forall>err. e = ReloadError err \<longrightarrow> g' = g0 \<and> (\<forall>b. err \<noteq> BuildRuntimeFailed b))"
  using assms by (cases rule: Reload_cases) (auto dest: built_extends)

definition demo_files :: load_env where
  "demo_files = \<lparr>le_read = (\<lambda>_. Inr ''{}''), le_unmarshal = (\<lambda>_. Inr demo_raw), le_lookup = (\<lambda>_. None)\<rparr>"

definition demo_store :: gateway where
  "demo_store = \<lparr>gw_proxies = [demo_handler 0], gw_buckets = [demo_tb], gw_semaphores = [], gw_registry = None\<rparr>"

text \<open>A server with one proxy and one limiter, started with the settings of \<open>demo_config\<close>.\<close>

definition demo_server :: server where
  "demo_server =
     \<lparr>sv_httpServer = Some \<lparr>srv_Addr = '':8080'', srv_ReadHeaderTimeout = 5 * second\<rparr>,
      sv_adminHTTPServer = Some \<lparr>srv_Addr = ''127.0.0.1:9001'', srv_ReadHeaderTimeout = 5 * second\<rparr>,
      sv_adminMux = [], sv_mainHandler = newReloadableHandler None, sv_configPath = ''gateway.json'',
      sv_currentConfig = Some demo_config, sv_routes = [], sv_proxyHandlers = [0], sv_rateLimiters = [None, Some 0],
      sv_healthCheckers = [], sv_globalRateLimiter = Some 0, sv_globalConcurrencyLimiter = None,
      sv_adminEnabled = True, sv_adminToken = ''secret'', sv_metricsRequireToken = True, sv_pprofEnabled = False\<rparr>"

lemma demo_server_loads:
  "Load (le_read demo_files) (le_unmarshal demo_files) (le_lookup demo_files) (be_parse demo_build)
    (sv_configPath demo_server) = Inr demo_config"
  using demo_loads by (simp add: demo_files_def)

lemma demo_settings: "settings_of demo_config = settings_in demo_server"
  by (simp add: settings_of_def settings_in_def demo_config_def demo_server_def cfg_Addr_def addr_of_def)

theorem failed_reload_changes_nothing_witness:
  "Reload demo_build demo_files (demo_server\<lparr>sv_adminToken := ''old''\<rparr>) demo_store =
     (demo_server\<lparr>sv_adminToken := ''old''\<rparr>, demo_store, Inl (ReloadError AdminTokenChanged))"
proof -
  let ?s = "demo_server\<lparr>sv_adminToken := ''old''\<rparr>"
  have "validateReloadConfig ?s demo_config = Some AdminTokenChanged"
    by (simp add: validateReloadConfig_def Let_def demo_config_def demo_server_def cfg_Addr_def addr_of_def
        first_err_Cons fail_if_def)
  moreover have "sv_configPath ?s \<noteq> ''''" by (simp add: demo_server_def)
  ultimately obtain s' g' where r: "Reload demo_build demo_files ?s demo_store = (s', g', Inl (ReloadError AdminTokenChanged))"
    using demo_server_loads by (simp add: Reload_def prepare_reload_def)
  from failed_reload_changes_nothing [OF r] r show ?thesis by simp
qed


lemma demo_reload:
  obtains s' g' routes where "Reload demo_build demo_files demo_server demo_store = (s', g', Inr routes)"
proof -
  have v: "valid_config (be_parse demo_build) demo_config" using demo_config_valid by simp
  have l: "list_all literal_pattern (config_patterns demo_config)" unfolding demo_patterns by code_simp
  have d: "distinct (config_patterns demo_config)" by (simp add: demo_patterns)
  from buildRuntime_literal [OF v demo_rules_literal l, of demo_store] d
  obtain g1 rt where b: "buildRuntime demo_build demo_config demo_store = (g1, Inr rt)" by auto
  have "sv_configPath demo_server \<noteq> ''''" by (simp add: demo_server_def)
  moreover have "validateReloadConfig demo_server demo_config = None" using demo_settings validateReloadConfig_iff by blast
  ultimately show ?thesis
    using that demo_server_loads b by (simp add: Reload_def prepare_reload_def Let_def split_beta)
qed

end
