(* ===== verification/Admin.thy ===== *)
theory Admin
  imports Server Prometheus
begin

text \<open>
  The admin server: \<^verbatim>\<open>internal/server/admin.go\<close>, \<^verbatim>\<open>admin_auth.go\<close>, \<^verbatim>\<open>admin_dto.go\<close>,
  \<^verbatim>\<open>json_response.go\<close>, the page of \<^verbatim>\<open>reload.go\<close> and the guard of \<^verbatim>\<open>pprof.go\<close>.

  The JSON encoder, \<^verbatim>\<open>sha256\<close>, the text of an error and the pages of \<^verbatim>\<open>net/http/pprof\<close> are
  parameters. Only the reload page can panic (in the mux of the new runtime); \<^verbatim>\<open>net/http\<close> recovers
  the panic, the client gets no answer, and the access log is skipped.
\<close>

section \<open>Answers\<close>

record upstreamHealthDTO =
  uhd_ID :: string
  uhd_URL :: string
  uhd_Name :: string
  uhd_Path :: string
  uhd_Interval :: duration
  uhd_Timeout :: duration
  uhd_Checked :: bool
  uhd_Healthy :: bool
  uhd_LastCheckedAt :: "go_time option"
  uhd_LastReason :: string

record healthDTO =
  hd_RouteID :: string
  hd_Target :: string
  hd_Checked :: bool
  hd_Healthy :: bool
  hd_Upstreams :: "upstreamHealthDTO list"

record globalStatusDTO =
  gsd_RateLimit :: "tokenBucketSnapShot option"
  gsd_Concurrency :: "limiterSnapshot option"

record routeStatusDTO =
  rsd_ID :: string
  rsd_RateLimit :: "tokenBucketSnapShot option"
  rsd_Concurrency :: "limiterSnapshot option"
  rsd_Health :: "checkerSnapshot option"

record statusDTO =
  sd_Global :: globalStatusDTO
  sd_Routes :: "routeStatusDTO list"

record reloadResultDTO =
  rrd_Success :: bool
  rrd_Message :: string
  rrd_ReloadedAt :: string
  rrd_Routes :: "routeDTO list"

datatype json_value =
    RoutesJSON "routeDTO list"
  | HealthJSON "healthDTO list"
  | StatusJSON statusDTO
  | MetricsJSON metricsSnapshot
  | EmptyJSON
  | ReloadJSON reloadResultDTO

definition writeJSON :: "(json_value \<Rightarrow> string) \<Rightarrow> int \<Rightarrow> json_value \<Rightarrow> writer \<Rightarrow> writer" where
  "writeJSON encode statusCode v w =
     w_Write (encode v)
       (w_WriteHeader statusCode
         (edit_header (header_set ''Content-Type'' ''application/json; charset=utf-8'') w))"

section \<open>Tokens\<close>

text \<open>\<^verbatim>\<open>subtle.ConstantTimeCompare\<close>: 1 if the two slices are equal, 0 if not.\<close>

definition ConstantTimeCompare :: "string \<Rightarrow> string \<Rightarrow> int" where
  "ConstantTimeCompare x y = (if x = y then 1 else 0)"

definition constantTimeTokenEqual :: "(string \<Rightarrow> string) \<Rightarrow> string \<Rightarrow> string \<Rightarrow> bool" where
  "constantTimeTokenEqual sha256 actual expected \<longleftrightarrow> ConstantTimeCompare (sha256 actual) (sha256 expected) = 1"

section \<open>Pages\<close>

text \<open>The server and the store it shares with the handlers; what the admin server meets outside.\<close>

record site =
  st_server :: server
  st_store :: gateway

record admin_env =
  ae_build :: build_env
  ae_files :: load_env
  ae_json :: "json_value \<Rightarrow> string"
  ae_sha256 :: "string \<Rightarrow> string"
  ae_error :: "reload_error \<Rightarrow> string"
  ae_stamp :: string
  ae_pprof :: "string \<Rightarrow> http_request \<Rightarrow> writer_op list"
  ae_own :: "admin_mux \<Rightarrow> http_request \<Rightarrow> writer_op list option"
  ae_cost :: duration

type_synonym admin_handler = "http_request \<Rightarrow> site \<Rightarrow> writer \<Rightarrow> site \<times> (build_panic + writer)"

definition answer :: "(site \<Rightarrow> writer \<Rightarrow> writer) \<Rightarrow> admin_handler" where
  "answer page = (\<lambda>r s w. (s, Inr (page s w)))"

definition only_method :: "string \<Rightarrow> admin_handler \<Rightarrow> admin_handler" where
  "only_method method next = (\<lambda>r s w.
     if rq_Method r \<noteq> method then (s, Inr (http_Error ''method not allowed'' 405 w)) else next r s w)"

definition adminAuthMiddleware :: "(string \<Rightarrow> string) \<Rightarrow> admin_handler \<Rightarrow> admin_handler" where
  "adminAuthMiddleware sha256 next = (\<lambda>r s w.
     let adminToken = sv_adminToken (st_server s) in
     if adminToken = '''' then (s, Inr (http_Error ''admin token is not configured'' 503 w))
     else
       let actualToken = header_get ''X-Admin-Token'' (rq_Header r) in
       if \<not> constantTimeTokenEqual sha256 actualToken adminToken
       then (s, Inr (http_Error ''unauthorized'' 401 w))
       else next r s w)"

definition handleAdminRoutes :: "admin_env \<Rightarrow> admin_handler" where
  "handleAdminRoutes env = only_method ''GET'' (answer (\<lambda>s w.
     writeJSON (ae_json env) 200 (RoutesJSON
       (routeDTOsLocked (be_string (ae_build env)) (be_now (ae_build env)) (st_store s) (st_server s))) w))"

text \<open>One route of the health page: the loop over its upstreams, then the verdict.\<close>

definition health_entry :: "upstreamSnapshot \<Rightarrow> healthDTO \<Rightarrow> healthDTO" where
  "health_entry upstream item =
     (case ups_ActiveHealth upstream of
        None \<Rightarrow> item
      | Some snapshot \<Rightarrow>
          item\<lparr>hd_Checked := hd_Checked item \<or> hcs_Checked snapshot,
            hd_Upstreams := hd_Upstreams item @
              [\<lparr>uhd_ID = ups_ID upstream, uhd_URL = ups_URL upstream, uhd_Name = hcs_Name snapshot,
                uhd_Path = hcs_Path snapshot, uhd_Interval = hcs_Interval snapshot,
                uhd_Timeout = hcs_Timeout snapshot, uhd_Checked = hcs_Checked snapshot,
                uhd_Healthy = hcs_Healthy snapshot, uhd_LastCheckedAt = hcs_LastCheckedAt snapshot,
                uhd_LastReason = hcs_LastReason snapshot\<rparr>]\<rparr>)"

definition health_item :: "string \<Rightarrow> string \<Rightarrow> upstreamSnapshot list \<Rightarrow> healthDTO" where
  "health_item routeID target upstreams =
     (let item = fold health_entry upstreams
            \<lparr>hd_RouteID = routeID, hd_Target = target, hd_Checked = False, hd_Healthy = True, hd_Upstreams = []\<rparr>
      in if length (hd_Upstreams item) > 0
         then item\<lparr>hd_Healthy := list_ex (\<lambda>u. \<not> uhd_Checked u \<or> uhd_Healthy u) (hd_Upstreams item)\<rparr>
         else item)"

definition health_page :: "admin_env \<Rightarrow> site \<Rightarrow> healthDTO list" where
  "health_page env s =
     map (\<lambda>route. health_item (rr_id route) (rr_target route)
         (UpstreamSnapshots (be_string (ae_build env)) (be_now (ae_build env))
           (gw_proxies (st_store s) ! rr_proxyHandler route)))
       (sv_routes (st_server s))"

definition handleAdminHealth :: "admin_env \<Rightarrow> admin_handler" where
  "handleAdminHealth env = only_method ''GET'' (answer (\<lambda>s w.
     writeJSON (ae_json env) 200 (HealthJSON (health_page env s)) w))"

text \<open>The snapshot behind a pointer, nothing for a nil pointer.\<close>

definition bucket_snapshot :: "gateway \<Rightarrow> nat option \<Rightarrow> tokenBucketSnapShot option" where
  "bucket_snapshot g a = (if a \<noteq> None then Some (tb_Snapshot (get_at gw_buckets a g)) else None)"

definition semaphore_snapshot :: "gateway \<Rightarrow> nat option \<Rightarrow> limiterSnapshot option" where
  "semaphore_snapshot g a = (if a \<noteq> None then Some (lim_Snapshot (get_at gw_semaphores a g)) else None)"

definition stats_page :: "admin_env \<Rightarrow> site \<Rightarrow> statusDTO" where
  "stats_page env s =
     \<lparr>sd_Global = \<lparr>gsd_RateLimit = bucket_snapshot (st_store s) (sv_globalRateLimiter (st_server s)),
        gsd_Concurrency = semaphore_snapshot (st_store s) (sv_globalConcurrencyLimiter (st_server s))\<rparr>,
      sd_Routes = map (\<lambda>route. \<lparr>rsd_ID = rr_id route,
          rsd_RateLimit = bucket_snapshot (st_store s) (rr_rateLimiter route),
          rsd_Concurrency = semaphore_snapshot (st_store s) (rr_concurrencyLimiter route),
          rsd_Health = map_option (\<lambda>c. hc_Snapshot (be_string (ae_build env)) (Some c)) (rr_healthChecker route)\<rparr>)
        (sv_routes (st_server s))\<rparr>"

definition handleAdminStats :: "admin_env \<Rightarrow> admin_handler" where
  "handleAdminStats env = only_method ''GET'' (answer (\<lambda>s w.
     writeJSON (ae_json env) 200 (StatusJSON (stats_page env s)) w))"

definition handleAdminMetrics :: "admin_env \<Rightarrow> admin_handler" where
  "handleAdminMetrics env = only_method ''GET'' (answer (\<lambda>s w.
     case gw_registry (st_store s) of
       None \<Rightarrow> writeJSON (ae_json env) 200 EmptyJSON w
     | Some reg \<Rightarrow> writeJSON (ae_json env) 200 (MetricsJSON (metrics_Snapshot (be_now (ae_build env)) reg)) w))"

definition handlePrometheusMetrics :: "admin_env \<Rightarrow> admin_handler" where
  "handlePrometheusMetrics env = only_method ''GET'' (answer (\<lambda>s w.
     let w1 = edit_header (header_set ''Content-Type'' ''text/plain; version=0.0.4; charset=utf-8'') w
     in if gw_registry (st_store s) = None then w_WriteHeader 200 w1
        else w_Write (PrometheusText (be_now (ae_build env)) (gw_registry (st_store s))) w1))"

definition handleAdminReload :: "admin_env \<Rightarrow> admin_handler" where
  "handleAdminReload env = only_method ''POST'' (\<lambda>r s w.
     case Reload (ae_build env) (ae_files env) (st_server s) (st_store s) of
       (sv, g, Inl (ReloadPanic p)) \<Rightarrow> (\<lparr>st_server = sv, st_store = g\<rparr>, Inl p)
     | (sv, g, Inl (ReloadError e)) \<Rightarrow>
         (\<lparr>st_server = sv, st_store = g\<rparr>, Inr (writeJSON (ae_json env) 400 (ReloadJSON
            \<lparr>rrd_Success = False, rrd_Message = ae_error env e, rrd_ReloadedAt = ae_stamp env, rrd_Routes = []\<rparr>) w))
     | (sv, g, Inr routes) \<Rightarrow>
         (\<lparr>st_server = sv, st_store = g\<rparr>, Inr (writeJSON (ae_json env) 200 (ReloadJSON
            \<lparr>rrd_Success = True, rrd_Message = ''config reloaded'', rrd_ReloadedAt = ae_stamp env,
             rrd_Routes = routes\<rparr>) w)))"

section \<open>The admin server\<close>

fun page_handler :: "admin_env \<Rightarrow> admin_page \<Rightarrow> admin_handler" where
  "page_handler env RoutesPage = handleAdminRoutes env"
| "page_handler env HealthPage = handleAdminHealth env"
| "page_handler env StatsPage = handleAdminStats env"
| "page_handler env MetricsPage = handleAdminMetrics env"
| "page_handler env ReloadPage = handleAdminReload env"
| "page_handler env PrometheusPage = handlePrometheusMetrics env"
| "page_handler env (PprofPage p) = (\<lambda>r s w. (s, Inr (fold run_op (ae_pprof env p r) w)))"

fun admin_handler :: "admin_env \<Rightarrow> admin_target \<Rightarrow> admin_handler" where
  "admin_handler env (Guarded page) = adminAuthMiddleware (ae_sha256 env) (page_handler env page)"
| "admin_handler env (Bare page) = page_handler env page"

definition admin_mux_ServeHTTP :: "admin_env \<Rightarrow> admin_handler" where
  "admin_mux_ServeHTTP env = (\<lambda>r s w.
     case ae_own env (sv_adminMux (st_server s)) r of
       Some own \<Rightarrow> (s, Inr (fold run_op own w))
     | None \<Rightarrow>
         (case mux_match (sv_adminMux (st_server s)) (url_Path (rq_URL r)) of
            None \<Rightarrow> (s, Inr (http_Error ''404 page not found'' 404 w))
          | Some t \<Rightarrow> admin_handler env t r s w))"

text \<open>The access log around the admin mux; a panic passes it by.\<close>

definition site_registry :: "site \<Rightarrow> registry option" where
  "site_registry s = gw_registry (st_store s)"

definition put_site_registry :: "registry option \<Rightarrow> site \<Rightarrow> site" where
  "put_site_registry reg s = s\<lparr>st_store := put_registry reg (st_store s)\<rparr>"

definition returning :: "admin_handler \<Rightarrow> site handler" where
  "returning h = (\<lambda>r s w. case h r s w of (s', Inl p) \<Rightarrow> None | (s', Inr w') \<Rightarrow> Some (s', w'))"

definition admin_ServeHTTP :: "admin_env \<Rightarrow> admin_handler" where
  "admin_ServeHTTP env = (\<lambda>r s w.
     case admin_mux_ServeHTTP env r s (newStatusRecorder w) of
       (s', Inl p) \<Rightarrow> (s', Inl p)
     | _ \<Rightarrow>
         (case accessLogMiddleware site_registry put_site_registry (ae_cost env)
                 (returning (admin_mux_ServeHTTP env)) r s w of
            Some (s', w') \<Rightarrow> (s', Inr w')
          | None \<Rightarrow> (s, Inr w)))"

section \<open>The routes that were registered\<close>

lemma handle_all_Inr: "handle_all rules ps m = Inr m' \<Longrightarrow> m' = m @ ps"
proof (induction ps arbitrary: m)
  case (Cons pt ps)
  obtain p t where pt: "pt = (p, t)" by (cases pt)
  with Cons.prems obtain m1 where "mux_Handle rules p t m = Inr m1" "handle_all rules ps m1 = Inr m'"
    by (auto simp: res_bind_Inr)
  moreover from this(1) have "m1 = m @ [(p, t)]" by (auto simp: mux_Handle_def split: if_splits option.splits)
  ultimately show ?case using Cons.IH [of m1] pt by simp
qed simp

definition admin_wired :: "mux_rules \<Rightarrow> server \<Rightarrow> bool" where
  "admin_wired rules s \<longleftrightarrow> registerAdminRoutes rules s [] = Inr (sv_adminMux s)"

definition admin_pages :: "(string \<times> admin_page) list" where
  "admin_pages = [(''/admin/routes'', RoutesPage), (''/admin/health'', HealthPage), (''/admin/stats'', StatsPage),
     (''/admin/metrics'', MetricsPage), (''/admin/reload'', ReloadPage)]"

lemma admin_wired_mux:
  assumes "admin_wired rules s"
  shows "sv_adminMux s =
    (if sv_adminEnabled s then map (\<lambda>(p, page). (p, Guarded page)) admin_pages @
       (if sv_pprofEnabled s then map (\<lambda>p. (p, Guarded (PprofPage p))) pprof_patterns else []) else []) @
    [(''/metrics'', (if sv_metricsRequireToken s then Guarded else Bare) PrometheusPage)]"
proof -
  have one: "mux_Handle rules p t m = Inr m' \<Longrightarrow> m' = m @ [(p, t)]" for p and t :: admin_target and m m'
    by (auto simp: mux_Handle_def split: if_splits option.splits)
  show ?thesis
    using assms
    by (auto simp: admin_wired_def registerAdminRoutes_def registerPprofRoutes_def res_bind_Inr admin_pages_def
        split: if_splits dest!: one handle_all_Inr)
qed

text \<open>Which page a request can reach, and behind which guard.\<close>

lemma mux_match_Some:
  assumes "mux_match m path = Some t"
  obtains p where "(p, t) \<in> set m" and "pattern_matches p path"
  using assms longest_match_Some [of path m] by (auto simp: mux_match_def)

lemma admin_targets:
  assumes "admin_wired rules s" and "mux_match (sv_adminMux s) path = Some t"
  shows "t = Guarded ReloadPage \<Longrightarrow> path = ''/admin/reload''"
    and "t = Bare page \<Longrightarrow> path = ''/metrics'' \<and> page = PrometheusPage \<and> \<not> sv_metricsRequireToken s"
proof -
  obtain p where p: "(p, t) \<in> set (sv_adminMux s)" "pattern_matches p path" using mux_match_Some [OF assms(2)] .
  have exact: "path = p" if "p \<in> {''/admin/reload'', ''/metrics''}"
    using p(2) that by (auto simp: pattern_matches_def has_suffix_def has_prefix_Cons1)
  show "path = ''/admin/reload''" if "t = Guarded ReloadPage"
    using p(1) that exact by (auto simp: admin_wired_mux [OF assms(1)] admin_pages_def split: if_splits)
  show "path = ''/metrics'' \<and> page = PrometheusPage \<and> \<not> sv_metricsRequireToken s" if "t = Bare page"
    using p(1) that exact by (auto simp: admin_wired_mux [OF assms(1)] admin_pages_def split: if_splits)
qed

section \<open>What a page does\<close>

text \<open>Reading pages leave the site as it is; every page writes through the writer it is given.\<close>

definition returns_same :: "admin_handler \<Rightarrow> bool" where
  "returns_same h \<longleftrightarrow> (\<forall>r s w. \<exists>w'. h r s w = (s, Inr w') \<and> (is_recorder w \<longrightarrow> is_recorder w'))"

lemma returns_sameD:
  "returns_same h \<Longrightarrow> h r s w = (s', out) \<Longrightarrow> s' = s \<and> (\<exists>w'. out = Inr w' \<and> (is_recorder w \<longrightarrow> is_recorder w'))"
  unfolding returns_same_def by (metis prod.inject)

lemma is_recorder_error [simp]: "is_recorder (http_Error msg status w) = is_recorder w"
  by (simp add: http_Error_def)

lemma is_recorder_JSON [simp]: "is_recorder (writeJSON encode status v w) = is_recorder w"
  by (simp add: writeJSON_def)

lemma returns_same_answer: "(\<And>s w. is_recorder w \<Longrightarrow> is_recorder (page s w)) \<Longrightarrow> returns_same (answer page)"
  by (simp add: returns_same_def answer_def)

lemma returns_same_only: "returns_same next \<Longrightarrow> returns_same (only_method method next)"
  by (auto simp: returns_same_def only_method_def)

lemma reading_pages: "page \<noteq> ReloadPage \<Longrightarrow> returns_same (page_handler env page)"
  by (cases page)
     (auto simp: handleAdminRoutes_def handleAdminHealth_def handleAdminStats_def handleAdminMetrics_def
       handlePrometheusMetrics_def Let_def intro!: returns_same_only returns_same_answer split: option.split,
      simp add: returns_same_def)

text \<open>The reload page: what it leaves, and that it too writes through its writer.\<close>

lemma reload_page_outcome:
  assumes "handleAdminReload env r s w = (s', out)"
  shows "(s' = s \<and> out \<in> range Inr) \<or> (rq_Method r = ''POST'' \<and>
      (\<exists>res. Reload (ae_build env) (ae_files env) (st_server s) (st_store s) = (st_server s', st_store s', res) \<and>
        (out \<in> range Inl \<longleftrightarrow> (\<exists>p. res = Inl (ReloadPanic p)))))"
proof (cases "rq_Method r = ''POST''")
  case True
  obtain sv g res where r: "Reload (ae_build env) (ae_files env) (st_server s) (st_store s) = (sv, g, res)"
    by (metis surj_pair)
  with True assms show ?thesis
    by (auto simp: handleAdminReload_def only_method_def split: sum.splits reload_stop.splits)
qed (use assms in \<open>auto simp: handleAdminReload_def only_method_def\<close>)

lemma reload_page_writer:
  "handleAdminReload env r s w = (s', Inr w') \<Longrightarrow> is_recorder w' = is_recorder w"
  by (auto simp: handleAdminReload_def only_method_def split: if_splits prod.splits sum.splits reload_stop.splits)

text \<open>A request that may reload.\<close>

definition authorised :: "(string \<Rightarrow> string) \<Rightarrow> server \<Rightarrow> http_request \<Rightarrow> bool" where
  "authorised sha256 s r \<longleftrightarrow> sv_adminToken s \<noteq> '''' \<and>
     sha256 (header_get ''X-Admin-Token'' (rq_Header r)) = sha256 (sv_adminToken s)"

lemma adminAuth_cases:
  "adminAuthMiddleware sha256 next r s w =
     (if authorised sha256 (st_server s) r then next r s w
      else (s, Inr (if sv_adminToken (st_server s) = '''' then http_Error ''admin token is not configured'' 503 w
                    else http_Error ''unauthorized'' 401 w)))"
  by (simp add: adminAuthMiddleware_def authorised_def constantTimeTokenEqual_def ConstantTimeCompare_def Let_def)

lemma admin_mux_outcome:
  assumes "admin_wired rules (st_server s)" and "admin_mux_ServeHTTP env r s w = (s', out)"
  shows "(s' = s \<and> out \<in> range Inr) \<or>
    (rq_Method r = ''POST'' \<and> url_Path (rq_URL r) = ''/admin/reload'' \<and>
      authorised (ae_sha256 env) (st_server s) r \<and> handleAdminReload env r s w = (s', out))"
proof (cases "ae_own env (sv_adminMux (st_server s)) r")
  case (Some own)
  then show ?thesis using assms(2) by (auto simp: admin_mux_ServeHTTP_def)
next
  case own: None
  show ?thesis
  proof (cases "mux_match (sv_adminMux (st_server s)) (url_Path (rq_URL r))")
    case None
    then show ?thesis using assms(2) own by (auto simp: admin_mux_ServeHTTP_def)
  next
    case (Some t)
    then have h: "admin_handler env t r s w = (s', out)" using assms(2) own by (simp add: admin_mux_ServeHTTP_def)
    note targets = admin_targets [OF assms(1) Some]
    show ?thesis
    proof (cases t)
      case (Bare page)
      then have "page \<noteq> ReloadPage" using targets(2) by auto
      from returns_sameD [OF reading_pages [OF this]] h Bare show ?thesis by fastforce
    next
      case (Guarded page)
      show ?thesis
      proof (cases "page = ReloadPage \<and> authorised (ae_sha256 env) (st_server s) r")
        case True
        then show ?thesis
          using h Guarded targets(1) reload_page_outcome [of env r s w s' out] by (auto simp: adminAuth_cases)
      next
        case False
        show ?thesis
        proof (cases "authorised (ae_sha256 env) (st_server s) r")
          case True
          then have "page \<noteq> ReloadPage" "page_handler env page r s w = (s', out)"
            using False h Guarded by (simp_all add: adminAuth_cases)
          with returns_sameD [OF reading_pages] show ?thesis by fastforce
        qed (use h Guarded in \<open>auto simp: adminAuth_cases\<close>)
      qed
    qed
  qed
qed

lemma admin_mux_writer:
  assumes "admin_mux_ServeHTTP env r s w = (s', Inr w')" and "is_recorder w"
  shows "is_recorder w'"
proof -
  have page: "is_recorder w'" if "page_handler env page r s w = (s', Inr w')" for page
    using that assms(2) returns_sameD [OF reading_pages [of page env] that] reload_page_writer [of env r s w s' w']
    by (cases "page = ReloadPage") auto
  have "is_recorder w'" if "admin_handler env t r s w = (s', Inr w')" for t
    using that assms(2) page by (cases t) (auto simp: adminAuth_cases split: if_splits)
  then show ?thesis
    using assms by (auto simp: admin_mux_ServeHTTP_def split: option.splits)
qed

text \<open>The access log around it.\<close>

lemma admin_ServeHTTP_cases:
  assumes "admin_mux_ServeHTTP env r s (newStatusRecorder w) = (s1, out)"
  shows "\<exists>rec w'. admin_ServeHTTP env r s w =
    (case out of Inl p \<Rightarrow> (s1, Inl p)
     | Inr w1 \<Rightarrow> (put_site_registry (map_option (Record rec) (site_registry s1)) s1, Inr w'))"
proof (cases out)
  case (Inr w1)
  have "is_recorder w1"
    using admin_mux_writer [of env r s "newStatusRecorder w"] assms Inr by (simp add: newStatusRecorder_def)
  then obtain rc w' where "w1 = Recorder rc w'" by (cases w1) simp_all
  with assms Inr show ?thesis
    by (simp add: admin_ServeHTTP_def accessLogMiddleware_def returning_def Let_def, metis)
qed (use assms in \<open>simp add: admin_ServeHTTP_def\<close>)
lemma admin_error_page:
  assumes "admin_mux_ServeHTTP env r s (newStatusRecorder w) = (s, Inr (http_Error msg status (newStatusRecorder w)))"
    and "untouched w" and "final_status status"
  shows "\<exists>rec w'. admin_ServeHTTP env r s w =
      (put_site_registry (map_option (Record rec) (site_registry s)) s, Inr w') \<and> mr_StatusCode rec = status \<and>
      cn_status (the_conn w') = Some status \<and> cn_body (the_conn w') = msg @ [byte 10]"
proof -
  let ?r = "\<lparr>sr_statusCode = 0, sr_bytesWritten = 0, sr_wroteHeader = False, sr_routeID = ''''\<rparr>"
  have n: "newStatusRecorder w = Recorder ?r w" by (simp add: newStatusRecorder_def)
  have u: "untouched (Recorder ?r w)" and i: "\<not> informational status"
    using assms(2,3) by (simp_all add: final_status_def)
  obtain w' where w': "http_Error msg status (Recorder ?r w) = Recorder (?r\<lparr>sr_statusCode := status,
      sr_wroteHeader := True, sr_bytesWritten := i64 (int (length msg) + 1)\<rparr>) w'"
    using http_Error_recorder [OF u i] by blast
  have "the_conn w' = the_conn (http_Error msg status (Recorder ?r w))" by (simp add: w')
  then have c: "cn_status (the_conn w') = Some status" "cn_body (the_conn w') = msg @ [byte 10]"
    using http_Error_conn [OF u i, of msg] by simp_all
  have "status \<noteq> 0" using assms(3) by (auto simp: final_status_def)
  then show ?thesis
    using assms(1) w' c unfolding n
    by (simp add: admin_ServeHTTP_def accessLogMiddleware_def returning_def n sr_StatusCode_def Let_def)
       (metis metricsRecord.select_convs(2))
qed

text \<open>The verdict of the health page is read off the checkers.\<close>

lemma health_entries:
  "hd_Healthy (fold health_entry us item) = hd_Healthy item"
  "hd_Checked (fold health_entry us item) \<longleftrightarrow> hd_Checked item \<or>
      list_ex (\<lambda>u. case ups_ActiveHealth u of None \<Rightarrow> False | Some c \<Rightarrow> hcs_Checked c) us"
proof (induction us arbitrary: item)
  case (Cons u us)
  { case 1 show ?case using Cons.IH(1) by (simp add: health_entry_def split: option.split)
  next
    case 2 show ?case using Cons.IH(2) by (auto simp: health_entry_def split: option.split) }
qed simp_all

lemma health_verdicts:
  "list_ex (\<lambda>u. \<not> uhd_Checked u \<or> uhd_Healthy u) (hd_Upstreams (fold health_entry us item)) \<longleftrightarrow>
     list_ex (\<lambda>u. \<not> uhd_Checked u \<or> uhd_Healthy u) (hd_Upstreams item) \<or>
     list_ex (\<lambda>u. case ups_ActiveHealth u of None \<Rightarrow> False | Some c \<Rightarrow> \<not> hcs_Checked c \<or> hcs_Healthy c) us"
  "hd_Upstreams (fold health_entry us item) = [] \<longleftrightarrow>
     hd_Upstreams item = [] \<and> list_all (\<lambda>u. ups_ActiveHealth u = None) us"
proof (induction us arbitrary: item)
  case (Cons u us)
  { case 1 show ?case using Cons.IH(1) by (auto simp: health_entry_def split: option.split)
  next
    case 2 show ?case using Cons.IH(2) by (auto simp: health_entry_def split: option.split) }
qed simp_all

section \<open>Properties\<close>

text \<open>
  C18: The token guards the admin server: a request that does not carry the token gets no page (but
  \<open>/metrics\<close>, where the configuration leaves it open): it is answered 401, or 503 if no token is
  configured, or 404 where nothing is registered, and nothing has changed but the metrics. (The
  tokens are compared by their hashes; the claim is for two tokens that \<^verbatim>\<open>sha256\<close> tells apart.)
\<close>

theorem admin_needs_token:
  assumes "admin_wired rules (st_server s)" and "ae_own env (sv_adminMux (st_server s)) r = None"
    and "header_get ''X-Admin-Token'' (rq_Header r) \<noteq> sv_adminToken (st_server s) \<or> sv_adminToken (st_server s) = ''''"
    and "ae_sha256 env (header_get ''X-Admin-Token'' (rq_Header r)) = ae_sha256 env (sv_adminToken (st_server s)) \<Longrightarrow>
      header_get ''X-Admin-Token'' (rq_Header r) = sv_adminToken (st_server s)"
    and "url_Path (rq_URL r) \<noteq> ''/metrics'' \<or> sv_metricsRequireToken (st_server s)" and "untouched w"
  shows "\<exists>rec w'. admin_ServeHTTP env r s w =
      (put_site_registry (map_option (Record rec) (site_registry s)) s, Inr w')
    \<and> cn_status (the_conn w') = Some (mr_StatusCode rec)
    \<and> mr_StatusCode rec = (if mux_match (sv_adminMux (st_server s)) (url_Path (rq_URL r)) = None then 404
         else if sv_adminToken (st_server s) = '''' then 503 else 401)"
proof -
  have no: "\<not> authorised (ae_sha256 env) (st_server s) r" using assms(3,4) by (auto simp: authorised_def)
  have final: "final_status 404" "final_status 503" "final_status 401"
    by (simp_all add: final_status_def informational_def)
  show ?thesis
  proof (cases "mux_match (sv_adminMux (st_server s)) (url_Path (rq_URL r))")
    case None
    then have "admin_mux_ServeHTTP env r s (newStatusRecorder w) =
        (s, Inr (http_Error ''404 page not found'' 404 (newStatusRecorder w)))"
      using assms(2) by (simp add: admin_mux_ServeHTTP_def)
    from admin_error_page [OF this assms(6) final(1)] None show ?thesis by auto
  next
    case (Some t)
    then obtain page where "t = Guarded page" using admin_targets(2) [OF assms(1) Some] assms(5) by (cases t) auto
    then have "admin_mux_ServeHTTP env r s (newStatusRecorder w) = (s, Inr
        (if sv_adminToken (st_server s) = '''' then http_Error ''admin token is not configured'' 503 (newStatusRecorder w)
         else http_Error ''unauthorized'' 401 (newStatusRecorder w)))"
      using assms(2) Some no by (simp add: admin_mux_ServeHTTP_def adminAuth_cases)
    then show ?thesis
      using admin_error_page [OF _ assms(6) final(2), of env r s "''admin token is not configured''"]
        admin_error_page [OF _ assms(6) final(3), of env r s "''unauthorized''"] Some
      by (cases "sv_adminToken (st_server s) = ''''") auto
  qed
qed

definition demo_site :: site where
  "demo_site = \<lparr>st_server = demo_server\<lparr>sv_adminMux := map (\<lambda>(p, page). (p, Guarded page)) admin_pages @
       [(''/metrics'', Guarded PrometheusPage)]\<rparr>, st_store = demo_store\<rparr>"

definition demo_admin :: admin_env where
  "demo_admin = \<lparr>ae_build = demo_build, ae_files = demo_files, ae_json = (\<lambda>_. ''{}''), ae_sha256 = (\<lambda>t. t),
     ae_error = (\<lambda>_. ''failed''), ae_stamp = ''now'', ae_pprof = (\<lambda>_ _. []), ae_own = (\<lambda>_ _. None), ae_cost = 2\<rparr>"

definition admin_request :: "string \<Rightarrow> string \<Rightarrow> string \<Rightarrow> http_request" where
  "admin_request method path token = demo_request\<lparr>rq_Method := method, rq_URL := demo_url\<lparr>url_Path := path\<rparr>,
     rq_Header := header_set ''X-Admin-Token'' token (\<lambda>_. [])\<rparr>"

lemma demo_registers:
  assumes "sv_adminEnabled s" and "\<not> sv_pprofEnabled s" and "sv_metricsRequireToken s"
  shows "registerAdminRoutes demo_rules s [] =
    Inr (map (\<lambda>(p, page). (p, Guarded page)) admin_pages @ [(''/metrics'', Guarded PrometheusPage)])"
  using assms by (simp add: registerAdminRoutes_def mux_Handle_def demo_rules_def admin_pages_def has_prefix_Cons1)

lemma demo_site_wired: "admin_wired demo_rules (st_server demo_site)"
  unfolding admin_wired_def by (subst demo_registers) (simp_all add: demo_site_def demo_server_def)

lemma demo_matches:
  "mux_match (sv_adminMux (st_server demo_site)) ''/admin/stats'' = Some (Guarded StatsPage)"
  "mux_match (sv_adminMux (st_server demo_site)) ''/admin/reload'' = Some (Guarded ReloadPage)"
  by (simp_all add: demo_site_def admin_pages_def mux_match_def pattern_matches_def has_suffix_def has_prefix_Cons1)

theorem admin_needs_token_witness:
  "\<exists>s' w'. admin_ServeHTTP demo_admin (admin_request ''GET'' ''/admin/stats'' ''guess'') demo_site (Conn new_conn) = (s', Inr w')
    \<and> cn_status (the_conn w') = Some 401"
proof -
  let ?r = "admin_request ''GET'' ''/admin/stats'' ''guess''"
  have t: "header_get ''X-Admin-Token'' (rq_Header ?r) = ''guess''" and p: "url_Path (rq_URL ?r) = ''/admin/stats''"
    by (simp_all add: admin_request_def)
  have s: "sv_adminToken (st_server demo_site) = ''secret''" by (simp add: demo_site_def demo_server_def)
  have o: "ae_own demo_admin (sv_adminMux (st_server demo_site)) ?r = None" by (simp add: demo_admin_def)
  have sha: "ae_sha256 demo_admin x = x" for x by (simp add: demo_admin_def)
  note refused = admin_needs_token [OF demo_site_wired o, of "Conn new_conn", unfolded t p s sha demo_matches(1)]
  have "\<exists>rec w'. admin_ServeHTTP demo_admin ?r demo_site (Conn new_conn) =
      (put_site_registry (map_option (Record rec) (site_registry demo_site)) demo_site, Inr w')
    \<and> cn_status (the_conn w') = Some (mr_StatusCode rec)
    \<and> mr_StatusCode rec = (if Some (Guarded StatsPage) = None then 404 else if ''secret'' = '''' then 503 else 401)"
    by (rule refused) simp_all
  then show ?thesis by auto
qed

text \<open>
  C17: The admin server changes nothing but the metrics, unless a reload is asked for: a request to
  \<open>/admin/reload\<close> with \<^verbatim>\<open>POST\<close> and the token does exactly what \<^verbatim>\<open>Reload\<close> does; every other request, to
  whatever page and whatever its method and token, leaves the server and the gateway as they are and
  adds one record to the metrics. Only a reload can end in a panic, and then nothing is recorded.
\<close>

theorem admin_changes_only_by_reload:
  assumes "admin_wired rules (st_server s)" and "admin_ServeHTTP env r s w = (s', out)"
  shows "\<exists>rec. (out \<in> range Inr \<and> s' = put_site_registry (map_option (Record rec) (site_registry s)) s)
    \<or> (rq_Method r = ''POST'' \<and> url_Path (rq_URL r) = ''/admin/reload''
        \<and> sv_adminToken (st_server s) \<noteq> ''''
        \<and> constantTimeTokenEqual (ae_sha256 env) (header_get ''X-Admin-Token'' (rq_Header r)) (sv_adminToken (st_server s))
        \<and> (\<exists>g res. Reload (ae_build env) (ae_files env) (st_server s) (st_store s) = (st_server s', g, res)
            \<and> st_store s' = (if out \<in> range Inl then g else put_registry (map_option (Record rec) (gw_registry g)) g)
            \<and> (out \<in> range Inl \<longleftrightarrow> (\<exists>p. res = Inl (ReloadPanic p)))))"
proof -
  obtain s1 o1 where m: "admin_mux_ServeHTTP env r s (newStatusRecorder w) = (s1, o1)" by (metis surj_pair)
  obtain rec w' where a: "admin_ServeHTTP env r s w = (case o1 of Inl p \<Rightarrow> (s1, Inl p)
      | Inr w1 \<Rightarrow> (put_site_registry (map_option (Record rec) (site_registry s1)) s1, Inr w'))"
    using admin_ServeHTTP_cases [OF m] by blast
  from admin_mux_outcome [OF assms(1) m] show ?thesis
  proof
    assume "s1 = s \<and> o1 \<in> range Inr"
    with a assms(2) show ?thesis by (intro exI [of _ rec] disjI1) auto
  next
    assume h: "rq_Method r = ''POST'' \<and> url_Path (rq_URL r) = ''/admin/reload'' \<and>
      authorised (ae_sha256 env) (st_server s) r \<and> handleAdminReload env r s (newStatusRecorder w) = (s1, o1)"
    then have "handleAdminReload env r s (newStatusRecorder w) = (s1, o1)" by blast
    from reload_page_outcome [OF this] show ?thesis
    proof
      assume "s1 = s \<and> o1 \<in> range Inr"
      with a assms(2) show ?thesis by (intro exI [of _ rec] disjI1) auto
    next
      assume "rq_Method r = ''POST'' \<and>
        (\<exists>res. Reload (ae_build env) (ae_files env) (st_server s) (st_store s) = (st_server s1, st_store s1, res) \<and>
          (o1 \<in> range Inl \<longleftrightarrow> (\<exists>p. res = Inl (ReloadPanic p))))"
      then obtain res where res: "Reload (ae_build env) (ae_files env) (st_server s) (st_store s) = (st_server s1, st_store s1, res)"
        "o1 \<in> range Inl \<longleftrightarrow> (\<exists>p. res = Inl (ReloadPanic p))" by (elim conjE exE) (rule that)
      have out: "out \<in> range Inl \<longleftrightarrow> o1 \<in> range Inl" and st: "st_server s' = st_server s1"
        "st_store s' = (if o1 \<in> range Inl then st_store s1
           else put_registry (map_option (Record rec) (gw_registry (st_store s1))) (st_store s1))"
        using a assms(2) by (auto simp: put_site_registry_def site_registry_def split: sum.splits)
      with res have "Reload (ae_build env) (ae_files env) (st_server s) (st_store s) = (st_server s', st_store s1, res)
          \<and> st_store s' = (if out \<in> range Inl then st_store s1
            else put_registry (map_option (Record rec) (gw_registry (st_store s1))) (st_store s1))
          \<and> (out \<in> range Inl \<longleftrightarrow> (\<exists>p. res = Inl (ReloadPanic p)))"
        unfolding out st(1) st(2) by (intro conjI refl)
      moreover have "sv_adminToken (st_server s) \<noteq> ''''
          \<and> constantTimeTokenEqual (ae_sha256 env) (header_get ''X-Admin-Token'' (rq_Header r)) (sv_adminToken (st_server s))"
        using h by (simp add: authorised_def constantTimeTokenEqual_def ConstantTimeCompare_def)
      ultimately show ?thesis
        using h by - (intro exI [of _ rec] disjI2 conjI exI [of _ "st_store s1"] exI [of _ res]; elim conjE; assumption)
    qed
  qed
qed

theorem admin_changes_only_by_reload_witness:
  "st_server (fst (admin_ServeHTTP demo_admin (admin_request ''DELETE'' ''/admin/reload'' ''secret'') demo_site (Conn new_conn))) =
     st_server demo_site"
proof -
  let ?r = "admin_request ''DELETE'' ''/admin/reload'' ''secret''"
  obtain s' out where a: "admin_ServeHTTP demo_admin ?r demo_site (Conn new_conn) = (s', out)" by (metis surj_pair)
  have "rq_Method ?r \<noteq> ''POST''" by (simp add: admin_request_def)
  with admin_changes_only_by_reload [OF demo_site_wired a] a show ?thesis by (auto simp: put_site_registry_def)
qed

text \<open>
  C19: The health page tells what the proxy does: a route is reported healthy if and only if it has no
  active checks or some upstream with a check lets requests pass (nothing is known against it yet, or
  its last check succeeded); it is reported checked if some upstream has been checked; and while all
  upstreams have checks and the route is reported unhealthy, the proxy chooses none of them.
\<close>

theorem health_page_is_what_proxy_does:
  assumes "h_inv h" and "no_wrap h"
  shows "let item = health_item routeID target (UpstreamSnapshots url_string now h) in
    (hd_Healthy item \<longleftrightarrow> (\<forall>u \<in> set (h_upstreams h). up_activeHealth u = None) \<or>
       (\<exists>u \<in> set (h_upstreams h). up_activeHealth u \<noteq> None \<and> hc_Available (up_activeHealth u)))
    \<and> (hd_Checked item \<longleftrightarrow> (\<exists>u \<in> set (h_upstreams h). \<exists>c. up_activeHealth u = Some c \<and> hc_checked c))
    \<and> ((\<forall>u \<in> set (h_upstreams h). up_activeHealth u \<noteq> None) \<and> \<not> hd_Healthy item \<longrightarrow>
        fst (selectUpstream clock h) = None)"
proof -
  let ?us = "UpstreamSnapshots url_string now h"
  let ?ups = "h_upstreams h"
  let ?start = "\<lparr>hd_RouteID = routeID, hd_Target = target, hd_Checked = False, hd_Healthy = True, hd_Upstreams = []\<rparr>"
  let ?item = "health_item routeID target ?us"
  have none: "hd_Upstreams (fold health_entry ?us ?start) = [] \<longleftrightarrow> (\<forall>u \<in> set ?ups. up_activeHealth u = None)"
    by (auto simp: health_verdicts(2) UpstreamSnapshots_def list_all_iff)
  have avail: "list_ex (\<lambda>u. case ups_ActiveHealth u of None \<Rightarrow> False | Some c \<Rightarrow> \<not> hcs_Checked c \<or> hcs_Healthy c) ?us \<longleftrightarrow>
      (\<exists>u \<in> set ?ups. up_activeHealth u \<noteq> None \<and> hc_Available (up_activeHealth u))"
    by (auto simp: UpstreamSnapshots_def list_ex_iff split: option.splits)
  have checked: "hd_Checked ?item \<longleftrightarrow> (\<exists>u \<in> set ?ups. \<exists>c. up_activeHealth u = Some c \<and> hc_checked c)"
  proof -
    have "hd_Checked ?item = hd_Checked (fold health_entry ?us ?start)" by (simp add: health_item_def Let_def)
    then show ?thesis by (auto simp: health_entries(2) UpstreamSnapshots_def list_ex_iff split: option.splits)
  qed
  have healthy: "hd_Healthy ?item \<longleftrightarrow> (\<forall>u \<in> set ?ups. up_activeHealth u = None) \<or>
      (\<exists>u \<in> set ?ups. up_activeHealth u \<noteq> None \<and> hc_Available (up_activeHealth u))"
    using none avail health_verdicts(1) [of ?us ?start]
    by (auto simp: health_item_def Let_def health_entries(1))
  have "fst (selectUpstream clock h) = None"
    if "\<forall>u \<in> set ?ups. up_activeHealth u \<noteq> None" and "\<not> hd_Healthy ?item"
  proof -
    have "list_all (\<lambda>u. \<forall>i. \<not> fst (tryAcquireUpstream (clock i) u)) ?ups"
      using that healthy by (auto simp: list_all_iff tryAcquire_cases)
    from select_refused [OF assms this] show ?thesis by simp
  qed
  with healthy checked show ?thesis unfolding Let_def by blast
qed

definition sick_handler :: proxyHandler where
  "sick_handler = (demo_handler 0)\<lparr>h_upstreams := map (\<lambda>u. u\<lparr>up_activeHealth :=
     Some (hc_checkOnce 7 (Answered 503) demo_checker)\<rparr>) (h_upstreams (demo_handler 0))\<rparr>"

theorem health_page_is_what_proxy_does_witness:
  "\<not> hd_Healthy (health_item ''demo'' '''' (UpstreamSnapshots url_Host 5 sick_handler)) \<and>
   fst (selectUpstream (\<lambda>_. 5) sick_handler) = None"
proof -
  have "h_inv sick_handler" using demo_handler_inv [of 0] by (simp add: h_inv_def sick_handler_def list_all_iff up_inv_def)
  moreover have "no_wrap sick_handler" by (simp add: no_wrap_def sick_handler_def demo_handler_def)
  ultimately show ?thesis
    using health_page_is_what_proxy_does [of sick_handler "''demo''" "''''" url_Host 5 "\<lambda>_. 5"]
    by (auto simp: Let_def sick_handler_def demo_handler_def hc_checkOnce_def hc_update_def)
qed
end
