(* ===== verification/Gateway_System.thy ===== *)
theory Gateway_System
  imports Admin
begin

text \<open>
  The process as a whole: the server with the store it shares with the handlers, and everything that
  happens to them, in any order: requests to the gateway and to the admin server, reloads, the ticks
  and the refilling of the rate limiters, the checks of the upstreams, and closing
  (\<^verbatim>\<open>CloseResource\<close> of \<^verbatim>\<open>internal/server/lifecycle.go\<close>). Requests run one after the other here; how
  they overlap inside one limiter, breaker or proxy is the subject of these components' theories.
\<close>

section \<open>What a step keeps\<close>

text \<open>Objects that have been used: their place, their configuration, and whether they run, are the same.\<close>

definition same_up :: "upstream \<Rightarrow> upstream \<Rightarrow> bool" where
  "same_up u u' \<longleftrightarrow> map_option hc_done (up_activeHealth u') = map_option hc_done (up_activeHealth u) \<and>
     (up_inv u \<longrightarrow> up_inv u')"

definition same_proxy :: "proxyHandler \<Rightarrow> proxyHandler \<Rightarrow> bool" where
  "same_proxy h h' \<longleftrightarrow> h_routeID h' = h_routeID h \<and> h_stripPrefix h' = h_stripPrefix h \<and>
     list_all2 same_up (h_upstreams h) (h_upstreams h')"

definition same_bucket :: "tokenBucket \<Rightarrow> tokenBucket \<Rightarrow> bool" where
  "same_bucket b b' \<longleftrightarrow> tb_rate b' = tb_rate b \<and> tb_burst b' = tb_burst b \<and> tb_done b' = tb_done b \<and>
     (tb_inv b \<longrightarrow> tb_inv b')"

lemma same_refl [simp]: "same_up u u" "same_proxy h h" "same_bucket b b"
  by (simp_all add: same_up_def same_proxy_def same_bucket_def list_all2_refl)

lemma same_up_trans: "same_up u u' \<Longrightarrow> same_up u' u'' \<Longrightarrow> same_up u u''"
  by (auto simp: same_up_def)

lemma same_proxy_trans: "same_proxy h h' \<Longrightarrow> same_proxy h' h'' \<Longrightarrow> same_proxy h h''"
  unfolding same_proxy_def using list_all2_trans [of same_up same_up same_up] same_up_trans by metis

lemma same_bucket_trans: "same_bucket b b' \<Longrightarrow> same_bucket b' b'' \<Longrightarrow> same_bucket b b''"
  by (auto simp: same_bucket_def)

lemma list_all2_update:
  assumes "\<And>x. R x x" and "i < length xs \<Longrightarrow> R (xs ! i) y"
  shows "list_all2 R xs (xs[i := y])"
proof (rule list_all2_all_nthI)
  fix j assume j: "j < length xs"
  then show "R (xs ! j) (xs[i := y] ! j)" using assms by (cases "i = j") simp_all
qed simp

definition steady :: "gateway \<Rightarrow> gateway \<Rightarrow> bool" where
  "steady s s' \<longleftrightarrow> undisturbed s s' \<and> list_all2 same_bucket (gw_buckets s) (gw_buckets s') \<and>
     list_all2 same_proxy (gw_proxies s) (gw_proxies s')"

lemma steady_laws:
  "steady s s" "steady s s' \<Longrightarrow> steady s' s'' \<Longrightarrow> steady s s''"
  using undisturbed_laws(1,2)
    list_all2_trans [of same_bucket same_bucket same_bucket, OF same_bucket_trans]
    list_all2_trans [of same_proxy same_proxy same_proxy, OF same_proxy_trans]
  by (auto simp: steady_def list_all2_refl)

lemma steady_bucket:
  assumes "\<And>i b. a = Some i \<Longrightarrow> v = Some b \<Longrightarrow> i < length (gw_buckets s) \<Longrightarrow> same_bucket (gw_buckets s ! i) b"
  shows "steady s (put_bucket a v s)"
proof -
  have "list_all2 same_bucket (gw_buckets s) (gw_buckets (put_bucket a v s))"
    using assms by (auto simp: put_bucket_def list_all2_refl intro: list_all2_update split: option.split)
  then show ?thesis
    using undisturbed_laws(3) by (auto simp: steady_def put_bucket_def list_all2_refl split: option.splits)
qed

lemma steady_proxy: "same_proxy (gw_proxies s ! i) h \<Longrightarrow> steady s (put_proxy i h s)"
  using undisturbed_laws(4) [of s i h] by (auto simp: steady_def put_proxy_def list_all2_refl intro: list_all2_update)

lemma same_Allow: "snd (tb_Allow (Some b)) = Some b' \<Longrightarrow> same_bucket b b'"
  using tb_step_inv [OF tb_step.allow [of b "fst (tb_Allow (Some b))" b']]
  by (auto simp: same_bucket_def split_beta)

section \<open>A request keeps the proxies\<close>

lemma same_scan: "list_all2 same_up ups (snd (scan now start ups is))"
proof (induction "is" arbitrary: ups)
  case Nil
  then show ?case by (simp add: list_all2_refl)
next
  case (Cons i js)
  let ?k = "scan_index start (length ups) i"
  let ?u = "snd (tryAcquireUpstream (now i) (ups ! ?k))"
  have "same_up (ups ! ?k) ?u"
    using up.inv_ask [of "ups ! ?k" "now i"]
    by (auto simp: same_up_def tryAcquire_cases split: option.splits)
  then have one: "list_all2 same_up ups (ups[?k := ?u])" by (intro list_all2_update) simp_all
  have "list_all2 same_up ups (snd (scan now start (ups[?k := ?u]) js))"
    by (rule list_all2_trans [OF _ one Cons.IH]) (rule same_up_trans)
  with one show ?case by (simp add: Let_def split_beta)
qed

lemma same_select: "same_proxy h (snd (selectUpstream now h))"
  by (simp add: same_proxy_def selectUpstream_def Let_def split_beta same_scan list_all2_refl)

lemma same_upd: "(\<And>u. same_up u (f u)) \<Longrightarrow> same_proxy h (upd_upstream k f h)"
  by (auto simp: same_proxy_def upd_upstream_def intro: list_all2_update)

lemma same_outcomes: "same_up u (recordSuccess now u)" "same_up u (recordFailure now reason u)"
  using up.inv_succeed up.inv_failed by (auto simp: same_up_def recordSuccess_def recordFailure_def)

lemma same_reply: "same_proxy h (fst (serve_reply now out informs reply h w))"
  using same_outcomes
  by (auto simp: serve_reply_def modifyResponse_def handleProxyError_def Let_def split_beta
      intro!: same_upd split: reply.split option.split)

lemma same_proxy_ServeHTTP: "same_proxy h (fst (proxy_ServeHTTP prepare backend now nanos later r h w))"
proof -
  obtain h1 sel where s: "serve_select now r h w = (h1, sel)" by (metis surj_pair)
  then have "h1 = snd (selectUpstream now h)"
    by (auto simp: serve_select_def Let_def split_beta split: option.splits)
  then have one: "same_proxy h h1" using same_select by simp
  show ?thesis
  proof (cases sel)
    case (Inr q)
    obtain h2 out where rw: "rewriteRequest now nanos h1 q (prepare q) = (h2, out)" by (metis surj_pair)
    have "same_proxy h1 h2"
      using rw same_select by (auto simp: rewriteRequest_def Let_def split_beta split: option.splits)
    with one have two: "same_proxy h h2" by (rule same_proxy_trans)
    have "proxy_ServeHTTP prepare backend now nanos later r h w =
        serve_reply later out (fst (backend out)) (snd (backend out)) h2 w"
      by (simp add: proxy_ServeHTTP_def s Inr rw split_beta)
    then show ?thesis using same_proxy_trans [OF two same_reply] by simp
  qed (use one s in \<open>simp add: proxy_ServeHTTP_def\<close>)
qed

text \<open>The handlers of the gateway against this contract.\<close>

lemma steady_semaphores:
  "undisturbed s s' \<Longrightarrow> gw_buckets s' = gw_buckets s \<Longrightarrow> gw_proxies s' = gw_proxies s \<Longrightarrow> steady s s'"
  by (simp add: steady_def list_all2_refl)

lemma steady_bracket:
  assumes "get_at gw_semaphores a s \<noteq> None" and "tryAcquire (get_at gw_semaphores a s) = (True, l)"
    and "steady (put_semaphore a l s) s'"
  shows "steady s (put_semaphore a (release (get_at gw_semaphores a s')) s')"
  using put_bracket_undisturbed [OF assms(1,2), of s'] assms(3)
  by (auto simp: steady_def put_semaphore_def split: option.splits)

interpretation keeps: gateway_main steady is_recorder "\<lambda>_. True"
proof unfold_locales
  show "\<exists>w'. setRouteIDToResponseWriter routeID (Some w) = Some (Some w') \<and> is_recorder w'" if "is_recorder w" for w routeID
    using that by (cases w) simp_all
  show "steady s (put_bucket a (snd (tb_Allow (get_at gw_buckets a s))) s)" for a s
    by (intro steady_bucket same_Allow) (simp add: get_at_def del: tb_Allow.simps)
  show "steady s (put_semaphore a l s)" if "tryAcquire (get_at gw_semaphores a s) = (False, l)" for a s l
    using put_refused_undisturbed [OF that]
    by (intro steady_semaphores) (simp_all add: put_semaphore_def split: option.split)
  show "steady s (put_proxy ptr (fst (proxy_ServeHTTP prepare backend now nanos later r (gw_proxies s ! ptr) w)) s)"
    for prepare backend now nanos later r s ptr w
    by (intro steady_proxy same_proxy_ServeHTTP)
qed (auto intro: steady_laws steady_bracket)

text \<open>With the record of the access log.\<close>

definition kept :: "gateway \<Rightarrow> gateway \<Rightarrow> bool" where
  "kept g g' \<longleftrightarrow> gw_semaphores g' = gw_semaphores g \<and> list_all2 same_bucket (gw_buckets g) (gw_buckets g') \<and>
     list_all2 same_proxy (gw_proxies g) (gw_proxies g')"

lemma kept_refl [simp]: "kept g g"
  by (simp add: kept_def list_all2_refl)

lemma kept_registry [simp]: "kept g (put_registry reg g') \<longleftrightarrow> kept g g'"
  by (simp add: kept_def put_registry_def)

lemma steady_kept: "steady g g' \<Longrightarrow> kept g g'"
  by (simp add: steady_def undisturbed_def kept_def)

lemma main_kept:
  assumes "main_ServeHTTP env mh r g w = Some (g', w')"
  shows "kept g g'"
proof -
  have "is_recorder (newStatusRecorder w)" by (simp add: newStatusRecorder_def)
  from runsD [OF keeps.runs_inner [OF env_allowed_recorder] this]
  obtain g1 w1 where i: "inner_handler env mh r g (newStatusRecorder w) = Some (g1, w1)" "steady g g1" "is_recorder w1"
    by blast
  then obtain rc w2 where "w1 = Recorder rc w2" by (cases w1) simp_all
  with i(1) have "main_ServeHTTP env mh r g w =
      Some (put_registry (map_option (Record (record_of env r rc)) (gw_registry g1)) g1, w2)"
    by (simp add: main_of_inner)
  with assms steady_kept [OF i(2)] show ?thesis by auto
qed

lemma served_kept: "rh_ServeHTTP env h r g w = Some (g', w') \<Longrightarrow> kept g g'"
  by (auto simp: rh_ServeHTTP_def not_found_def split: option.splits stored_handler.splits dest: main_kept)

section \<open>The process\<close>

text \<open>A check of an upstream, with the answer it got.\<close>

definition probe_upstream :: "go_time \<Rightarrow> probe \<Rightarrow> nat \<Rightarrow> nat \<Rightarrow> gateway \<Rightarrow> gateway" where
  "probe_upstream now pr i k g = put_proxy i (upd_upstream k
     (\<lambda>u. u\<lparr>up_activeHealth := map_option (hc_checkOnce now pr) (up_activeHealth u)\<rparr>) (gw_proxies g ! i)) g"

inductive sys_step :: "site \<Rightarrow> site \<Rightarrow> bool" where
  served: "rh_ServeHTTP env (sv_mainHandler (st_server t)) r (st_store t) w = Some (g, w') \<Longrightarrow>
    sys_step t (t\<lparr>st_store := g\<rparr>)"
| administered: "sv_adminHTTPServer (st_server t) \<noteq> None \<Longrightarrow> admin_ServeHTTP env r t w = (t', Inr w') \<Longrightarrow> sys_step t t'"
| reloaded: "Reload benv files (st_server t) (st_store t) = (s, g, res) \<Longrightarrow> (\<And>p. res \<noteq> Inl (ReloadPanic p)) \<Longrightarrow>
    sys_step t \<lparr>st_server = s, st_store = g\<rparr>"
| closed: "CloseResource (st_server t) (st_store t) = (s, g) \<Longrightarrow> sys_step t \<lparr>st_server = s, st_store = g\<rparr>"
| ticked: "i < length (gw_buckets (st_store t)) \<Longrightarrow> tb_step (gw_buckets (st_store t) ! i) lab b \<Longrightarrow> lab \<noteq> CloseB \<Longrightarrow>
    sys_step t (t\<lparr>st_store := put_bucket (Some i) (Some b) (st_store t)\<rparr>)"
| probed: "sys_step t (t\<lparr>st_store := probe_upstream now pr i k (st_store t)\<rparr>)"

text \<open>\<^verbatim>\<open>main\<close>: a configuration is loaded, and a server is made from it.\<close>

inductive sys_reach :: "site \<Rightarrow> bool" where
  start: "Load (le_read (files :: load_env)) (le_unmarshal files) (le_lookup files) (be_parse env) path = Inr cfg \<Longrightarrow>
    NewWithConfigPath env cfg path no_objects = (g, Inr s) \<Longrightarrow> sys_reach \<lparr>st_server = s, st_store = g\<rparr>"
| step: "sys_reach t \<Longrightarrow> sys_step t t' \<Longrightarrow> sys_reach t'"

section \<open>What always holds\<close>

text \<open>The runtime of a configuration in a store, used or not.\<close>

definition limiter_runs :: "gateway \<Rightarrow> go_int \<Rightarrow> go_int \<Rightarrow> nat option \<Rightarrow> bool" where
  "limiter_runs g rate burst a \<longleftrightarrow> (case a of None \<Rightarrow> rate \<le> 0 \<or> burst \<le> 0
     | Some i \<Rightarrow> i < length (gw_buckets g) \<and> tb_rate (gw_buckets g ! i) = rate \<and> tb_burst (gw_buckets g ! i) = burst)"

definition route_runs :: "gateway \<Rightarrow> routeConfig \<Rightarrow> routeRuntime \<Rightarrow> bool" where
  "route_runs g route rr \<longleftrightarrow> rr_id rr = rc_ID route \<and> rr_prefix rr = rc_Prefix route \<and>
     rr_proxyHandler rr < length (gw_proxies g) \<and> h_routeID (gw_proxies g ! rr_proxyHandler rr) = rc_ID route \<and>
     h_stripPrefix (gw_proxies g ! rr_proxyHandler rr) = rc_StripPrefix route \<and>
     h_upstreams (gw_proxies g ! rr_proxyHandler rr) \<noteq> [] \<and>
     limiter_runs g (rc_RateLimitRPS route) (rc_RateLimitBurst route) (rr_rateLimiter rr) \<and>
     semaphore_wired g (rc_MaxConcurrency route) (rr_concurrencyLimiter rr)"

definition runs_config :: "gateway \<Rightarrow> config \<Rightarrow> server \<Rightarrow> bool" where
  "runs_config g cfg s \<longleftrightarrow> sv_currentConfig s = Some cfg \<and> serving cfg s \<and>
     list_all2 (route_runs g) (cfg_Routes cfg) (sv_routes s) \<and> map rr_proxyHandler (sv_routes s) = sv_proxyHandlers s \<and>
     List.map_filter id (map rr_rateLimiter (sv_routes s) @ [sv_globalRateLimiter s]) =
       List.map_filter id (sv_rateLimiters s) \<and>
     limiter_runs g (sc_RateLimitRPS (cfg_Server cfg)) (sc_RateLimitBurst (cfg_Server cfg)) (sv_globalRateLimiter s) \<and>
     semaphore_wired g (sc_MaxConcurrency (cfg_Server cfg)) (sv_globalConcurrencyLimiter s) \<and> sv_healthCheckers s = []"

text \<open>Which proxies' checkers and which buckets have not been closed; all of them are in order.\<close>

definition runs_exactly :: "gateway \<Rightarrow> (nat \<Rightarrow> bool) \<Rightarrow> (nat \<Rightarrow> bool) \<Rightarrow> bool" where
  "runs_exactly g P B \<longleftrightarrow>
     (\<forall>i < length (gw_proxies g). h_inv (gw_proxies g ! i) \<and>
        list_all (\<lambda>u. pred_option (\<lambda>c. hc_done c \<longleftrightarrow> \<not> P i) (up_activeHealth u)) (h_upstreams (gw_proxies g ! i))) \<and>
     (\<forall>i < length (gw_buckets g). tb_inv (gw_buckets g ! i) \<and> (tb_done (gw_buckets g ! i) \<longleftrightarrow> \<not> B i))"

definition sys_inv :: "site \<Rightarrow> bool" where
  "sys_inv t \<longleftrightarrow> (let s = st_server t; g = st_store t in
     \<exists>cfg live. runs_config g cfg s \<and> settings_of cfg = settings_in s \<and> (\<exists>parse. valid_config parse cfg) \<and>
       points_into s g \<and> (sv_adminHTTPServer s \<noteq> None \<longrightarrow> (\<exists>rules. admin_wired rules s)) \<and>
       runs_exactly g (\<lambda>i. live \<and> i \<in> set (sv_proxyHandlers s)) (\<lambda>i. live \<and> Some i \<in> set (sv_rateLimiters s)))"

text \<open>What does not replace objects leaves the runtime running: using, closing and adding.\<close>

definition stays :: "gateway \<Rightarrow> gateway \<Rightarrow> bool" where
  "stays g g' \<longleftrightarrow>
     (\<forall>i < length (gw_semaphores g). i < length (gw_semaphores g') \<and> gw_semaphores g' ! i = gw_semaphores g ! i) \<and>
     (\<forall>i < length (gw_buckets g). i < length (gw_buckets g') \<and>
        tb_rate (gw_buckets g' ! i) = tb_rate (gw_buckets g ! i) \<and> tb_burst (gw_buckets g' ! i) = tb_burst (gw_buckets g ! i)) \<and>
     (\<forall>i < length (gw_proxies g). i < length (gw_proxies g') \<and>
        h_routeID (gw_proxies g' ! i) = h_routeID (gw_proxies g ! i) \<and>
        h_stripPrefix (gw_proxies g' ! i) = h_stripPrefix (gw_proxies g ! i) \<and>
        (h_upstreams (gw_proxies g' ! i) = [] \<longleftrightarrow> h_upstreams (gw_proxies g ! i) = []))"

lemma kept_stays: "kept g g' \<Longrightarrow> stays g g'"
  unfolding kept_def stays_def list_all2_conv_all_nth same_bucket_def same_proxy_def
  by (intro conjI allI impI) (simp_all, metis length_0_conv)

lemma closed_stays: "closed_in ps as g g' \<Longrightarrow> stays g g'"
  unfolding stays_def closed_in_def
  by (intro conjI allI impI) (simp_all add: CloseIdleConnections_def shut_bucket(2-) del: tb_Close.simps)

lemma extends_stays: "extends g g' \<Longrightarrow> stays g g'"
  by (auto simp: extends_def stays_def nth_append)

lemma stays_limiter: "stays g g' \<Longrightarrow> limiter_runs g rate burst a \<Longrightarrow> limiter_runs g' rate burst a"
  by (auto simp: stays_def limiter_runs_def split: option.splits)

lemma stays_semaphore: "stays g g' \<Longrightarrow> semaphore_wired g n a \<Longrightarrow> semaphore_wired g' n a"
  by (auto simp: stays_def semaphore_wired_def split: option.splits)

lemma stays_route: "stays g g' \<Longrightarrow> route_runs g route rr \<Longrightarrow> route_runs g' route rr"
  using stays_limiter stays_semaphore by (auto simp: route_runs_def) (auto simp: stays_def)

lemma stays_config:
  assumes "stays g g'"
  shows "runs_config g cfg s \<Longrightarrow> runs_config g' cfg s" and "points_into s g \<Longrightarrow> points_into s g'"
proof -
  show "runs_config g cfg s \<Longrightarrow> runs_config g' cfg s"
    using stays_limiter [OF assms] stays_semaphore [OF assms] stays_route [OF assms]
    by (auto simp: runs_config_def elim: list_all2_mono)
  show "points_into s g \<Longrightarrow> points_into s g'"
    using assms by (auto simp: stays_def points_into_def list_all_iff option.pred_set)
qed

text \<open>Using objects changes nothing about which of them run; closing stops what is closed and only that.\<close>

lemma same_up_runs:
  "same_up u u' \<Longrightarrow> pred_option (\<lambda>c. hc_done c \<longleftrightarrow> b) (up_activeHealth u) \<Longrightarrow>
    pred_option (\<lambda>c. hc_done c \<longleftrightarrow> b) (up_activeHealth u')"
  by (cases "up_activeHealth u"; cases "up_activeHealth u'") (auto simp: same_up_def)

lemma same_proxy_runs:
  assumes "same_proxy h h'"
  shows "h_inv h \<Longrightarrow> h_inv h'"
    and "list_all (\<lambda>u. pred_option (\<lambda>c. hc_done c \<longleftrightarrow> b) (up_activeHealth u)) (h_upstreams h) \<Longrightarrow>
      list_all (\<lambda>u. pred_option (\<lambda>c. hc_done c \<longleftrightarrow> b) (up_activeHealth u)) (h_upstreams h')"
proof -
  have up: "list_all2 same_up (h_upstreams h) (h_upstreams h')" using assms by (simp add: same_proxy_def)
  show "h_inv h \<Longrightarrow> h_inv h'"
    using up by (simp add: h_inv_def list_all2_conv_all_nth list_all_length same_up_def)
  assume all: "list_all (\<lambda>u. pred_option (\<lambda>c. hc_done c \<longleftrightarrow> b) (up_activeHealth u)) (h_upstreams h)"
  show "list_all (\<lambda>u. pred_option (\<lambda>c. hc_done c \<longleftrightarrow> b) (up_activeHealth u)) (h_upstreams h')"
    unfolding list_all_length
  proof (intro allI impI)
    fix i assume i: "i < length (h_upstreams h')"
    then have "same_up (h_upstreams h ! i) (h_upstreams h' ! i)" using up by (simp add: list_all2_conv_all_nth)
    moreover have "pred_option (\<lambda>c. hc_done c \<longleftrightarrow> b) (up_activeHealth (h_upstreams h ! i))"
      using all i up by (simp add: list_all_length list_all2_lengthD)
    ultimately show "pred_option (\<lambda>c. hc_done c \<longleftrightarrow> b) (up_activeHealth (h_upstreams h' ! i))" by (rule same_up_runs)
  qed
qed

lemma kept_runs: "kept g g' \<Longrightarrow> runs_exactly g P B \<Longrightarrow> runs_exactly g' P B"
  unfolding kept_def runs_exactly_def list_all2_conv_all_nth
  by (intro conjI allI impI)
     (simp_all add: same_proxy_runs [of "gw_proxies g ! i" "gw_proxies g' ! i" for i] same_bucket_def)

lemma closed_proxy_runs:
  "h_inv h \<Longrightarrow> h_inv (CloseIdleConnections h)"
  "list_all (\<lambda>u. pred_option hc_done (up_activeHealth u)) (h_upstreams (CloseIdleConnections h))"
  using CloseIdleConnections_checks [of _ h]
  by (auto simp: h_inv_def CloseIdleConnections_def closeChecks_def up_inv_def list_all_iff)

lemma closed_runs:
  assumes "closed_in ps as g g'" and "runs_exactly g P B"
  shows "runs_exactly g' (\<lambda>i. P i \<and> i \<notin> set ps) (\<lambda>i. B i \<and> Some i \<notin> set as)"
  using assms unfolding closed_in_def runs_exactly_def
  by (intro conjI allI impI) (simp_all add: closed_proxy_runs shut_bucket(2-) del: tb_Close.simps)

lemma runs_exactly_cong:
  "runs_exactly g P B \<Longrightarrow> (\<And>i. i < length (gw_proxies g) \<Longrightarrow> P i = P' i) \<Longrightarrow>
    (\<And>i. i < length (gw_buckets g) \<Longrightarrow> B i = B' i) \<Longrightarrow> runs_exactly g P' B'"
  by (simp add: runs_exactly_def)

text \<open>What a build adds runs.\<close>

lemma rate_wired_runs: "rate_wired g rate burst a \<Longrightarrow> limiter_runs g rate burst a"
  by (auto simp: rate_wired_def limiter_runs_def open_bucket_def split: option.splits)

lemma wired_runs: "wired g route rr \<Longrightarrow> route_runs g route rr"
  using rate_wired_runs by (auto simp: wired_def route_runs_def proxy_wired_def)

lemma fresh_runs_config: "fresh_runtime g cfg s \<Longrightarrow> runs_config g cfg s"
  using wired_runs rate_wired_runs by (auto simp: fresh_runtime_def runs_config_def elim: list_all2_mono)

lemma list_all2_right: "list_all2 R xs ys \<Longrightarrow> y \<in> set ys \<Longrightarrow> \<exists>x \<in> set xs. R x y"
  by (induction rule: list_all2_induct) auto

lemma wired_proxy_runs:
  assumes "list_all2 (wired g) routes rrs" and "i \<in> set (map rr_proxyHandler rrs)"
  shows "h_inv (gw_proxies g ! i)"
    and "list_all (\<lambda>u. pred_option (\<lambda>c. \<not> hc_done c) (up_activeHealth u)) (h_upstreams (gw_proxies g ! i))"
proof -
  obtain rr where rr: "rr \<in> set rrs" "i = rr_proxyHandler rr" using assms(2) by auto
  obtain route where "wired g route rr" using list_all2_right [OF assms(1) rr(1)] by blast
  then have "proxy_wired g route i" using rr(2) by (simp add: wired_def)
  then show "h_inv (gw_proxies g ! i)"
    and "list_all (\<lambda>u. pred_option (\<lambda>c. \<not> hc_done c) (up_activeHealth u)) (h_upstreams (gw_proxies g ! i))"
    by (auto simp: proxy_wired_def fresh_upstream_def list_all_iff option.pred_set)
qed

lemma open_runs: "rate_wired g rate burst (Some i) \<Longrightarrow> tb_inv (gw_buckets g ! i) \<and> \<not> tb_done (gw_buckets g ! i)"
  by (simp add: rate_wired_def open_bucket_def)

lemma wired_bucket_runs:
  assumes "list_all2 (wired g) routes rrs" and "Some i \<in> set (map rr_rateLimiter rrs)"
  shows "tb_inv (gw_buckets g ! i) \<and> \<not> tb_done (gw_buckets g ! i)"
proof -
  obtain rr where rr: "rr \<in> set rrs" "rr_rateLimiter rr = Some i" using assms(2) by auto
  obtain route where "wired g route rr" using list_all2_right [OF assms(1) rr(1)] by blast
  with rr(2) open_runs show ?thesis by (auto simp: wired_def)
qed

lemma new_proxy_runs:
  assumes "bundle_wired g0 cfg g rt" and "i \<in> set (rb_proxyHandlers rt)"
  shows "h_inv (gw_proxies g ! i)"
    and "list_all (\<lambda>u. pred_option (\<lambda>c. \<not> hc_done c) (up_activeHealth u)) (h_upstreams (gw_proxies g ! i))"
proof -
  have "map rr_proxyHandler (rb_routes rt) = rb_proxyHandlers rt"
    and all: "list_all2 (wired g) (cfg_Routes cfg) (rb_routes rt)" using assms(1) by (simp_all only: bundle_wired_def)
  then have "i \<in> set (map rr_proxyHandler (rb_routes rt))" using assms(2) by metis
  from wired_proxy_runs [OF all this] show "h_inv (gw_proxies g ! i)"
    and "list_all (\<lambda>u. pred_option (\<lambda>c. \<not> hc_done c) (up_activeHealth u)) (h_upstreams (gw_proxies g ! i))" .
qed

lemma new_bucket_runs:
  assumes "bundle_wired g0 cfg g rt" and "Some i \<in> set (rb_rateLimiters rt)"
  shows "tb_inv (gw_buckets g ! i)" and "\<not> tb_done (gw_buckets g ! i)"
proof -
  have "List.map_filter id (map rr_rateLimiter (rb_routes rt) @ [rb_globalRateLimiter rt]) =
      List.map_filter id (rb_rateLimiters rt)" using assms(1) by (simp only: bundle_wired_def)
  with assms(2) have "Some i \<in> set (map rr_rateLimiter (rb_routes rt) @ [rb_globalRateLimiter rt])"
    using in_map_filter_id [of i] by metis
  then have "Some i \<in> set (map rr_rateLimiter (rb_routes rt)) \<or> rb_globalRateLimiter rt = Some i" by auto
  then have "tb_inv (gw_buckets g ! i) \<and> \<not> tb_done (gw_buckets g ! i)"
  proof
    assume "Some i \<in> set (map rr_rateLimiter (rb_routes rt))"
    moreover have "list_all2 (wired g) (cfg_Routes cfg) (rb_routes rt)" using assms(1) by (simp only: bundle_wired_def)
    ultimately show ?thesis using wired_bucket_runs by blast
  next
    assume "rb_globalRateLimiter rt = Some i"
    moreover have "rate_wired g (sc_RateLimitRPS (cfg_Server cfg)) (sc_RateLimitBurst (cfg_Server cfg)) (rb_globalRateLimiter rt)"
      using assms(1) by (simp only: bundle_wired_def)
    ultimately show ?thesis using open_runs by simp
  qed
  then show "tb_inv (gw_buckets g ! i)" and "\<not> tb_done (gw_buckets g ! i)" by simp_all
qed

lemma bundle_runs:
  assumes b: "bundle_wired g0 cfg g rt" and r: "runs_exactly g0 P B"
  shows "runs_exactly g (\<lambda>i. if i < length (gw_proxies g0) then P i else i \<in> set (rb_proxyHandlers rt))
    (\<lambda>i. if i < length (gw_buckets g0) then B i else Some i \<in> set (rb_rateLimiters rt))"
proof -
  have e: "extends g0 g" using b by (simp add: bundle_wired_def)
  have old: "gw_proxies g ! i = gw_proxies g0 ! i" if "i < length (gw_proxies g0)" for i
    using e that by (auto simp: extends_def nth_append)
  have old_b: "gw_buckets g ! i = gw_buckets g0 ! i" if "i < length (gw_buckets g0)" for i
    using e that by (auto simp: extends_def nth_append)
  show ?thesis
    unfolding runs_exactly_def
  proof (intro conjI allI impI)
    fix i assume i: "i < length (gw_proxies g)"
    show "h_inv (gw_proxies g ! i)"
      using r old [of i] new_proxy_runs(1) [OF b] bundle_pointers(1) [OF b, of i] i
      by (cases "i < length (gw_proxies g0)") (auto simp: runs_exactly_def)
    show "list_all (\<lambda>u. pred_option (\<lambda>c. hc_done c \<longleftrightarrow>
        \<not> (if i < length (gw_proxies g0) then P i else i \<in> set (rb_proxyHandlers rt))) (up_activeHealth u))
        (h_upstreams (gw_proxies g ! i))"
      using r old [of i] new_proxy_runs(2) [OF b] bundle_pointers(1) [OF b, of i] i
      by (cases "i < length (gw_proxies g0)") (auto simp: runs_exactly_def)
  next
    fix i assume i: "i < length (gw_buckets g)"
    have new: "i < length (gw_buckets g0) \<or> Some i \<in> set (rb_rateLimiters rt)"
      using bundle_pointers(2) [OF b, of i] i by auto
    show "tb_inv (gw_buckets g ! i)"
      using r old_b [of i] new_bucket_runs(1) [OF b] new
      by (cases "i < length (gw_buckets g0)") (auto simp: runs_exactly_def)
    show "tb_done (gw_buckets g ! i) \<longleftrightarrow>
        \<not> (if i < length (gw_buckets g0) then B i else Some i \<in> set (rb_rateLimiters rt))"
      using r old_b [of i] new_bucket_runs(2) [OF b] new
      by (cases "i < length (gw_buckets g0)") (auto simp: runs_exactly_def)
  qed
qed

section \<open>Every step keeps it\<close>

text \<open>The part that the live objects have no say in.\<close>

definition set_up :: "server \<Rightarrow> gateway \<Rightarrow> config \<Rightarrow> bool" where
  "set_up s g cfg \<longleftrightarrow> runs_config g cfg s \<and> settings_of cfg = settings_in s \<and> (\<exists>parse. valid_config parse cfg) \<and>
     points_into s g \<and> (sv_adminHTTPServer s \<noteq> None \<longrightarrow> (\<exists>rules. admin_wired rules s))"

lemma stays_set_up: "stays g g' \<Longrightarrow> set_up s g cfg \<Longrightarrow> set_up s g' cfg"
  using stays_config by (auto simp: set_up_def)

abbreviation live_proxies :: "bool \<Rightarrow> server \<Rightarrow> nat \<Rightarrow> bool" where
  "live_proxies live s i \<equiv> live \<and> i \<in> set (sv_proxyHandlers s)"

abbreviation live_buckets :: "bool \<Rightarrow> server \<Rightarrow> nat \<Rightarrow> bool" where
  "live_buckets live s i \<equiv> live \<and> Some i \<in> set (sv_rateLimiters s)"

lemma sys_inv_iff:
  "sys_inv \<lparr>st_server = s, st_store = g\<rparr> \<longleftrightarrow>
    (\<exists>cfg live. set_up s g cfg \<and> runs_exactly g (live_proxies live s) (live_buckets live s))"
  by (simp add: sys_inv_def set_up_def Let_def)

lemma inv_kept:
  assumes "sys_inv \<lparr>st_server = s, st_store = g\<rparr>" and "kept g g'"
  shows "sys_inv \<lparr>st_server = s, st_store = g'\<rparr>"
proof -
  obtain cfg live where "set_up s g cfg" "runs_exactly g (live_proxies live s) (live_buckets live s)"
    using assms(1) sys_inv_iff by blast
  then show ?thesis
    unfolding sys_inv_iff
    using stays_config [OF kept_stays [OF assms(2)]] kept_runs [OF assms(2)]
    by (intro exI [of _ cfg] exI [of _ live]) (simp add: set_up_def)
qed

lemma inv_closed:
  assumes "sys_inv \<lparr>st_server = s, st_store = g\<rparr>" and "CloseResource s g = (s', g')"
  shows "sys_inv \<lparr>st_server = s', st_store = g'\<rparr>"
proof -
  obtain cfg live where up: "set_up s g cfg" and run: "runs_exactly g (live_proxies live s) (live_buckets live s)"
    using assms(1) sys_inv_iff by blast
  have none: "sv_healthCheckers s = []" using up by (simp add: set_up_def runs_config_def)
  then have s': "s' = s"
    using assms(2) by (auto simp: CloseResource_def closeRuntimeResources_def)
  have closed: "closed_in (sv_proxyHandlers s) (sv_rateLimiters s) g g'"
    using closeRuntimeResources_closed [of "sv_proxyHandlers s" "sv_rateLimiters s" g "sv_healthCheckers s"] assms(2)
    by (auto simp: CloseResource_def split_beta)
  have "runs_exactly g' (live_proxies False s) (live_buckets False s)"
    by (rule runs_exactly_cong [OF closed_runs [OF closed run]]) auto
  then show ?thesis
    unfolding sys_inv_iff s'
    using stays_config [OF closed_stays [OF closed]] up by (intro exI [of _ cfg] exI [of _ False]) (simp add: set_up_def)
qed

lemma swap_frame:
  "sv_adminHTTPServer (swap_runtime cfg rt s) = sv_adminHTTPServer s"
  "admin_wired rules (swap_runtime cfg rt s) \<longleftrightarrow> admin_wired rules s"
  by (simp_all add: swap_runtime_def admin_wired_def registerAdminRoutes_def)

lemma inv_reloaded:
  assumes "sys_inv \<lparr>st_server = s, st_store = g\<rparr>" and "Reload env files s g = (s', g', res)"
    and "\<And>p. res \<noteq> Inl (ReloadPanic p)"
  shows "sys_inv \<lparr>st_server = s', st_store = g'\<rparr>"
  using assms(2)
proof (cases rule: Reload_cases)
  case (refused e)
  with assms(1) show ?thesis by simp
next
  case (panicked p cfg n result)
  with assms(3) [of p] show ?thesis by simp
next
  case (replaced cfg g1 rt)
  obtain cfg0 live where up: "set_up s g cfg0" and run: "runs_exactly g (live_proxies live s) (live_buckets live s)"
    using assms(1) sys_inv_iff by blast
  have into: "points_into s g" and wired: "sv_adminHTTPServer s \<noteq> None \<longrightarrow> (\<exists>rules. admin_wired rules s)"
    using up by (simp_all add: set_up_def)
  have closed: "closed_in (sv_proxyHandlers s) (sv_rateLimiters s) g1 g'"
    unfolding replaced(6) by (rule closeRuntimeResources_closed)
  have b: "bundle_wired g cfg g1 rt" by (rule replaced(4))
  have fresh: "fresh_runtime g' cfg s'" unfolding replaced(5) by (rule fresh_runtime_swap [OF b into closed])
  have set: "settings_of cfg = settings_in s" using replaced(3) validateReloadConfig_iff by blast
  have "points_into s' g'"
    unfolding replaced(5) by (rule stays_config(2) [OF closed_stays [OF closed] holds_points_into [OF b holds_swap]])
  then have "set_up s' g' cfg"
    using fresh_runs_config [OF fresh] settings_swap [OF set, of rt] set wired Load_valid [OF replaced(2)]
    by (auto simp: set_up_def replaced(5) swap_frame)
  moreover have "runs_exactly g' (live_proxies True s') (live_buckets True s')"
  proof (rule runs_exactly_cong [OF closed_runs [OF closed bundle_runs [OF b run]]])
    have len: "length (gw_proxies g') = length (gw_proxies g1)" "length (gw_buckets g') = length (gw_buckets g1)"
      using closed by (simp_all add: closed_in_def)
    have old: "i \<in> set (sv_proxyHandlers s) \<Longrightarrow> i < length (gw_proxies g)"
      "Some i \<in> set (sv_rateLimiters s) \<Longrightarrow> i < length (gw_buckets g)" for i
      using into by (auto simp: points_into_def list_all_iff)
    fix i
    show "((if i < length (gw_proxies g) then live_proxies live s i else i \<in> set (rb_proxyHandlers rt)) \<and>
        i \<notin> set (sv_proxyHandlers s)) = live_proxies True s' i"
      using old(1) [of i] bundle_pointers(1) [OF b, of i] by (auto simp: replaced(5) swap_runtime_def)
    show "((if i < length (gw_buckets g) then live_buckets live s i else Some i \<in> set (rb_rateLimiters rt)) \<and>
        Some i \<notin> set (sv_rateLimiters s)) = live_buckets True s' i"
      using old(2) [of i] bundle_pointers(2) [OF b, of i] by (auto simp: replaced(5) swap_runtime_def)
  qed
  ultimately show ?thesis unfolding sys_inv_iff by blast
qed

lemma put_site: "put_site_registry reg \<lparr>st_server = s, st_store = g\<rparr> = \<lparr>st_server = s, st_store = put_registry reg g\<rparr>"
  by (simp add: put_site_registry_def)

lemma inv_recorded:
  assumes "sys_inv t"
  shows "sys_inv (put_site_registry reg t)"
proof (cases t)
  case (fields s g)
  have "kept g (put_registry reg g)" by simp
  from inv_kept [OF _ this, of s] assms show ?thesis by (simp add: fields put_site)
qed

text \<open>An admin request: a record, and before it nothing or a reload.\<close>

lemma administered_cases:
  assumes a: "admin_ServeHTTP env r t w = (t', Inr w')" and wired: "admin_wired rules (st_server t)"
  obtains (nothing) rec where "t' = put_site_registry (map_option (Record rec) (site_registry t)) t"
  | (reload) rec t1 res where "url_Path (rq_URL r) = ''/admin/reload''"
      and "t' = put_site_registry (map_option (Record rec) (site_registry t1)) t1"
      and "Reload (ae_build env) (ae_files env) (st_server t) (st_store t) = (st_server t1, st_store t1, res)"
      and "\<And>p. res \<noteq> Inl (ReloadPanic p)"
proof -
  obtain t1 out where m: "admin_mux_ServeHTTP env r t (newStatusRecorder w) = (t1, out)" by (metis surj_pair)
  obtain rec w2 where "admin_ServeHTTP env r t w = (case out of Inl p \<Rightarrow> (t1, Inl p)
      | Inr w1 \<Rightarrow> (put_site_registry (map_option (Record rec) (site_registry t1)) t1, Inr w2))"
    using admin_ServeHTTP_cases [OF m] by blast
  with a have t': "t' = put_site_registry (map_option (Record rec) (site_registry t1)) t1" and ok: "out \<notin> range Inl"
    by (auto split: sum.splits)
  show ?thesis
    using admin_mux_outcome [OF wired m]
  proof
    assume "t1 = t \<and> out \<in> range Inr"
    with t' have "t' = put_site_registry (map_option (Record rec) (site_registry t)) t" by simp
    then show ?thesis by (rule nothing)
  next
    assume "rq_Method r = ''POST'' \<and> url_Path (rq_URL r) = ''/admin/reload'' \<and>
      authorised (ae_sha256 env) (st_server t) r \<and> handleAdminReload env r t (newStatusRecorder w) = (t1, out)"
    then have path: "url_Path (rq_URL r) = ''/admin/reload''"
      and h: "handleAdminReload env r t (newStatusRecorder w) = (t1, out)" by simp_all
    from reload_page_outcome [OF h] show ?thesis
    proof
      assume "t1 = t \<and> out \<in> range Inr"
      with t' have "t' = put_site_registry (map_option (Record rec) (site_registry t)) t" by simp
    then show ?thesis by (rule nothing)
    next
      assume "rq_Method r = ''POST'' \<and>
        (\<exists>res. Reload (ae_build env) (ae_files env) (st_server t) (st_store t) = (st_server t1, st_store t1, res) \<and>
          (out \<in> range Inl \<longleftrightarrow> (\<exists>p. res = Inl (ReloadPanic p))))"
      then obtain res where
        res: "Reload (ae_build env) (ae_files env) (st_server t) (st_store t) = (st_server t1, st_store t1, res)"
        and panic: "out \<in> range Inl \<longleftrightarrow> (\<exists>p. res = Inl (ReloadPanic p))" by (elim conjE exE) (rule that)
      have "res \<noteq> Inl (ReloadPanic p)" for p using panic ok by auto
      with path t' res show ?thesis by (rule reload)
    qed
  qed
qed

lemma inv_administered:
  assumes inv: "sys_inv t" and "sv_adminHTTPServer (st_server t) \<noteq> None"
    and a: "admin_ServeHTTP env r t w = (t', Inr w')"
  shows "sys_inv t'"
proof -
  obtain rules where "admin_wired rules (st_server t)" using assms(1,2) by (auto simp: sys_inv_def Let_def)
  with a show ?thesis
  proof (cases rule: administered_cases)
    case (reload rec t1 res)
    from inv_reloaded [OF _ reload(3,4)] inv have "sys_inv t1" by (cases t; cases t1) simp
    then show ?thesis unfolding reload(2) by (rule inv_recorded)
  qed (use inv in \<open>auto intro: inv_recorded\<close>)
qed

lemma New_admin_wired:
  "NewWithConfigPath env cfg path g0 = (g, Inr s) \<Longrightarrow> sv_adminHTTPServer s \<noteq> None \<Longrightarrow> admin_wired (be_rules env) s"
  by (auto simp: NewWithConfigPath_def server_of_def admin_wired_def registerAdminRoutes_def Let_def
      split: prod.splits sum.splits if_splits)

lemma inv_started:
  assumes "Load (le_read files) (le_unmarshal files) (le_lookup files) (be_parse env) path = Inr cfg"
    and "NewWithConfigPath env cfg path no_objects = (g, Inr s)"
  shows "sys_inv \<lparr>st_server = s, st_store = g\<rparr>"
proof -
  let ?g0 = "no_objects\<lparr>gw_registry := Some (NewRegistry (be_now env))\<rparr>"
  have valid: "valid_config (be_parse env) cfg" using Load_valid assms(1) by blast
  obtain rt where b: "bundle_wired ?g0 cfg g rt" and h: "holds_runtime cfg rt s" and set: "settings_in s = settings_of cfg"
    using NewWithConfigPath_started [OF valid assms(2)] by blast
  have "runs_exactly ?g0 (\<lambda>_. False) (\<lambda>_. False)" by (simp add: runs_exactly_def no_objects_def)
  from bundle_runs [OF b this] have "runs_exactly g (live_proxies True s) (live_buckets True s)"
    using h by (simp add: no_objects_def holds_runtime_def)
  moreover have "set_up s g cfg"
    using fresh_runs_config [OF holds_fresh [OF b h]] set valid holds_points_into [OF b h] New_admin_wired [OF assms(2)]
    by (auto simp: set_up_def)
  ultimately show ?thesis unfolding sys_inv_iff by blast
qed

lemma ticked_kept:
  assumes "i < length (gw_buckets g)" and "tb_step (gw_buckets g ! i) lab b" and "lab \<noteq> CloseB"
  shows "kept g (put_bucket (Some i) (Some b) g)"
proof -
  have "same_bucket (gw_buckets g ! i) b"
    using assms(2,3) tb_step_inv [OF assms(2)] tb_step_burst [OF assms(2)]
    by (auto simp: same_bucket_def tb_refill_tick_def tb_refill_done_def split_beta elim!: tb_stepE split: if_splits)
  then show ?thesis by (intro steady_kept steady_bucket) simp
qed

lemma probed_kept: "kept g (probe_upstream now pr i k g)"
proof -
  have "same_up u (u\<lparr>up_activeHealth := map_option (hc_checkOnce now pr) (up_activeHealth u)\<rparr>)" for u
    by (cases "up_activeHealth u") (simp_all add: same_up_def up_inv_def hc_checkOnce_def hc_update_def split_beta)
  then show ?thesis unfolding probe_upstream_def by (intro steady_kept steady_proxy same_upd)
qed

lemma sys_step_inv: "sys_step t t' \<Longrightarrow> sys_inv t \<Longrightarrow> sys_inv t'"
proof (induction rule: sys_step.induct)
  case (served env t r w g w')
  then show ?case by (cases t) (auto dest: served_kept intro: inv_kept)
next
  case (administered t env r w t' w')
  then show ?case by (blast intro: inv_administered)
next
  case (reloaded benv files t s g res)
  then show ?case by (cases t) (auto intro: inv_reloaded)
next
  case (closed t s g)
  then show ?case by (cases t) (auto intro: inv_closed)
next
  case (ticked i t lab b)
  then show ?case by (cases t) (auto intro: inv_kept ticked_kept)
next
  case (probed t now pr i k)
  then show ?case by (cases t) (auto intro: inv_kept probed_kept)
qed

lemma sys_reach_inv: "sys_reach t \<Longrightarrow> sys_inv t"
proof (induction rule: sys_reach.induct)
  case (start files env path cfg g s)
  then show ?case by (rule inv_started)
next
  case (step t t')
  then show ?case using sys_step_inv by blast
qed

lemma settings_step:
  assumes "sys_inv t" and "sys_step t t'"
  shows "settings_in (st_server t') = settings_in (st_server t)"
  using assms(2)
proof (cases rule: sys_step.cases)
  case (administered env r w w')
  obtain rules where wired: "admin_wired rules (st_server t)"
    using assms(1) administered(1) by (auto simp: sys_inv_def Let_def)
  from administered(2) wired show ?thesis
  proof (cases rule: administered_cases)
    case (reload rec t1 res)
    from reload(3) show ?thesis
      by (cases rule: Reload_cases) (auto simp: reload(2) put_site_registry_def validateReloadConfig_iff settings_swap)
  qed (simp add: put_site_registry_def)
next
  case (reloaded benv files s g res)
  from reloaded(2) show ?thesis
    by (cases rule: Reload_cases) (auto simp: reloaded(1) validateReloadConfig_iff settings_swap)
qed (auto simp: CloseResource_def split_beta settings_in_def)

section \<open>Properties\<close>

text \<open>
  The server always runs its configuration: whatever has happened since the start, requests,
  reloads that worked and reloads that did not, closing, the current configuration is a valid one, the
  restart-only settings are the ones the server was started with, and the handler, the routes, the
  proxies and the limiters are those of this configuration, each reached by a pointer into the store,
  with all places in its semaphores free.
\<close>

theorem server_runs_its_configuration:
  assumes "sys_reach t" and "sys_step t t'"
  shows "\<exists>cfg. sv_currentConfig (st_server t') = Some cfg \<and> (\<exists>parse. valid_config parse cfg)
    \<and> settings_of cfg = settings_in (st_server t') \<and> settings_in (st_server t') = settings_in (st_server t)
    \<and> runs_config (st_store t') cfg (st_server t') \<and> points_into (st_server t') (st_store t')"
proof -
  have "sys_inv t'" using sys_reach_inv assms sys_reach.step by blast
  moreover have "settings_in (st_server t') = settings_in (st_server t)"
    using settings_step [OF sys_reach_inv [OF assms(1)] assms(2)] .
  ultimately show ?thesis by (auto simp: sys_inv_def Let_def runs_config_def)
qed

text \<open>
  Nothing is left running by a reload: in every state that can be reached the rate limiters whose
  refilling has not been stopped and the upstream checks that have not been stopped are exactly those
  of the current runtime, or none after closing; the guards and the buckets are all in order. (A reload
  that panics is not a step here.)
\<close>

theorem only_the_current_runtime_runs:
  assumes "sys_reach t"
  shows "\<exists>live. (\<forall>i < length (gw_buckets (st_store t)). tb_inv (gw_buckets (st_store t) ! i) \<and>
        (tb_done (gw_buckets (st_store t) ! i) \<longleftrightarrow> \<not> (live \<and> Some i \<in> set (sv_rateLimiters (st_server t)))))
    \<and> (\<forall>i < length (gw_proxies (st_store t)). h_inv (gw_proxies (st_store t) ! i) \<and>
        (\<forall>u \<in> set (h_upstreams (gw_proxies (st_store t) ! i)). \<forall>c. up_activeHealth u = Some c \<longrightarrow>
          (hc_done c \<longleftrightarrow> \<not> (live \<and> i \<in> set (sv_proxyHandlers (st_server t))))))"
proof -
  obtain live where "runs_exactly (st_store t) (live_proxies live (st_server t)) (live_buckets live (st_server t))"
    using sys_reach_inv [OF assms] by (auto simp: sys_inv_def Let_def)
  then show ?thesis
    by (intro exI [of _ live]) (auto simp: runs_exactly_def list_all_iff option.pred_set)
qed

lemma demo_started:
  obtains g s where "NewWithConfigPath demo_build demo_config ''gateway.json'' no_objects = (g, Inr s)"
proof -
  have v: "valid_config (be_parse demo_build) demo_config" using demo_config_valid by simp
  have l: "list_all literal_pattern (config_patterns demo_config)" unfolding demo_patterns by code_simp
  have d: "distinct (config_patterns demo_config)" by (simp add: demo_patterns)
  from buildRuntime_literal [OF v demo_rules_literal l, of "no_objects\<lparr>gw_registry := Some (NewRegistry (be_now demo_build))\<rparr>"] d
  obtain g rt where b: "buildRuntime demo_build demo_config
      (no_objects\<lparr>gw_registry := Some (NewRegistry (be_now demo_build))\<rparr>) = (g, Inr rt)" by auto
  let ?s = "(server_of demo_config ''gateway.json'' rt)\<lparr>sv_httpServer :=
    Some \<lparr>srv_Addr = cfg_Addr demo_config, srv_ReadHeaderTimeout = 5 * second\<rparr>\<rparr>"
  have a: "ac_Enabled (cfg_Admin demo_config)" "ac_MetricsRequireToken (cfg_Admin demo_config)"
    "\<not> ac_PprofEnabled (cfg_Admin demo_config)" by (simp_all add: demo_config_def)
  have r: "be_rules demo_build = demo_rules" by (simp add: demo_build_def)
  have "registerAdminRoutes demo_rules ?s [] =
      Inr (map (\<lambda>(p, page). (p, Guarded page)) admin_pages @ [(''/metrics'', Guarded PrometheusPage)])"
    by (rule demo_registers) (simp_all add: server_of_def a)
  with that b a r show ?thesis by (simp add: NewWithConfigPath_def Let_def)
qed

lemma demo_reached:
  obtains t where "sys_reach t" and "sv_configPath (st_server t) = ''gateway.json''"
    and "settings_in (st_server t) = settings_of demo_config"
proof -
  obtain g s where n: "NewWithConfigPath demo_build demo_config ''gateway.json'' no_objects = (g, Inr s)"
    using demo_started .
  have l: "Load (le_read demo_files) (le_unmarshal demo_files) (le_lookup demo_files) (be_parse demo_build) ''gateway.json'' =
      Inr demo_config" using demo_loads by (simp add: demo_files_def)
  have "valid_config (be_parse demo_build) demo_config" using demo_config_valid by simp
  from NewWithConfigPath_started [OF this n] that [OF sys_reach.start [OF l n]] show ?thesis by auto
qed

theorem server_runs_its_configuration_witness:
  "\<exists>t t' cfg. sys_reach t \<and> sys_step t t' \<and> runs_config (st_store t') cfg (st_server t')"
proof -
  obtain t where t: "sys_reach t" using demo_reached .
  obtain s g where c: "CloseResource (st_server t) (st_store t) = (s, g)" by (metis surj_pair)
  from server_runs_its_configuration [OF t sys_step.closed [OF c]] t sys_step.closed [OF c] show ?thesis by blast
qed

theorem only_the_current_runtime_runs_witness:
  "\<exists>t. sys_reach t \<and> (\<forall>i < length (gw_buckets (st_store t)). tb_inv (gw_buckets (st_store t) ! i))"
proof -
  obtain t where "sys_reach t" using demo_reached .
  with only_the_current_runtime_runs [OF this] show ?thesis by blast
qed
text \<open>
  C38: The exception: a reload that panics leaks what it has built. If the mux refuses a pattern of the
  new configuration, the routes before it, and the one itself, have got their proxies and rate
  limiters; their checks and their refilling run, and no list of the server leads to them, so nothing
  will ever stop them.
\<close>

theorem panicking_reload_leaks:
  assumes "sys_reach t" and "literal_rules (be_rules env)"
    and "Reload env files (st_server t) (st_store t) = (s', g', Inl (ReloadPanic p))"
  shows "s' = st_server t \<and> length (gw_proxies (st_store t)) < length (gw_proxies g')
    \<and> (\<forall>i. length (gw_proxies (st_store t)) \<le> i \<and> i < length (gw_proxies g') \<longrightarrow>
        i \<notin> set (sv_proxyHandlers s') \<and>
        (\<forall>u \<in> set (h_upstreams (gw_proxies g' ! i)). \<forall>c. up_activeHealth u = Some c \<longrightarrow> hc_started c \<and> \<not> hc_done c))
    \<and> (\<forall>i. length (gw_buckets (st_store t)) \<le> i \<and> i < length (gw_buckets g') \<longrightarrow>
        Some i \<notin> set (sv_rateLimiters s') \<and> \<not> tb_done (gw_buckets g' ! i))"
  using assms(3)
proof (cases rule: Reload_cases)
  case (panicked p' cfg n result)
  have into: "points_into (st_server t) (st_store t)"
    using sys_reach_inv [OF assms(1)] by (auto simp: sys_inv_def Let_def)
  have all: "list_all2 (wired g') (take n (cfg_Routes cfg)) (res_routes result)"
    and ps: "map rr_proxyHandler (res_routes result) = [length (gw_proxies (st_store t))..<length (gw_proxies g')]"
    and bs: "List.map_filter id (map rr_rateLimiter (res_routes result)) =
      [length (gw_buckets (st_store t))..<length (gw_buckets g')]"
    using panicked(6) by (simp_all add: built_def)
  have "0 < n" using panicked(4) registerSystemRoutes_literal [OF assms(2)] by simp
  moreover have "length (map rr_proxyHandler (res_routes result)) = n"
    using list_all2_lengthD [OF all] panicked(5) by simp
  ultimately have grown: "length (gw_proxies (st_store t)) < length (gw_proxies g')" unfolding ps by simp
  have started: "\<forall>u \<in> set (h_upstreams (gw_proxies g' ! i)). \<forall>c. up_activeHealth u = Some c \<longrightarrow> hc_started c \<and> \<not> hc_done c"
    if "length (gw_proxies (st_store t)) \<le> i" "i < length (gw_proxies g')" for i
  proof -
    have "i \<in> set (map rr_proxyHandler (res_routes result))" unfolding ps using that by simp
    then obtain rr where rr: "rr \<in> set (res_routes result)" "i = rr_proxyHandler rr" by auto
    obtain route where "wired g' route rr" using list_all2_right [OF all rr(1)] by blast
    with rr(2) show ?thesis by (auto simp: wired_def proxy_wired_def fresh_upstream_def list_all_iff)
  qed
  have opened: "\<not> tb_done (gw_buckets g' ! i)"
    if "length (gw_buckets (st_store t)) \<le> i" "i < length (gw_buckets g')" for i
  proof -
    have "i \<in> set (List.map_filter id (map rr_rateLimiter (res_routes result)))" unfolding bs using that by simp
    then have "Some i \<in> set (map rr_rateLimiter (res_routes result))" by (simp only: in_map_filter_id)
    with wired_bucket_runs [OF all] show ?thesis by blast
  qed
  show ?thesis
    unfolding panicked(2)
    using grown started opened into by (auto simp: points_into_def list_all_iff dest: leD)
qed simp_all

text \<open>A file with a route under \<open>/ping\<close>, the path of a system route.\<close>

definition ping_raw :: config where
  "ping_raw = demo_raw\<lparr>cfg_Routes := [demo_raw_route\<lparr>rc_Prefix := ''ping'', rc_StripPrefix := ''/ping/''\<rparr>]\<rparr>"

definition ping_files :: load_env where
  "ping_files = demo_files\<lparr>le_unmarshal := (\<lambda>_. Inr ping_raw)\<rparr>"

lemma ping_loads:
  "Load (le_read ping_files) (le_unmarshal ping_files) (le_lookup ping_files) (be_parse demo_build) path = Inr ping_config"
proof -
  have [simp]: "expand_field lookup f s = Inr s" if "plain s" for lookup f s
    using expandEnvString_plain [OF that] by simp
  have "expand_route lookup (0, demo_raw_route\<lparr>rc_Prefix := ''ping'', rc_StripPrefix := ''/ping/''\<rparr>) =
      Inr (demo_raw_route\<lparr>rc_Prefix := ''ping'', rc_StripPrefix := ''/ping/''\<rparr>)" for lookup
    by (simp add: expand_route_def demo_raw_route_def Let_def)
  then have e: "expandConfigEnv lookup ping_raw = Inr ping_raw" for lookup
    by (simp add: expandConfigEnv_def ping_raw_def demo_raw_def Let_def)
  have trims: "trim_space ''ping'' = ''ping''" "trim_space ''/ping/'' = ''/ping/''"
    by (rule trim_space_printable; simp add: printable_def)+
  have "normalize_route (demo_raw_route\<lparr>rc_Prefix := ''ping'', rc_StripPrefix := ''/ping/''\<rparr>) =
      demo_route\<lparr>rc_Prefix := ''/ping/'', rc_StripPrefix := ''/ping''\<rparr>"
    by (simp add: normalize_route_def demo_raw_route_def demo_route_def demo_trims trims normalizePrefix_def
        normalizeStripPrefix_def normalizeTargetURL_def normalize_passive_def normalize_breaker_def
        normalize_health_def Let_def has_prefix_Cons1 has_suffix_snoc1 trim_right_def)
  then have n: "normalize ping_raw = ping_config"
    using demo_config_normalized by (simp add: normalize_def ping_raw_def ping_config_def demo_raw_def demo_config_def)
  have "validate (be_parse demo_build) ping_config = None" using ping_config_valid validate_iff by blast
  then show ?thesis by (simp add: Load_def ping_files_def demo_files_def e n Let_def)
qed

theorem panicking_reload_leaks_witness:
  "\<exists>t s' g' p. sys_reach t \<and> Reload demo_build ping_files (st_server t) (st_store t) = (s', g', Inl (ReloadPanic p))
    \<and> length (gw_proxies (st_store t)) < length (gw_proxies g')"
proof -
  obtain t where t: "sys_reach t" "sv_configPath (st_server t) = ''gateway.json''"
    "settings_in (st_server t) = settings_of demo_config" using demo_reached .
  obtain g p where b: "buildRuntime demo_build ping_config (st_store t) = (g, Inl (BuildPanic p))"
    using ping_panics by blast
  have "settings_of ping_config = settings_of demo_config"
    by (simp add: settings_of_def ping_config_def demo_config_def cfg_Addr_def)
  then have "validateReloadConfig (st_server t) ping_config = None" using t(3) validateReloadConfig_iff by simp
  then have r: "Reload demo_build ping_files (st_server t) (st_store t) = (st_server t, g, Inl (ReloadPanic p))"
    using t(2) b by (simp add: Reload_def prepare_reload_def ping_loads del: demo_parse)
  from panicking_reload_leaks [OF t(1) demo_rules_literal r] r t(1) show ?thesis by blast
qed
end
