(* ===== verification/Overlap.thy ===== *)
theory Overlap
  imports Gateway_System
begin

text \<open>
  Reloads, requests and closing that overlap. \<^verbatim>\<open>Reload\<close> of \<^verbatim>\<open>internal/server/reload.go\<close> holds the lock only
  while it exchanges the fields of the server: before that it builds a runtime nobody else knows of, and
  after it closes, object by object, what the fields held. \<^verbatim>\<open>CloseResource\<close> (\<^verbatim>\<open>lifecycle.go\<close>) copies the
  lists under the lock and closes after it. So any number of reloads can be under way at once, and a
  request that has read the handler may be served by a runtime that has been replaced.

  Every object has its owner here: the server, a reload that has not exchanged yet, or one that is closing.
\<close>

section \<open>Owners\<close>

definition among :: "nat list list \<Rightarrow> nat \<Rightarrow> bool" where
  "among xss i \<longleftrightarrow> i \<in> set (concat xss)"

lemma among_simps [simp]:
  "\<not> among [] i" "among (xs # xss) i \<longleftrightarrow> i \<in> set xs \<or> among xss i" "among (xss @ yss) i \<longleftrightarrow> among xss i \<or> among yss i"
  by (simp_all add: among_def)

text \<open>
  One object: whether it exists, whether it runs, and who has it; \<open>live\<close> until what the server has is to
  be closed too.
\<close>

definition fits :: "bool \<Rightarrow> bool \<Rightarrow> bool \<Rightarrow> bool \<Rightarrow> bool \<Rightarrow> bool \<Rightarrow> bool" where
  "fits exists running live current prepared retired \<longleftrightarrow>
     (current \<or> prepared \<or> retired \<longrightarrow> exists) \<and> (prepared \<longrightarrow> \<not> current \<and> \<not> retired) \<and>
     (live \<and> current \<longrightarrow> \<not> retired) \<and>
     (exists \<longrightarrow> (prepared \<or> live \<and> current \<longrightarrow> running) \<and> (running \<longrightarrow> prepared \<or> live \<and> current \<or> retired))"

text \<open>All of them: what the server has, what the reloads under way have prepared, and what is to be closed.\<close>

definition owned :: "(nat \<Rightarrow> bool) \<Rightarrow> nat \<Rightarrow> bool \<Rightarrow> nat list \<Rightarrow> nat list list \<Rightarrow> nat list list \<Rightarrow> bool" where
  "owned run n live cur prep ret \<longleftrightarrow> distinct (concat prep) \<and>
     (\<forall>i. fits (i < n) (run i) live (i \<in> set cur) (among prep i) (among ret i))"

lemma owned_fits: "owned run n live cur prep ret \<Longrightarrow> fits (i < n) (run i) live (i \<in> set cur) (among prep i) (among ret i)"
  by (simp add: owned_def)

lemma owned_prepared:
  assumes "owned run n live cur prep ret" and "n \<le> m" and "set xs = {n..<m}" and "distinct xs"
  shows "owned (\<lambda>i. if i < n then run i else i \<in> set xs) m live cur (xs # prep) ret"
  unfolding owned_def
proof (intro conjI allI)
  have "among prep i \<Longrightarrow> i < n" for i using owned_fits [OF assms(1), of i] by (simp add: fits_def)
  then have "set xs \<inter> set (concat prep) = {}" using assms(3) unfolding among_def by force
  with assms(1,4) show "distinct (concat (xs # prep))" by (simp add: owned_def)
  fix i
  have "i \<in> set xs \<longleftrightarrow> \<not> i < n \<and> i < m" using assms(3) by auto
  with owned_fits [OF assms(1), of i] assms(2)
  show "fits (i < m) (if i < n then run i else i \<in> set xs) live (i \<in> set cur) (among (xs # prep) i) (among ret i)"
    by (auto simp: fits_def)
qed

lemma fits_exchanged:
  "fits e r live c (x \<or> m \<or> y) v \<Longrightarrow> (m \<Longrightarrow> \<not> (x \<or> y)) \<Longrightarrow> fits e r True m (x \<or> y) (c \<or> v)"
  by (cases c; cases x; cases m; cases y; cases v; cases live) (simp_all add: fits_def)

lemma fits_closing: "fits e r live c p v \<Longrightarrow> fits e r False c p (c \<or> v)"
  by (cases c; cases live) (simp_all add: fits_def)

lemma owned_exchanged:
  assumes "owned run n live cur (xs @ new # ys) ret"
  shows "owned run n True new (xs @ ys) (cur # ret)"
  unfolding owned_def
proof (intro conjI allI)
  have d: "distinct (concat (xs @ new # ys))" using assms by (simp only: owned_def)
  then show "distinct (concat (xs @ ys))" by auto
  fix i
  have "i \<in> set new \<Longrightarrow> \<not> (among xs i \<or> among ys i)" using d by (auto simp: among_def)
  with owned_fits [OF assms, of i]
  show "fits (i < n) (run i) True (i \<in> set new) (among (xs @ ys) i) (among (cur # ret) i)"
    unfolding among_simps by (rule fits_exchanged)
qed

lemma owned_closing: "owned run n live cur prep ret \<Longrightarrow> owned run n False cur prep (cur # ret)"
  unfolding owned_def among_simps using fits_closing by blast

lemma owned_shut:
  assumes "owned run n live cur prep (xs @ (ds @ es) # ys)"
  shows "owned (\<lambda>i. run i \<and> i \<notin> set ds) n live cur prep (xs @ es # ys)"
  unfolding owned_def
proof (intro conjI allI)
  fix i
  from owned_fits [OF assms, of i]
  show "fits (i < n) (run i \<and> i \<notin> set ds) live (i \<in> set cur) (among prep i) (among (xs @ es # ys) i)"
    by (auto simp: fits_def)
qed (use assms in \<open>simp add: owned_def\<close>)

lemma owned_cong: "owned run n live cur prep ret \<Longrightarrow> (\<And>i. i < n \<Longrightarrow> run i = run' i) \<Longrightarrow> owned run' n live cur prep ret"
  by (simp add: owned_def fits_def)

section \<open>The process\<close>

text \<open>
  The server and the store; the handlers of requests that have been read and not served yet; the runtimes
  of reloads that have not exchanged yet; and the lists that are being closed.
\<close>

record process =
  pc_site :: site
  pc_serving :: "mainHandler list"
  pc_prepared :: "(config \<times> runtimeBundle) list"
  pc_retired :: "(nat list \<times> nat option list) list"

abbreviation pc_server :: "process \<Rightarrow> server" where
  "pc_server p \<equiv> st_server (pc_site p)"

abbreviation pc_store :: "process \<Rightarrow> gateway" where
  "pc_store p \<equiv> st_store (pc_site p)"

definition put_store :: "gateway \<Rightarrow> process \<Rightarrow> process" where
  "put_store g p = p\<lparr>pc_site := (pc_site p)\<lparr>st_store := g\<rparr>\<rparr>"

text \<open>What the fields of the server hold, for closing. (Its list of checkers is always empty.)\<close>

definition held :: "server \<Rightarrow> nat list \<times> nat option list" where
  "held s = (sv_proxyHandlers s, sv_rateLimiters s)"

text \<open>
  What can happen next, to anyone. A reload is \<open>prepared\<close>, \<open>exchanged\<close>, then closes with the rest of
  the steps; \<open>closing\<close> is the copying of \<^verbatim>\<open>CloseResource\<close>. An admin request that is no reload is one
  step; \<open>recorded\<close> is the access log of one that is.
\<close>

inductive ov_step :: "process \<Rightarrow> process \<Rightarrow> bool" where
  read: "rh_value (sv_mainHandler (pc_server p)) = Some (MainHandler mh) \<Longrightarrow>
    ov_step p (p\<lparr>pc_serving := mh # pc_serving p\<rparr>)"
| served: "pc_serving p = xs @ mh # ys \<Longrightarrow> main_ServeHTTP env mh r (pc_store p) w = Some (g, w') \<Longrightarrow>
    ov_step p (put_store g (p\<lparr>pc_serving := xs @ ys\<rparr>))"
| administered: "sv_adminHTTPServer (pc_server p) \<noteq> None \<Longrightarrow> url_Path (rq_URL r) \<noteq> ''/admin/reload'' \<Longrightarrow>
    admin_ServeHTTP env r (pc_site p) w = (t, Inr w') \<Longrightarrow> ov_step p (p\<lparr>pc_site := t\<rparr>)"
| recorded: "ov_step p (put_store (put_registry (map_option (Record rec) (gw_registry (pc_store p))) (pc_store p)) p)"
| prepared: "prepare_reload benv files (pc_server p) (pc_store p) = (g, Inr (cfg, rt)) \<Longrightarrow>
    ov_step p (put_store g (p\<lparr>pc_prepared := (cfg, rt) # pc_prepared p\<rparr>))"
| exchanged: "pc_prepared p = xs @ (cfg, rt) # ys \<Longrightarrow>
    ov_step p (p\<lparr>pc_site := (pc_site p)\<lparr>st_server := swap_runtime cfg rt (pc_server p)\<rparr>,
      pc_prepared := xs @ ys, pc_retired := held (pc_server p) # pc_retired p\<rparr>)"
| closing: "ov_step p (p\<lparr>pc_retired := held (pc_server p) # pc_retired p\<rparr>)"
| closes_proxy: "pc_retired p = xs @ (i # ps, as) # ys \<Longrightarrow>
    ov_step p (put_store (close_proxy i (pc_store p)) (p\<lparr>pc_retired := xs @ (ps, as) # ys\<rparr>))"
| closes_bucket: "pc_retired p = xs @ ([], a # as) # ys \<Longrightarrow>
    ov_step p (put_store (close_bucket a (pc_store p)) (p\<lparr>pc_retired := xs @ ([], as) # ys\<rparr>))"
| closes_done: "pc_retired p = xs @ ([], []) # ys \<Longrightarrow> ov_step p (p\<lparr>pc_retired := xs @ ys\<rparr>)"
| ticked: "i < length (gw_buckets (pc_store p)) \<Longrightarrow> tb_step (gw_buckets (pc_store p) ! i) lab b \<Longrightarrow> lab \<noteq> CloseB \<Longrightarrow>
    ov_step p (put_store (put_bucket (Some i) (Some b) (pc_store p)) p)"
| probed: "ov_step p (put_store (probe_upstream now pr i k (pc_store p)) p)"

definition idle :: "site \<Rightarrow> process" where
  "idle t = \<lparr>pc_site = t, pc_serving = [], pc_prepared = [], pc_retired = []\<rparr>"

inductive ov_reach :: "process \<Rightarrow> bool" where
  start: "Load (le_read (files :: load_env)) (le_unmarshal files) (le_lookup files) (be_parse env) path = Inr cfg \<Longrightarrow>
    NewWithConfigPath env cfg path no_objects = (g, Inr s) \<Longrightarrow> ov_reach (idle \<lparr>st_server = s, st_store = g\<rparr>)"
| step: "ov_reach p \<Longrightarrow> ov_step p p' \<Longrightarrow> ov_reach p'"

section \<open>What always holds\<close>

text \<open>A runtime that a reload has prepared: it would be in order in the server.\<close>

definition ready :: "site \<Rightarrow> config \<times> runtimeBundle \<Rightarrow> bool" where
  "ready t = (\<lambda>(cfg, rt). set_up (swap_runtime cfg rt (st_server t)) (st_store t) cfg \<and>
     settings_of cfg = settings_in (st_server t))"

text \<open>A handler that a request has read: its routes are those of some configuration, wherever it is now.\<close>

definition handler_runs :: "gateway \<Rightarrow> mainHandler \<Rightarrow> bool" where
  "handler_runs g mh \<longleftrightarrow> (\<exists>cfg parse. valid_config parse cfg \<and> list_all2 (route_runs g) (cfg_Routes cfg) (mh_routes mh) \<and>
     limiter_runs g (sc_RateLimitRPS (cfg_Server cfg)) (sc_RateLimitBurst (cfg_Server cfg)) (mh_rate mh) \<and>
     semaphore_wired g (sc_MaxConcurrency (cfg_Server cfg)) (mh_concurrency mh) \<and>
     RequestTimeoutDuration cfg = Inr (mh_timeout mh))"

definition prepared_proxies :: "process \<Rightarrow> nat list list" where
  "prepared_proxies p = map (\<lambda>(cfg, rt). rb_proxyHandlers rt) (pc_prepared p)"

definition prepared_buckets :: "process \<Rightarrow> nat list list" where
  "prepared_buckets p = map (\<lambda>(cfg, rt). List.map_filter id (rb_rateLimiters rt)) (pc_prepared p)"

definition retired_buckets :: "process \<Rightarrow> nat list list" where
  "retired_buckets p = map (List.map_filter id \<circ> snd) (pc_retired p)"

definition owners :: "process \<Rightarrow> bool \<Rightarrow> (nat \<Rightarrow> bool) \<Rightarrow> (nat \<Rightarrow> bool) \<Rightarrow> bool" where
  "owners p live P B \<longleftrightarrow>
     owned P (length (gw_proxies (pc_store p))) live (sv_proxyHandlers (pc_server p)) (prepared_proxies p)
       (map fst (pc_retired p)) \<and>
     owned B (length (gw_buckets (pc_store p))) live (List.map_filter id (sv_rateLimiters (pc_server p)))
       (prepared_buckets p) (retired_buckets p)"

definition in_order :: "process \<Rightarrow> bool" where
  "in_order p \<longleftrightarrow> (\<exists>cfg. set_up (pc_server p) (pc_store p) cfg) \<and> list_all (ready (pc_site p)) (pc_prepared p) \<and>
     list_all (handler_runs (pc_store p)) (pc_serving p)"

definition ov_inv :: "process \<Rightarrow> bool" where
  "ov_inv p \<longleftrightarrow> in_order p \<and> (\<exists>live P B. runs_exactly (pc_store p) P B \<and> owners p live P B)"

lemma ov_invE:
  assumes "ov_inv p"
  obtains live P B where "in_order p" and "runs_exactly (pc_store p) P B" and "owners p live P B"
  using assms by (auto simp: ov_inv_def)

lemma ov_invI: "in_order p \<Longrightarrow> runs_exactly (pc_store p) P B \<Longrightarrow> owners p live P B \<Longrightarrow> ov_inv p"
  by (auto simp: ov_inv_def)

lemma put_store_simps [simp]:
  "pc_site (put_store g p) = (pc_site p)\<lparr>st_store := g\<rparr>" "pc_serving (put_store g p) = pc_serving p"
  "pc_prepared (put_store g p) = pc_prepared p" "pc_retired (put_store g p) = pc_retired p"
  by (simp_all add: put_store_def)

lemma put_store_same: "g = pc_store p \<Longrightarrow> put_store g p = p"
  by (cases "pc_site p") (simp add: put_store_def)

lemma same_site: "p\<lparr>pc_site := \<lparr>st_server = pc_server p, st_store = pc_store p\<rparr>\<rparr> = p"
  by simp

lemmas owner_lists = prepared_proxies_def prepared_buckets_def retired_buckets_def

section \<open>The steps on the store\<close>

lemma handler_stays: "stays g g' \<Longrightarrow> handler_runs g mh \<Longrightarrow> handler_runs g' mh"
  unfolding handler_runs_def using stays_route stays_limiter stays_semaphore by (blast intro: list_all2_mono)

lemma in_order_stays:
  assumes "in_order p" and "stays (pc_store p) g"
  shows "in_order (put_store g p)"
  using assms(1) stays_set_up [OF assms(2)] handler_stays [OF assms(2)]
  unfolding in_order_def ready_def by (auto simp: list_all_iff)

lemma ov_inv_kept:
  assumes "ov_inv p" and "kept (pc_store p) g"
  shows "ov_inv (put_store g p)"
proof -
  have "length (gw_proxies g) = length (gw_proxies (pc_store p))" "length (gw_buckets g) = length (gw_buckets (pc_store p))"
    using assms(2) unfolding kept_def by (metis list_all2_lengthD)+
  then have own: "owners p live P B \<Longrightarrow> owners (put_store g p) live P B" for live P B
    by (simp add: owners_def owner_lists)
  from assms(1) show ?thesis
  proof (rule ov_invE)
    fix live P B assume "in_order p" and "runs_exactly (pc_store p) P B" and "owners p live P B"
    then show ?thesis
      using in_order_stays [OF _ kept_stays [OF assms(2)]] kept_runs [OF assms(2)] own by (intro ov_invI) simp_all
  qed
qed

lemma closes_one:
  "closed_in [i] [] g (close_proxy i g)" "closed_in [] [a] g (close_bucket a g)"
  using closeRuntimeResources_closed [of "[i]" "[]" g "[]"] closeRuntimeResources_closed [of "[]" "[a]" g "[]"]
  by (simp_all add: closeRuntimeResources_def)

lemma closed_lengths:
  "closed_in ps as g g' \<Longrightarrow> length (gw_proxies g') = length (gw_proxies g)"
  "closed_in ps as g g' \<Longrightarrow> length (gw_buckets g') = length (gw_buckets g)"
  by (simp_all add: closed_in_def)

lemma ov_inv_closes_proxy:
  assumes "ov_inv p" and r: "pc_retired p = xs @ (i # ps, as) # ys"
  shows "ov_inv (put_store (close_proxy i (pc_store p)) (p\<lparr>pc_retired := xs @ (ps, as) # ys\<rparr>))" (is "ov_inv ?p")
  using assms(1)
proof (rule ov_invE)
  fix live P B assume ord: "in_order p" and run: "runs_exactly (pc_store p) P B" and own: "owners p live P B"
  note c = closes_one(1) [of i "pc_store p"]
  show ?thesis
  proof (rule ov_invI)
    show "in_order ?p" using in_order_stays [OF ord closed_stays [OF c]] by (simp add: in_order_def)
    show "runs_exactly (pc_store ?p) (\<lambda>j. P j \<and> j \<notin> set [i]) B" using closed_runs [OF c run] by simp
    show "owners ?p live (\<lambda>j. P j \<and> j \<notin> set [i]) B"
      using own owned_shut [of P _ _ _ _ "map fst xs" "[i]" ps "map fst ys"]
      by (simp add: owners_def owner_lists r closed_lengths [OF c])
  qed
qed

lemma map_filter_id_Cons: "List.map_filter id (a # as) = List.map_filter id [a] @ List.map_filter id as"
  by (simp add: map_filter_simps split: option.split)

lemma ov_inv_closes_bucket:
  assumes "ov_inv p" and r: "pc_retired p = xs @ ([], a # as) # ys"
  shows "ov_inv (put_store (close_bucket a (pc_store p)) (p\<lparr>pc_retired := xs @ ([], as) # ys\<rparr>))" (is "ov_inv ?p")
  using assms(1)
proof (rule ov_invE)
  fix live P B assume ord: "in_order p" and run: "runs_exactly (pc_store p) P B" and own: "owners p live P B"
  note c = closes_one(2) [of a "pc_store p"]
  let ?f = "List.map_filter id \<circ> snd :: nat list \<times> nat option list \<Rightarrow> nat list"
  let ?a = "List.map_filter id [a]"
  show ?thesis
  proof (rule ov_invI)
    show "in_order ?p" using in_order_stays [OF ord closed_stays [OF c]] by (simp add: in_order_def)
    have "runs_exactly (pc_store ?p) P (\<lambda>j. B j \<and> Some j \<notin> set [a])" using closed_runs [OF c run] by simp
    then show "runs_exactly (pc_store ?p) P (\<lambda>j. B j \<and> j \<notin> set ?a)" unfolding in_map_filter_id .
    show "owners ?p live P (\<lambda>j. B j \<and> j \<notin> set ?a)"
      using own owned_shut [of B _ _ _ _ "map ?f xs" ?a "List.map_filter id as" "map ?f ys"]
      unfolding owners_def owner_lists
      by (simp add: r closed_lengths [OF c] map_filter_id_Cons [of a as] del: map_filter_simps)
  qed
qed

section \<open>The steps of a reload\<close>

lemma settings_ready: "ready t (cfg, rt) \<Longrightarrow> settings_in (swap_runtime cfg rt (st_server t)) = settings_in (st_server t)"
  by (simp add: ready_def settings_swap)

text \<open>Whether a prepared runtime would be in order does not depend on the runtime it replaces.\<close>

lemma swap_swap: "swap_runtime cfg rt (swap_runtime cfg' rt' s) = swap_runtime cfg rt s"
  by (simp add: swap_runtime_def rh_Store_def)

lemma ov_inv_exchanged:
  assumes "ov_inv p" and e: "pc_prepared p = xs @ (cfg, rt) # ys"
  shows "ov_inv (p\<lparr>pc_site := (pc_site p)\<lparr>st_server := swap_runtime cfg rt (pc_server p)\<rparr>,
      pc_prepared := xs @ ys, pc_retired := held (pc_server p) # pc_retired p\<rparr>)" (is "ov_inv ?p")
  using assms(1)
proof (rule ov_invE)
  fix live P B assume ord: "in_order p" and run: "runs_exactly (pc_store p) P B" and own: "owners p live P B"
  have r: "ready (pc_site p) (cfg, rt)" using ord by (simp add: in_order_def e)
  show ?thesis
  proof (rule ov_invI)
    have "ready (pc_site ?p) x" if "ready (pc_site p) x" for x
      using that settings_ready [OF r] by (auto simp: ready_def swap_swap)
    then show "in_order ?p"
      using ord r by (auto simp: in_order_def e ready_def list_all_iff)
    show "runs_exactly (pc_store ?p) P B" using run by simp
    show "owners ?p True P B"
      using own owned_exchanged [of P _ live] owned_exchanged [of B _ live]
      by (simp add: owners_def owner_lists e held_def swap_runtime_def)
  qed
qed

lemma ov_inv_closing:
  assumes "ov_inv p"
  shows "ov_inv (p\<lparr>pc_retired := held (pc_server p) # pc_retired p\<rparr>)" (is "ov_inv ?p")
  using assms
proof (rule ov_invE)
  fix live P B assume ord: "in_order p" and run: "runs_exactly (pc_store p) P B" and own: "owners p live P B"
  show ?thesis
  proof (rule ov_invI)
    show "in_order ?p" using ord by (simp add: in_order_def)
    show "runs_exactly (pc_store ?p) P B" using run by simp
    show "owners ?p False P B" using own owned_closing [of P _ live] owned_closing [of B _ live]
      by (simp add: owners_def owner_lists held_def)
  qed
qed

lemma ov_inv_closes_done:
  assumes "ov_inv p" and "pc_retired p = xs @ ([], []) # ys"
  shows "ov_inv (p\<lparr>pc_retired := xs @ ys\<rparr>)"
  using assms by (auto simp: ov_inv_def in_order_def owners_def owner_lists owned_def)

lemma prepared_wired:
  assumes "prepare_reload env files s g0 = (g, Inr (cfg, rt))"
  shows "bundle_wired g0 cfg g rt" and "settings_of cfg = settings_in s" and "valid_config (be_parse env) cfg"
  using assms by (cases rule: prepare_cases; auto simp: validateReloadConfig_iff Load_valid)+

lemma ready_new:
  assumes b: "bundle_wired g0 cfg (st_store t) rt" and "settings_of cfg = settings_in (st_server t)"
    and "valid_config parse cfg"
    and "sv_adminHTTPServer (st_server t) \<noteq> None \<longrightarrow> (\<exists>rules. admin_wired rules (st_server t))"
  shows "ready t (cfg, rt)"
  using assms holds_points_into [OF b holds_swap] fresh_runs_config [OF holds_fresh [OF b holds_swap]] settings_swap
  by (auto simp: ready_def set_up_def swap_frame)

lemma bundle_new:
  assumes "bundle_wired g0 cfg g rt"
  shows "length (gw_proxies g0) \<le> length (gw_proxies g)"
    and "set (rb_proxyHandlers rt) = {length (gw_proxies g0)..<length (gw_proxies g)}" and "distinct (rb_proxyHandlers rt)"
    and "length (gw_buckets g0) \<le> length (gw_buckets g)"
    and "set (List.map_filter id (rb_rateLimiters rt)) = {length (gw_buckets g0)..<length (gw_buckets g)}"
    and "distinct (List.map_filter id (rb_rateLimiters rt))"
  using assms by (auto simp: bundle_wired_def extends_def)

lemma ov_inv_prepared:
  assumes "ov_inv p" and prep: "prepare_reload env files (pc_server p) (pc_store p) = (g, Inr (cfg, rt))"
  shows "ov_inv (put_store g (p\<lparr>pc_prepared := (cfg, rt) # pc_prepared p\<rparr>))" (is "ov_inv ?p")
  using assms(1)
proof (rule ov_invE)
  fix live P B assume ord: "in_order p" and run: "runs_exactly (pc_store p) P B" and own: "owners p live P B"
  note b = prepared_wired(1) [OF prep]
  let ?P = "\<lambda>i. if i < length (gw_proxies (pc_store p)) then P i else i \<in> set (rb_proxyHandlers rt)"
  let ?B = "\<lambda>i. if i < length (gw_buckets (pc_store p)) then B i
    else i \<in> set (List.map_filter id (rb_rateLimiters rt))"
  show ?thesis
  proof (rule ov_invI)
    have "stays (pc_store p) g" using b extends_stays by (simp add: bundle_wired_def)
    note same = in_order_stays [OF ord this]
    obtain cfg0 where "set_up (pc_server p) (pc_store p) cfg0" using ord by (auto simp: in_order_def)
    then have "sv_adminHTTPServer (pc_server p) \<noteq> None \<longrightarrow> (\<exists>rules. admin_wired rules (pc_server p))"
      by (simp add: set_up_def)
    with b prepared_wired(2,3) [OF prep] have "ready (pc_site ?p) (cfg, rt)"
      by (intro ready_new [of "pc_store p"]) simp_all
    with same show "in_order ?p" by (simp add: in_order_def)
    have "runs_exactly g ?P (\<lambda>i. if i < length (gw_buckets (pc_store p)) then B i else Some i \<in> set (rb_rateLimiters rt))"
      by (rule bundle_runs [OF b run])
    then have "runs_exactly g ?P ?B" by (rule runs_exactly_cong) (simp_all add: in_map_filter_id)
    then show "runs_exactly (pc_store ?p) ?P ?B" by simp
    show "owners ?p live ?P ?B"
      using own owned_prepared [OF _ bundle_new(1-3) [OF b]] owned_prepared [OF _ bundle_new(4-6) [OF b]]
      by (simp add: owners_def owner_lists)
  qed
qed

section \<open>Every step keeps it\<close>

lemma set_up_handler:
  assumes "set_up s g cfg" and "rh_value (sv_mainHandler s) = Some (MainHandler mh)"
  shows "handler_runs g mh"
proof -
  obtain parse where "valid_config parse cfg" and "runs_config g cfg s" using assms(1) by (auto simp: set_up_def)
  with assms(2) show ?thesis
    unfolding handler_runs_def by (intro exI [of _ cfg] exI [of _ parse]) (simp add: runs_config_def serving_def)
qed

lemma ov_inv_serving: "ov_inv p \<Longrightarrow> list_all (handler_runs (pc_store p)) mhs \<Longrightarrow> ov_inv (p\<lparr>pc_serving := mhs\<rparr>)"
  by (auto simp: ov_inv_def in_order_def owners_def owner_lists)

lemma put_store_site: "put_store (st_store t) p = p\<lparr>pc_site := t\<rparr>" if "st_server t = pc_server p"
  using that by (cases t) (cases "pc_site p", simp add: put_store_def)

lemma ov_step_inv: "ov_step p p' \<Longrightarrow> ov_inv p \<Longrightarrow> ov_inv p'"
proof (induction rule: ov_step.induct)
  case (read p mh)
  then obtain cfg where "set_up (pc_server p) (pc_store p) cfg" "list_all (handler_runs (pc_store p)) (pc_serving p)"
    by (auto simp: ov_inv_def in_order_def)
  with read set_up_handler show ?case by (intro ov_inv_serving) auto
next
  case (served p xs mh ys env r w g w')
  then have "ov_inv (p\<lparr>pc_serving := xs @ ys\<rparr>)"
    by (intro ov_inv_serving) (auto simp: ov_inv_def in_order_def)
  from ov_inv_kept [OF this] main_kept [OF served(2)] show ?case by simp
next
  case (administered p r env w t w')
  obtain cfg where "set_up (pc_server p) (pc_store p) cfg"
    using administered(4) by (auto simp: ov_inv_def in_order_def)
  then obtain rules where "admin_wired rules (pc_server p)" using administered(1) by (auto simp: set_up_def)
  from administered(3) this obtain rec where "t = put_site_registry (map_option (Record rec) (site_registry (pc_site p))) (pc_site p)"
    using administered(2) by (cases rule: administered_cases) auto
  then have "p\<lparr>pc_site := t\<rparr> = put_store (st_store t) p" and "kept (pc_store p) (st_store t)"
    by (simp_all add: put_store_site put_site_registry_def)
  then show ?case using ov_inv_kept [OF administered(4)] by simp
next
  case (recorded p rec)
  then show ?case by (intro ov_inv_kept) simp_all
next
  case (ticked i p lab b)
  then show ?case by (intro ov_inv_kept ticked_kept)
next
  case (probed p now pr i k)
  then show ?case by (intro ov_inv_kept probed_kept)
qed (blast intro: ov_inv_prepared ov_inv_exchanged ov_inv_closing ov_inv_closes_proxy ov_inv_closes_bucket
  ov_inv_closes_done)+

lemma ov_inv_start:
  assumes "sys_inv t"
  shows "ov_inv (idle t)"
proof -
  obtain s g where t: "t = \<lparr>st_server = s, st_store = g\<rparr>" by (cases t)
  obtain cfg live where up: "set_up s g cfg" and run: "runs_exactly g (live_proxies live s) (live_buckets live s)"
    using assms sys_inv_iff t by blast
  have "points_into s g" using up by (simp add: set_up_def)
  then have "set (sv_proxyHandlers s) \<subseteq> {..<length (gw_proxies g)}"
    "set (List.map_filter id (sv_rateLimiters s)) \<subseteq> {..<length (gw_buckets g)}"
    by (auto simp: points_into_def list_all_iff in_map_filter_id) force
  then have "owners (idle t) live (live_proxies live s) (live_buckets live s)"
    by (auto simp: owners_def owner_lists idle_def t owned_def fits_def in_map_filter_id)
  with up run show ?thesis by (intro ov_invI) (auto simp: idle_def t in_order_def)
qed

lemma ov_reach_inv: "ov_reach p \<Longrightarrow> ov_inv p"
  by (induction rule: ov_reach.induct) (blast intro: ov_inv_start inv_started ov_step_inv)+

section \<open>Whole operations are sequences of steps\<close>

lemma closes_proxies:
  "pc_retired p = (ps, as) # ys \<Longrightarrow>
    ov_step\<^sup>*\<^sup>* p (put_store (fold close_proxy ps (pc_store p)) (p\<lparr>pc_retired := ([], as) # ys\<rparr>))"
proof (induction ps arbitrary: p)
  case Nil
  then have "put_store (fold close_proxy [] (pc_store p)) (p\<lparr>pc_retired := ([], as) # ys\<rparr>) = p"
    by (simp add: put_store_same)
  then show ?case by simp
next
  case (Cons i ps)
  let ?p = "put_store (close_proxy i (pc_store p)) (p\<lparr>pc_retired := (ps, as) # ys\<rparr>)"
  have "ov_step p ?p" using ov_step.closes_proxy [of p "[]" i ps as ys] Cons.prems by simp
  also have "ov_step\<^sup>*\<^sup>* ?p (put_store (fold close_proxy ps (pc_store ?p)) (?p\<lparr>pc_retired := ([], as) # ys\<rparr>))"
    by (rule Cons.IH) simp
  finally (converse_rtranclp_into_rtranclp) show ?case by (simp add: put_store_def)
qed

lemma closes_buckets:
  "pc_retired p = ([], as) # ys \<Longrightarrow>
    ov_step\<^sup>*\<^sup>* p (put_store (fold close_bucket as (pc_store p)) (p\<lparr>pc_retired := ys\<rparr>))"
proof (induction as arbitrary: p)
  case Nil
  have "put_store (fold close_bucket [] (pc_store p)) (p\<lparr>pc_retired := ys\<rparr>) = p\<lparr>pc_retired := ys\<rparr>"
    by (rule put_store_same) simp
  moreover have "ov_step p (p\<lparr>pc_retired := ys\<rparr>)" using ov_step.closes_done [of p "[]" ys] Nil by simp
  ultimately show ?case by (simp only: r_into_rtranclp)
next
  case (Cons a as)
  let ?p = "put_store (close_bucket a (pc_store p)) (p\<lparr>pc_retired := ([], as) # ys\<rparr>)"
  have "ov_step p ?p" using ov_step.closes_bucket [of p "[]" a as ys] Cons.prems by simp
  also have "ov_step\<^sup>*\<^sup>* ?p (put_store (fold close_bucket as (pc_store ?p)) (?p\<lparr>pc_retired := ys\<rparr>))"
    by (rule Cons.IH) simp
  finally (converse_rtranclp_into_rtranclp) show ?case by (simp add: put_store_def)
qed

lemma closes_all:
  assumes "pc_retired p = (ps, as) # ys"
  shows "ov_step\<^sup>*\<^sup>* p (put_store (fst (closeRuntimeResources ps as cs (pc_store p))) (p\<lparr>pc_retired := ys\<rparr>))"
proof -
  let ?p = "put_store (fold close_proxy ps (pc_store p)) (p\<lparr>pc_retired := ([], as) # ys\<rparr>)"
  have "ov_step\<^sup>*\<^sup>* p ?p" by (rule closes_proxies [OF assms])
  also have "ov_step\<^sup>*\<^sup>* ?p (put_store (fold close_bucket as (pc_store ?p)) (?p\<lparr>pc_retired := ys\<rparr>))"
    by (rule closes_buckets) simp
  finally show ?thesis by (simp add: put_store_def closeRuntimeResources_def)
qed

lemma reload_steps:
  assumes "Reload env files (pc_server p) (pc_store p) = (s, g, res)" and "\<And>q. res \<noteq> Inl (ReloadPanic q)"
  shows "ov_step\<^sup>*\<^sup>* p (p\<lparr>pc_site := \<lparr>st_server = s, st_store = g\<rparr>\<rparr>)"
  using assms(1)
proof (cases rule: Reload_cases)
  case (refused e)
  then show ?thesis unfolding refused(2,3) same_site by simp
next
  case (panicked q cfg n result)
  with assms(2) [of q] show ?thesis by simp
next
  case (replaced cfg g1 rt)
  let ?p1 = "put_store g1 (p\<lparr>pc_prepared := (cfg, rt) # pc_prepared p\<rparr>)"
  let ?p2 = "?p1\<lparr>pc_site := (pc_site ?p1)\<lparr>st_server := swap_runtime cfg rt (pc_server ?p1)\<rparr>,
      pc_prepared := pc_prepared p, pc_retired := held (pc_server ?p1) # pc_retired ?p1\<rparr>"
  let ?g = "fst (closeRuntimeResources (sv_proxyHandlers (pc_server p)) (sv_rateLimiters (pc_server p))
    (sv_healthCheckers (pc_server p)) (pc_store ?p2))"
  have 1: "ov_step\<^sup>*\<^sup>* p ?p1" using ov_step.prepared [OF replaced(1)] by (rule r_into_rtranclp)
  have 2: "ov_step\<^sup>*\<^sup>* ?p1 ?p2"
    using ov_step.exchanged [of ?p1 "[]" cfg rt "pc_prepared p"] by (simp add: r_into_rtranclp)
  have 3: "ov_step\<^sup>*\<^sup>* ?p2 (put_store ?g (?p2\<lparr>pc_retired := pc_retired p\<rparr>))"
    by (rule closes_all) (simp add: held_def)
  have "put_store ?g (?p2\<lparr>pc_retired := pc_retired p\<rparr>) = p\<lparr>pc_site := \<lparr>st_server = s, st_store = g\<rparr>\<rparr>"
    by (simp add: put_store_def replaced(5,6))
  with rtranclp_trans [OF 1 rtranclp_trans [OF 2 3]] show ?thesis by simp
qed

lemma closing_steps:
  assumes "CloseResource (pc_server p) (pc_store p) = (s, g)" and "sv_healthCheckers (pc_server p) = []"
  shows "s = pc_server p" and "ov_step\<^sup>*\<^sup>* p (put_store g p)"
proof -
  let ?p = "p\<lparr>pc_retired := held (pc_server p) # pc_retired p\<rparr>"
  show "s = pc_server p" using assms by (auto simp: CloseResource_def closeRuntimeResources_def)
  have "ov_step\<^sup>*\<^sup>* p ?p" using ov_step.closing by (rule r_into_rtranclp)
  also have "ov_step\<^sup>*\<^sup>* ?p (put_store (fst (closeRuntimeResources (sv_proxyHandlers (pc_server p))
      (sv_rateLimiters (pc_server p)) (sv_healthCheckers (pc_server p)) (pc_store ?p))) (?p\<lparr>pc_retired := pc_retired p\<rparr>))"
    by (rule closes_all) (simp add: held_def)
  finally show "ov_step\<^sup>*\<^sup>* p (put_store g p)"
    using assms by (auto simp: put_store_def CloseResource_def split_beta)
qed

lemma served_steps:
  assumes "rh_ServeHTTP env (sv_mainHandler (pc_server p)) r (pc_store p) w = Some (g, w')"
  shows "ov_step\<^sup>*\<^sup>* p (put_store g p)"
proof (cases "\<exists>mh. rh_value (sv_mainHandler (pc_server p)) = Some (MainHandler mh)")
  case True
  then obtain mh where mh: "rh_value (sv_mainHandler (pc_server p)) = Some (MainHandler mh)" by blast
  let ?p = "p\<lparr>pc_serving := mh # pc_serving p\<rparr>"
  have "ov_step p ?p" by (rule ov_step.read [OF mh])
  moreover have "ov_step ?p (put_store g (?p\<lparr>pc_serving := pc_serving p\<rparr>))"
    using ov_step.served [of ?p "[]" mh "pc_serving p" env r w g w'] assms mh by (simp add: rh_ServeHTTP_def)
  ultimately show ?thesis by (simp add: put_store_def)
next
  case False
  then have "g = pc_store p"
    using assms by (auto simp: rh_ServeHTTP_def not_found_def split: option.splits stored_handler.splits)
  then show ?thesis by (simp add: put_store_same)
qed

lemma ov_reach_steps: "ov_step\<^sup>*\<^sup>* p p' \<Longrightarrow> ov_reach p \<Longrightarrow> ov_reach p'"
  by (induction rule: rtranclp_induct) (blast intro: ov_reach.step)+

lemma idle_steps: "ov_step\<^sup>*\<^sup>* (idle t) ((idle t)\<lparr>pc_site := t'\<rparr>) \<Longrightarrow> ov_step\<^sup>*\<^sup>* (idle t) (idle t')"
  by (simp add: idle_def)

lemma sys_step_steps:
  assumes "sys_inv t" and "sys_step t t'"
  shows "ov_step\<^sup>*\<^sup>* (idle t) (idle t')"
proof -
  let ?p = "idle t"
  have [simp]: "pc_site ?p = t" by (simp add: idle_def)
  have store: "?p\<lparr>pc_site := t\<lparr>st_store := g\<rparr>\<rparr> = put_store g ?p" for g by (simp add: put_store_def)
  from assms(2) have "ov_step\<^sup>*\<^sup>* ?p (?p\<lparr>pc_site := t'\<rparr>)"
  proof (cases rule: sys_step.cases)
    case (served env r w g w')
    then show ?thesis using served_steps [of env ?p r w g w'] by (simp add: store)
  next
    case (administered env r w w')
    obtain rules where "admin_wired rules (st_server t)" using assms(1) administered(1) by (auto simp: sys_inv_def Let_def)
    with administered(2) show ?thesis
    proof (cases rule: administered_cases)
      case (nothing rec)
      then show ?thesis
        using ov_step.recorded [of ?p rec]
        by (simp add: put_site_registry_def site_registry_def store r_into_rtranclp)
    next
      case (reload rec t1 res)
      let ?p1 = "?p\<lparr>pc_site := t1\<rparr>"
      have "ov_step\<^sup>*\<^sup>* ?p ?p1" using reload_steps [of _ _ ?p _ _ res] reload(3,4) by (cases t1) simp
      also have "ov_step ?p1 (?p1\<lparr>pc_site := t'\<rparr>)"
        using ov_step.recorded [of ?p1 rec] by (simp add: reload(2) put_site_registry_def site_registry_def put_store_def)
      finally show ?thesis by simp
    qed
  next
    case (reloaded benv files s g res)
    then show ?thesis using reload_steps [of benv files ?p s g res] by simp
  next
    case (closed s g)
    have "sv_healthCheckers (st_server t) = []" using assms(1) by (auto simp: sys_inv_def Let_def runs_config_def)
    with closed closing_steps [of ?p s g] show ?thesis by (simp add: put_store_def) (cases t; simp)
  next
    case (ticked i lab b)
    then show ?thesis using ov_step.ticked [of i ?p lab b] by (simp add: store r_into_rtranclp)
  next
    case (probed now pr i k)
    then show ?thesis using ov_step.probed [of ?p now pr i k] by (simp add: store r_into_rtranclp)
  qed
  then show ?thesis by (rule idle_steps)
qed

lemma ov_reach_idle: "sys_reach t \<Longrightarrow> ov_reach (idle t)"
proof (induction rule: sys_reach.induct)
  case (step t t')
  then show ?case using sys_step_steps sys_reach_inv ov_reach_steps by blast
qed (blast intro: ov_reach.start)

section \<open>Properties\<close>

text \<open>Who has an object: the server, until a closing has begun, or a reload that is under way; or a closing.\<close>

definition proxy_kept :: "process \<Rightarrow> bool \<Rightarrow> nat \<Rightarrow> bool" where
  "proxy_kept p live i \<longleftrightarrow> live \<and> i \<in> set (sv_proxyHandlers (pc_server p)) \<or>
     (\<exists>(cfg, rt) \<in> set (pc_prepared p). i \<in> set (rb_proxyHandlers rt))"

definition bucket_kept :: "process \<Rightarrow> bool \<Rightarrow> nat \<Rightarrow> bool" where
  "bucket_kept p live i \<longleftrightarrow> live \<and> Some i \<in> set (sv_rateLimiters (pc_server p)) \<or>
     (\<exists>(cfg, rt) \<in> set (pc_prepared p). Some i \<in> set (rb_rateLimiters rt))"

definition proxy_leaving :: "process \<Rightarrow> nat \<Rightarrow> bool" where
  "proxy_leaving p i \<longleftrightarrow> (\<exists>(ps, as) \<in> set (pc_retired p). i \<in> set ps)"

definition bucket_leaving :: "process \<Rightarrow> nat \<Rightarrow> bool" where
  "bucket_leaving p i \<longleftrightarrow> (\<exists>(ps, as) \<in> set (pc_retired p). Some i \<in> set as)"

text \<open>The checks of a proxy run, or have been stopped.\<close>

definition checks_done :: "bool \<Rightarrow> proxyHandler \<Rightarrow> bool" where
  "checks_done d h \<longleftrightarrow> (\<forall>u \<in> set (h_upstreams h). \<forall>c. up_activeHealth u = Some c \<longrightarrow> hc_done c = d)"

lemma kept_among:
  "proxy_kept p live i \<longleftrightarrow> among (prepared_proxies p) i \<or> live \<and> i \<in> set (sv_proxyHandlers (pc_server p))"
  "bucket_kept p live i \<longleftrightarrow> among (prepared_buckets p) i \<or> live \<and> i \<in> set (List.map_filter id (sv_rateLimiters (pc_server p)))"
  "proxy_leaving p i \<longleftrightarrow> among (map fst (pc_retired p)) i" "bucket_leaving p i \<longleftrightarrow> among (retired_buckets p) i"
  unfolding proxy_kept_def bucket_kept_def proxy_leaving_def bucket_leaving_def among_def owner_lists in_map_filter_id
  by (auto simp: in_map_filter_id split_beta)

lemma owned_says:
  assumes "owned run n live cur prep ret" and "i < n"
  shows "among prep i \<or> live \<and> i \<in> set cur \<Longrightarrow> run i \<and> \<not> among ret i"
    and "\<not> (among prep i \<or> live \<and> i \<in> set cur) \<Longrightarrow> \<not> among ret i \<Longrightarrow> \<not> run i"
  using owned_fits [OF assms(1), of i] assms(2) unfolding fits_def by blast+

lemma owners_say:
  assumes "ov_inv p"
  shows "\<exists>live.
    (\<forall>i < length (gw_buckets (pc_store p)). tb_inv (gw_buckets (pc_store p) ! i) \<and>
      (bucket_kept p live i \<longrightarrow> \<not> tb_done (gw_buckets (pc_store p) ! i) \<and> \<not> bucket_leaving p i) \<and>
      (\<not> bucket_kept p live i \<and> \<not> bucket_leaving p i \<longrightarrow> tb_done (gw_buckets (pc_store p) ! i))) \<and>
    (\<forall>i < length (gw_proxies (pc_store p)). h_inv (gw_proxies (pc_store p) ! i) \<and>
      (proxy_kept p live i \<longrightarrow> checks_done False (gw_proxies (pc_store p) ! i) \<and> \<not> proxy_leaving p i) \<and>
      (\<not> proxy_kept p live i \<and> \<not> proxy_leaving p i \<longrightarrow> checks_done True (gw_proxies (pc_store p) ! i)))"
  using assms
proof (rule ov_invE)
  fix live P B assume run: "runs_exactly (pc_store p) P B" and own: "owners p live P B"
  have P: "h_inv (gw_proxies (pc_store p) ! i) \<and> checks_done (\<not> P i) (gw_proxies (pc_store p) ! i)"
    if "i < length (gw_proxies (pc_store p))" for i
    using run that by (auto simp: runs_exactly_def checks_done_def list_all_iff option.pred_set)
  have B: "tb_inv (gw_buckets (pc_store p) ! i) \<and> tb_done (gw_buckets (pc_store p) ! i) = (\<not> B i)"
    if "i < length (gw_buckets (pc_store p))" for i
    using run that by (auto simp: runs_exactly_def)
  note says = own [unfolded owners_def, THEN conjunct1, THEN owned_says(1)]
    own [unfolded owners_def, THEN conjunct1, THEN owned_says(2)]
    own [unfolded owners_def, THEN conjunct2, THEN owned_says(1)]
    own [unfolded owners_def, THEN conjunct2, THEN owned_says(2)]
  show ?thesis
    unfolding kept_among using P B says by (intro exI [of _ live] conjI allI impI) fastforce+
qed



text \<open>
  C12: Whole requests, reloads and closings are sequences of these steps: whatever the process does when
  nothing overlaps it also does in the detailed model, and ends in the same state with nothing under way.
\<close>

theorem whole_operations_are_steps:
  assumes "sys_reach t"
  shows "ov_reach (idle t) \<and> (\<forall>t'. sys_step t t' \<longrightarrow> ov_step\<^sup>*\<^sup>* (idle t) (idle t'))"
  using ov_reach_idle assms sys_step_steps sys_reach_inv by blast

text \<open>
  C30: Closing misses a reload that is under way: a runtime that has been prepared and not exchanged when
  \<open>CloseResource\<close> copies the lists is in none of them. All its checks and limiters run when the closing
  has finished, the exchange still goes through, and then the closed server serves from it.
\<close>

theorem closing_misses_a_reload:
  assumes "ov_reach p" and "(cfg, rt) \<in> set (pc_prepared p)" and "CloseResource (pc_server p) (pc_store p) = (s, g)"
  shows "\<exists>p'. ov_step\<^sup>*\<^sup>* p (put_store g p) \<and> ov_step (put_store g p) p' \<and> sv_currentConfig (pc_server p') = Some cfg
    \<and> rh_value (sv_mainHandler (pc_server p')) = Some (MainHandler (rb_handler rt))
    \<and> (\<forall>i \<in> set (sv_proxyHandlers (pc_server p')). checks_done False (gw_proxies (pc_store p') ! i))
    \<and> (\<forall>i. Some i \<in> set (sv_rateLimiters (pc_server p')) \<longrightarrow> \<not> tb_done (gw_buckets (pc_store p') ! i))"
proof -
  let ?p = "put_store g p"
  obtain cfg0 where "set_up (pc_server p) (pc_store p) cfg0"
    using ov_reach_inv [OF assms(1)] by (auto simp: ov_inv_def in_order_def)
  then have none: "sv_healthCheckers (pc_server p) = []" by (simp add: set_up_def runs_config_def)
  have steps: "ov_step\<^sup>*\<^sup>* p ?p" by (rule closing_steps(2) [OF assms(3) none])
  have inv: "ov_inv ?p" using ov_reach_inv ov_reach_steps steps assms(1) by blast
  obtain xs ys where e: "pc_prepared ?p = xs @ (cfg, rt) # ys" using assms(2) split_list by fastforce
  note step = ov_step.exchanged [OF e]
  have "set_up (swap_runtime cfg rt (pc_server ?p)) (pc_store ?p) cfg"
    using inv assms(2) by (auto simp: ov_inv_def in_order_def ready_def list_all_iff)
  then have "points_into (swap_runtime cfg rt (pc_server ?p)) (pc_store ?p)" by (simp add: set_up_def)
  then have in_store: "i \<in> set (rb_proxyHandlers rt) \<Longrightarrow> i < length (gw_proxies g)"
    "Some i \<in> set (rb_rateLimiters rt) \<Longrightarrow> i < length (gw_buckets g)" for i
    by (auto simp: points_into_def swap_runtime_def list_all_iff)
  have kept: "i \<in> set (rb_proxyHandlers rt) \<Longrightarrow> proxy_kept ?p live i"
    "Some i \<in> set (rb_rateLimiters rt) \<Longrightarrow> bucket_kept ?p live i" for live i
    using assms(2) by (auto simp: proxy_kept_def bucket_kept_def)
  have on: "i \<in> set (rb_proxyHandlers rt) \<Longrightarrow> checks_done False (gw_proxies g ! i)"
    "Some i \<in> set (rb_rateLimiters rt) \<Longrightarrow> \<not> tb_done (gw_buckets g ! i)" for i
    using owners_say [OF inv] kept [of i] in_store [of i] by fastforce+
  show ?thesis
  proof (intro exI conjI)
    show "ov_step\<^sup>*\<^sup>* p ?p" by (rule steps)
    show "ov_step ?p (?p\<lparr>pc_site := (pc_site ?p)\<lparr>st_server := swap_runtime cfg rt (pc_server ?p)\<rparr>,
      pc_prepared := xs @ ys, pc_retired := held (pc_server ?p) # pc_retired ?p\<rparr>)" by (rule step)
  qed (use on in \<open>simp_all add: swap_runtime_def rh_Store_def\<close>)
qed

lemma demo_prepared:
  obtains p rt where "ov_reach p" and "(demo_config, rt) \<in> set (pc_prepared p)"
proof -
  obtain t where t: "sys_reach t" "sv_configPath (st_server t) = ''gateway.json''"
    "settings_in (st_server t) = settings_of demo_config" using demo_reached .
  have v: "valid_config (be_parse demo_build) demo_config" using demo_config_valid by simp
  have l: "list_all literal_pattern (config_patterns demo_config)" unfolding demo_patterns by code_simp
  have d: "distinct (config_patterns demo_config)" by (simp add: demo_patterns)
  from buildRuntime_literal [OF v demo_rules_literal l, of "st_store t"] d
  obtain g rt where b: "buildRuntime demo_build demo_config (st_store t) = (g, Inr rt)" by auto
  have "Load (le_read demo_files) (le_unmarshal demo_files) (le_lookup demo_files) (be_parse demo_build) ''gateway.json'' =
      Inr demo_config" using demo_loads by (simp add: demo_files_def)
  moreover have "validateReloadConfig (st_server t) demo_config = None" using t(3) validateReloadConfig_iff by simp
  ultimately have "prepare_reload demo_build demo_files (pc_server (idle t)) (pc_store (idle t)) = (g, Inr (demo_config, rt))"
    using t(2) b by (simp add: prepare_reload_def idle_def)
  from ov_step.prepared [OF this]
  have "ov_reach (put_store g ((idle t)\<lparr>pc_prepared := (demo_config, rt) # pc_prepared (idle t)\<rparr>))"
    using ov_reach_idle [OF t(1)] ov_reach.step by blast
  then show ?thesis by (rule that [of _ rt]) simp
qed



theorem whole_operations_are_steps_witness:
  "\<exists>t. sys_reach t \<and> ov_reach (idle t)"
proof -
  obtain t where "sys_reach t" using demo_reached .
  with whole_operations_are_steps [OF this] show ?thesis by blast
qed

theorem closing_misses_a_reload_witness:
  "\<exists>p g p' rt. ov_reach p \<and> CloseResource (pc_server p) (pc_store p) = (pc_server p, g) \<and>
    ov_step (put_store g p) p' \<and> sv_currentConfig (pc_server p') = Some demo_config"
proof -
  obtain p rt where p: "ov_reach p" "(demo_config, rt) \<in> set (pc_prepared p)" using demo_prepared .
  obtain s g where c: "CloseResource (pc_server p) (pc_store p) = (s, g)" by (metis surj_pair)
  obtain cfg where "set_up (pc_server p) (pc_store p) cfg"
    using ov_reach_inv [OF p(1)] by (auto simp: ov_inv_def in_order_def)
  then have "s = pc_server p" by (intro closing_steps(1) [OF c]) (simp add: set_up_def runs_config_def)
  with closing_misses_a_reload [OF p c] p(1) c show ?thesis by blast
qed

end
