(* ===== verification/In_Flight.thy ===== *)
theory In_Flight
  imports Overlap
begin

text \<open>
  Requests in flight. The main handler of \<^verbatim>\<open>Gateway\<close> serves a request in one go; here it is cut into the
  calls that are atomic in the program (each of them holds a lock or is one channel operation), so that
  they can interleave with other requests and with everything else (\<^verbatim>\<open>Interleaved\<close>). A request alone does
  exactly what the handler does.
\<close>

section \<open>A request as a list of calls\<close>

text \<open>
  What is left to do, in order: \<open>GiveBack\<close> is the deferred \<^verbatim>\<open>Release\<close>, \<open>Log\<close> what the access log does
  after the handler; it keeps the request as it came. A page of an error or of a system route ends
  the handler, and only these two are done then.
\<close>

datatype work =
    AskRate "nat option"
  | AskPlace "nat option"
  | SetDeadline duration
  | FindRoute mux "routeRuntime list"
  | NameRoute string
  | Choose nat
  | Await nat http_request
  | GiveBack nat
  | Log http_request

fun deferred :: "work \<Rightarrow> bool" where
  "deferred (GiveBack i) = True"
| "deferred (Log r) = True"
| "deferred x = False"

definition unwind :: "work list \<Rightarrow> work list" where
  "unwind todo = dropWhile (\<lambda>x. \<not> deferred x) todo"

definition defer_work :: "work \<Rightarrow> work list \<Rightarrow> work list" where
  "defer_work x todo = takeWhile (\<lambda>x. \<not> deferred x) todo @ x # unwind todo"

record thread =
  th_todo :: "work list"
  th_request :: http_request
  th_writer :: writer

definition main_thread :: "mainHandler \<Rightarrow> http_request \<Rightarrow> writer \<Rightarrow> thread" where
  "main_thread mh r w = \<lparr>th_todo = [AskRate (mh_rate mh), AskPlace (mh_concurrency mh), SetDeadline (mh_timeout mh),
     FindRoute (mh_mux mh) (mh_routes mh), Log r], th_request = r, th_writer = newStatusRecorder w\<rparr>"

text \<open>The calls on the limiters, the mux and the proxy.\<close>

definition ask_rate :: "nat option \<Rightarrow> work list \<Rightarrow> http_request \<Rightarrow> gateway \<Rightarrow> writer \<Rightarrow> gateway \<times> thread" where
  "ask_rate a todo r g w =
     (if get_at gw_buckets a g = None then (g, \<lparr>th_todo = todo, th_request = r, th_writer = w\<rparr>)
      else (let (ok, l) = tb_Allow (get_at gw_buckets a g)
            in (put_bucket a l g,
                if \<not> ok then \<lparr>th_todo = unwind todo, th_request = r,
                               th_writer = http_Error ''rate limit exceeded'' 429 (plain_text w)\<rparr>
                else \<lparr>th_todo = todo, th_request = r, th_writer = w\<rparr>)))"

definition ask_place :: "nat option \<Rightarrow> work list \<Rightarrow> http_request \<Rightarrow> gateway \<Rightarrow> writer \<Rightarrow> gateway \<times> thread" where
  "ask_place a todo r g w =
     (case a of
        None \<Rightarrow> (g, \<lparr>th_todo = todo, th_request = r, th_writer = w\<rparr>)
      | Some i \<Rightarrow>
          (let (ok, l) = tryAcquire (get_at gw_semaphores a g)
           in (put_semaphore a l g,
               if \<not> ok then \<lparr>th_todo = unwind todo, th_request = r,
                              th_writer = http_Error ''concurrency limit exceeded'' 503 (plain_text w)\<rparr>
               else \<lparr>th_todo = defer_work (GiveBack i) todo, th_request = r, th_writer = w\<rparr>)))"

fun find_route ::
    "serve_env \<Rightarrow> routeRuntime list \<Rightarrow> mux_target option \<Rightarrow> work list \<Rightarrow> http_request \<Rightarrow> writer \<Rightarrow> thread" where
  "find_route env routes (Some (ProxyRoute i)) todo r w =
     (let rr = routes ! i
      in \<lparr>th_todo = [NameRoute (rr_id rr), AskRate (rr_rateLimiter rr), AskPlace (rr_concurrencyLimiter rr),
            Choose (rr_proxyHandler rr)] @ todo, th_request = r, th_writer = w\<rparr>)"
| "find_route env routes (Some t) todo r w = \<lparr>th_todo = unwind todo, th_request = r,
     th_writer = (case target_handler env routes t r no_objects w of None \<Rightarrow> w | Some (s, w') \<Rightarrow> w')\<rparr>"
| "find_route env routes None todo r w = \<lparr>th_todo = unwind todo, th_request = r,
     th_writer = http_Error ''404 page not found'' 404 w\<rparr>"

definition choose_upstream :: "serve_env \<Rightarrow> nat \<Rightarrow> work list \<Rightarrow> http_request \<Rightarrow> gateway \<Rightarrow> writer \<Rightarrow> gateway \<times> thread" where
  "choose_upstream env ptr todo r g w =
     (case serve_select (se_now env) r (gw_proxies g ! ptr) w of
        (h, Inl w') \<Rightarrow> (put_proxy ptr h g, \<lparr>th_todo = unwind todo, th_request = r, th_writer = w'\<rparr>)
      | (h, Inr inreq) \<Rightarrow>
          (let (h', out) = rewriteRequest (se_now env) (se_nanos env) h inreq (se_prepare env inreq)
           in (put_proxy ptr h' g, \<lparr>th_todo = Await ptr out # todo, th_request = r, th_writer = w\<rparr>)))"

definition await :: "serve_env \<Rightarrow> nat \<Rightarrow> http_request \<Rightarrow> work list \<Rightarrow> http_request \<Rightarrow> gateway \<Rightarrow> writer \<Rightarrow> gateway \<times> thread" where
  "await env ptr out todo r g w =
     (let (informs, reply) = se_backend env out;
          (h, w') = serve_reply (se_later env) out informs reply (gw_proxies g ! ptr) w
      in (put_proxy ptr h g, \<lparr>th_todo = todo, th_request = r, th_writer = w'\<rparr>))"

text \<open>The access log; a handler that lost its recorder never gets here.\<close>

definition log_request :: "serve_env \<Rightarrow> http_request \<Rightarrow> work list \<Rightarrow> http_request \<Rightarrow> gateway \<Rightarrow> writer \<Rightarrow> gateway \<times> thread" where
  "log_request env r0 todo r g w =
     (case accessLogMiddleware gw_registry put_registry (se_cost env) (\<lambda>_ s _. Some (s, w)) r0 g w of
        Some (g', w') \<Rightarrow> (g', \<lparr>th_todo = todo, th_request = r, th_writer = w'\<rparr>)
      | None \<Rightarrow> (g, \<lparr>th_todo = Log r0 # todo, th_request = r, th_writer = w\<rparr>))"

fun perform :: "serve_env \<Rightarrow> work \<Rightarrow> work list \<Rightarrow> http_request \<Rightarrow> gateway \<Rightarrow> writer \<Rightarrow> gateway \<times> thread" where
  "perform env (AskRate a) todo r g w = ask_rate a todo r g w"
| "perform env (AskPlace a) todo r g w = ask_place a todo r g w"
| "perform env (SetDeadline timeout) todo r g w =
     (g, \<lparr>th_todo = todo, th_request = r\<lparr>rq_Context := (rq_Context r)\<lparr>ctx_deadline :=
       Some (case ctx_deadline (rq_Context r) of None \<Rightarrow> se_start env + timeout
         | Some d \<Rightarrow> min d (se_start env + timeout))\<rparr>\<rparr>, th_writer = w\<rparr>)"
| "perform env (FindRoute m routes) todo r g w =
     (case se_own env m r of
        Some own \<Rightarrow> (g, \<lparr>th_todo = unwind todo, th_request = r, th_writer = fold run_op own w\<rparr>)
      | None \<Rightarrow> (g, find_route env routes (mux_match m (url_Path (rq_URL r))) todo r w))"
| "perform env (NameRoute routeID) todo r g w =
     (case setRouteIDToResponseWriter routeID (Some w) of
        Some (Some w') \<Rightarrow> (g, \<lparr>th_todo = todo,
          th_request = r\<lparr>rq_Context := (rq_Context r)\<lparr>ctx_routeID := Some routeID\<rparr>\<rparr>, th_writer = w'\<rparr>)
      | _ \<Rightarrow> (g, \<lparr>th_todo = NameRoute routeID # todo, th_request = r, th_writer = w\<rparr>))"
| "perform env (Choose ptr) todo r g w = choose_upstream env ptr todo r g w"
| "perform env (Await ptr out) todo r g w = await env ptr out todo r g w"
| "perform env (GiveBack i) todo r g w =
     (put_semaphore (Some i) (release (get_at gw_semaphores (Some i) g)) g,
      \<lparr>th_todo = todo, th_request = r, th_writer = w\<rparr>)"
| "perform env (Log r0) todo r g w = log_request env r0 todo r g w"

section \<open>A request alone\<close>

inductive alone :: "serve_env \<Rightarrow> gateway \<times> thread \<Rightarrow> gateway \<times> thread \<Rightarrow> bool" for env where
  call: "alone env (g, \<lparr>th_todo = x # todo, th_request = r, th_writer = w\<rparr>) (perform env x todo r g w)"

abbreviation thr :: "work list \<Rightarrow> http_request \<Rightarrow> writer \<Rightarrow> thread" where
  "thr todo r w \<equiv> \<lparr>th_todo = todo, th_request = r, th_writer = w\<rparr>"

text \<open>
  Work that does, in front of what is deferred, what a handler does, where the gateway has \<open>n\<close> proxy
  handlers.
\<close>

definition does :: "serve_env \<Rightarrow> nat \<Rightarrow> work list \<Rightarrow> gateway handler \<Rightarrow> bool" where
  "does env n todo h \<longleftrightarrow> (\<forall>r g w g' w' rest. unwind rest = rest \<longrightarrow> length (gw_proxies g) = n \<longrightarrow>
     h r g w = Some (g', w') \<longrightarrow>
     (\<exists>r'. (alone env)\<^sup>*\<^sup>* (g, thr (todo @ rest) r w) (g', thr rest r' w')))"

lemma doesI:
  "(\<And>r g w g' w' rest. unwind rest = rest \<Longrightarrow> length (gw_proxies g) = n \<Longrightarrow> h r g w = Some (g', w') \<Longrightarrow>
     \<exists>r'. (alone env)\<^sup>*\<^sup>* (g, thr (todo @ rest) r w) (g', thr rest r' w')) \<Longrightarrow> does env n todo h"
  by (simp add: does_def)

lemma doesD:
  "does env n todo h \<Longrightarrow> unwind rest = rest \<Longrightarrow> h r g w = Some (g', w') \<Longrightarrow> length (gw_proxies g) = n \<Longrightarrow>
    \<exists>r'. (alone env)\<^sup>*\<^sup>* (g, thr (todo @ rest) r w) (g', thr rest r' w')"
  unfolding does_def by (elim allE impE) assumption+

lemma put_keeps_proxies [simp]:
  "gw_proxies (put_bucket a b g) = gw_proxies g" "gw_proxies (put_semaphore a l g) = gw_proxies g"
  by (simp_all add: put_bucket_def put_semaphore_def split: option.split)

lemma alone_first:
  assumes "perform env x todo r g w = (g1, t1)" and "(alone env)\<^sup>*\<^sup>* (g1, t1) s"
  shows "(alone env)\<^sup>*\<^sup>* (g, thr (x # todo) r w) s"
  using alone.call [of env g x todo r w] assms by (simp add: converse_rtranclp_into_rtranclp)

lemma alone_then:
  "perform env x todo r g w = (g1, t1) \<Longrightarrow> \<exists>r'. (alone env)\<^sup>*\<^sup>* (g1, t1) (g', thr rest r' w') \<Longrightarrow>
    \<exists>r'. (alone env)\<^sup>*\<^sup>* (g, thr (x # todo) r w) (g', thr rest r' w')"
  by (elim exE, rule exI, rule alone_first)

lemma alone_one: "perform env x todo r g w = s \<Longrightarrow> (alone env)\<^sup>*\<^sup>* (g, thr (x # todo) r w) s"
  using alone.call [of env g x todo r w] by auto

definition inside :: "work list \<Rightarrow> bool" where
  "inside todo \<longleftrightarrow> list_all (\<lambda>x. \<not> deferred x) todo"

lemma unwind_inside: "inside todo \<Longrightarrow> unwind (todo @ rest) = unwind rest"
  unfolding inside_def unwind_def by (induction todo) auto

lemma take_inside: "inside todo \<Longrightarrow> unwind rest = rest \<Longrightarrow> takeWhile (\<lambda>x. \<not> deferred x) (todo @ rest) = todo"
  unfolding inside_def unwind_def
  by (induction todo) (auto simp: dropWhile_eq_self_iff takeWhile_eq_Nil_iff)

lemma unwind_simps [simp]:
  "unwind [] = []" "unwind (GiveBack i # rest) = GiveBack i # rest" "unwind (Log r # rest) = Log r # rest"
  "unwind (AskRate a # rest) = unwind rest" "unwind (AskPlace a # rest) = unwind rest"
  "unwind (Choose p # rest) = unwind rest" "unwind (SetDeadline t # rest) = unwind rest"
  by (simp_all add: unwind_def)

text \<open>The two middlewares, case by case.\<close>

lemma rate_cases:
  "get_at gw_buckets a g = None \<Longrightarrow> rate_limited a h r g w = h r g w"
  "get_at gw_buckets a g \<noteq> None \<Longrightarrow> tb_Allow (get_at gw_buckets a g) = (True, l) \<Longrightarrow>
    rate_limited a h r g w = h r (put_bucket a l g) w"
  "get_at gw_buckets a g \<noteq> None \<Longrightarrow> tb_Allow (get_at gw_buckets a g) = (False, l) \<Longrightarrow>
    rate_limited a h r g w = Some (put_bucket a l g, http_Error ''rate limit exceeded'' 429 (plain_text w))"
  by (simp_all add: rate_limited_def ratelimit_Middleware_def del: tb_Allow.simps not_None_eq)

lemma slot_cases:
  "slot_limited None h r g w = h r g w"
  "tryAcquire (get_at gw_semaphores (Some i) g) = (True, l) \<Longrightarrow>
    slot_limited (Some i) h r g w = map_option
      (\<lambda>(g2, w2). (put_semaphore (Some i) (release (get_at gw_semaphores (Some i) g2)) g2, w2))
      (h r (put_semaphore (Some i) l g) w)"
  "tryAcquire (get_at gw_semaphores (Some i) g) = (False, l) \<Longrightarrow>
    slot_limited (Some i) h r g w =
      Some (put_semaphore (Some i) l g, http_Error ''concurrency limit exceeded'' 503 (plain_text w))"
  by (auto simp: slot_limited_def concurrency_Middleware_def get_at_def simp del: tryAcquire.simps split: option.splits)

lemma ask_rate_cases:
  "get_at gw_buckets a g = None \<Longrightarrow> perform env (AskRate a) todo r g w = (g, thr todo r w)"
  "get_at gw_buckets a g \<noteq> None \<Longrightarrow> tb_Allow (get_at gw_buckets a g) = (True, l) \<Longrightarrow>
    perform env (AskRate a) todo r g w = (put_bucket a l g, thr todo r w)"
  "get_at gw_buckets a g \<noteq> None \<Longrightarrow> tb_Allow (get_at gw_buckets a g) = (False, l) \<Longrightarrow>
    perform env (AskRate a) todo r g w =
      (put_bucket a l g, thr (unwind todo) r (http_Error ''rate limit exceeded'' 429 (plain_text w)))"
  by (simp_all add: ask_rate_def del: tb_Allow.simps not_None_eq)

lemma ask_place_cases:
  "perform env (AskPlace None) todo r g w = (g, thr todo r w)"
  "tryAcquire (get_at gw_semaphores (Some i) g) = (True, l) \<Longrightarrow>
    perform env (AskPlace (Some i)) todo r g w =
      (put_semaphore (Some i) l g, thr (defer_work (GiveBack i) todo) r w)"
  "tryAcquire (get_at gw_semaphores (Some i) g) = (False, l) \<Longrightarrow>
    perform env (AskPlace (Some i)) todo r g w =
      (put_semaphore (Some i) l g, thr (unwind todo) r (http_Error ''concurrency limit exceeded'' 503 (plain_text w)))"
  by (simp_all add: ask_place_def del: tryAcquire.simps)

lemma does_rate:
  assumes "does env n todo h" and "inside todo"
  shows "does env n (AskRate a # todo) (rate_limited a h)"
proof (rule doesI)
  fix r g w g' w' and rest :: "work list"
  assume rest: "unwind rest = rest" and n: "length (gw_proxies g) = n" and h: "rate_limited a h r g w = Some (g', w')"
  obtain ok l where a: "tb_Allow (get_at gw_buckets a g) = (ok, l)" by (metis surj_pair)
  consider "get_at gw_buckets a g = None" | "get_at gw_buckets a g \<noteq> None" "ok" | "get_at gw_buckets a g \<noteq> None" "\<not> ok"
    by blast
  then have "\<exists>r'. (alone env)\<^sup>*\<^sup>* (g, thr (AskRate a # (todo @ rest)) r w) (g', thr rest r' w')"
  proof cases
    case 1
    from h have "h r g w = Some (g', w')" unfolding rate_cases(1) [OF 1] .
    from alone_then [OF ask_rate_cases(1) [OF 1] doesD [OF assms(1) rest this n]] show ?thesis .
  next
    case 2
    with a have a: "tb_Allow (get_at gw_buckets a g) = (True, l)" by simp
    from h have "h r (put_bucket a l g) w = Some (g', w')" unfolding rate_cases(2) [OF 2(1) a] .
    from alone_then [OF ask_rate_cases(2) [OF 2(1) a] doesD [OF assms(1) rest this]] n show ?thesis by simp
  next
    case 3
    with a have a: "tb_Allow (get_at gw_buckets a g) = (False, l)" by simp
    from h have "g' = put_bucket a l g" "w' = http_Error ''rate limit exceeded'' 429 (plain_text w)"
      unfolding rate_cases(3) [OF 3(1) a] by auto
    with alone_one [OF ask_rate_cases(3) [OF 3(1) a], of env "todo @ rest" r w] show ?thesis
      by (auto simp only: unwind_inside [OF assms(2)] rest)
  qed
  then show "\<exists>r'. (alone env)\<^sup>*\<^sup>* (g, thr ((AskRate a # todo) @ rest) r w) (g', thr rest r' w')"
    by (simp only: append_Cons)
qed

lemma does_place:
  assumes "does env n todo h" and "inside todo"
  shows "does env n (AskPlace a # todo) (slot_limited a h)"
proof (rule doesI)
  fix r g w g' w' and rest :: "work list"
  assume rest: "unwind rest = rest" and n: "length (gw_proxies g) = n" and h: "slot_limited a h r g w = Some (g', w')"
  have "\<exists>r'. (alone env)\<^sup>*\<^sup>* (g, thr (AskPlace a # (todo @ rest)) r w) (g', thr rest r' w')"
  proof (cases a)
    case None
    from h have "h r g w = Some (g', w')" unfolding None slot_cases(1) .
    from alone_then [OF ask_place_cases(1) doesD [OF assms(1) rest this n]] show ?thesis unfolding None .
  next
    case (Some i)
    obtain ok l where a: "tryAcquire (get_at gw_semaphores (Some i) g) = (ok, l)" by (metis surj_pair)
    show ?thesis
    proof (cases ok)
      case False
      with a have a: "tryAcquire (get_at gw_semaphores (Some i) g) = (False, l)" by simp
      from h have "g' = put_semaphore (Some i) l g"
          "w' = http_Error ''concurrency limit exceeded'' 503 (plain_text w)"
        unfolding Some slot_cases(3) [OF a] by auto
      with alone_one [OF ask_place_cases(3) [OF a], of env "todo @ rest" r w] Some show ?thesis
        by (auto simp only: unwind_inside [OF assms(2)] rest)
    next
      case True
      with a have a: "tryAcquire (get_at gw_semaphores (Some i) g) = (True, l)" by simp
      let ?rest = "GiveBack i # rest"
      have "defer_work (GiveBack i) (todo @ rest) = todo @ ?rest"
        by (simp add: defer_work_def take_inside [OF assms(2) rest] unwind_inside [OF assms(2)] rest)
      with ask_place_cases(2) [OF a]
      have p: "perform env (AskPlace (Some i)) (todo @ rest) r g w = (put_semaphore (Some i) l g, thr (todo @ ?rest) r w)"
        by simp
      obtain g2 where inner: "h r (put_semaphore (Some i) l g) w = Some (g2, w')"
        and g': "g' = put_semaphore (Some i) (release (get_at gw_semaphores (Some i) g2)) g2"
        using h unfolding Some slot_cases(2) [OF a] by auto
      obtain r' where s: "(alone env)\<^sup>*\<^sup>* (put_semaphore (Some i) l g, thr (todo @ ?rest) r w) (g2, thr ?rest r' w')"
        using doesD [OF assms(1) unwind_simps(2) inner] n by auto
      have "(alone env)\<^sup>*\<^sup>* (g2, thr ?rest r' w') (g', thr rest r' w')"
        by (rule alone_one) (simp add: g')
      with s have "(alone env)\<^sup>*\<^sup>* (put_semaphore (Some i) l g, thr (todo @ ?rest) r w) (g', thr rest r' w')"
        by (rule rtranclp_trans)
      from alone_first [OF p this] Some show ?thesis by auto
    qed
  qed
  then show "\<exists>r'. (alone env)\<^sup>*\<^sup>* (g, thr ((AskPlace a # todo) @ rest) r w) (g', thr rest r' w')"
    by (simp only: append_Cons)
qed

text \<open>The handlers behind the limiters.\<close>

lemma proxy_kept_at: "ptr < length (gw_proxies g) \<Longrightarrow> gw_proxies (put_proxy ptr h g) ! ptr = h"
  by (simp add: put_proxy_def)

lemma put_put_proxy: "put_proxy ptr h' (put_proxy ptr h g) = put_proxy ptr h' g"
  by (simp add: put_proxy_def)

lemma does_proxy:
  assumes ptr: "ptr < n"
  shows "does env n [Choose ptr] (proxy_handler env ptr)"
proof (rule doesI)
  fix r g w g' w' and rest :: "work list"
  assume rest: "unwind rest = rest" and n: "length (gw_proxies g) = n" and run: "proxy_handler env ptr r g w = Some (g', w')"
  obtain h1 sel where s: "serve_select (se_now env) r (gw_proxies g ! ptr) w = (h1, sel)" by (metis surj_pair)
  have "\<exists>r'. (alone env)\<^sup>*\<^sup>* (g, thr (Choose ptr # rest) r w) (g', thr rest r' w')"
  proof (cases sel)
    case (Inl w1)
    have "perform env (Choose ptr) rest r g w = (g', thr rest r w')"
      using run by (simp add: choose_upstream_def proxy_handler_def proxy_ServeHTTP_def s Inl rest)
    then show ?thesis by (intro exI) (rule alone_one)
  next
    case (Inr inreq)
    obtain h2 out where rw: "rewriteRequest (se_now env) (se_nanos env) h1 inreq (se_prepare env inreq) = (h2, out)"
      by (metis surj_pair)
    let ?g = "put_proxy ptr h2 g"
    have p: "perform env (Choose ptr) rest r g w = (?g, thr (Await ptr out # rest) r w)"
      by (simp add: choose_upstream_def s Inr rw)
    have at: "gw_proxies ?g ! ptr = h2" using ptr n by (simp add: proxy_kept_at)
    have q: "perform env (Await ptr out) rest r ?g w = (g', thr rest r w')"
      using run unfolding perform.simps await_def at
      by (simp add: proxy_handler_def proxy_ServeHTTP_def s Inr rw split_beta put_put_proxy)
    show ?thesis by (intro exI) (rule alone_first [OF p alone_one [OF q]])
  qed
  then show "\<exists>r'. (alone env)\<^sup>*\<^sup>* (g, thr ([Choose ptr] @ rest) r w) (g', thr rest r' w')" by simp
qed

lemma does_name:
  assumes "does env n todo h"
  shows "does env n (NameRoute routeID # todo) (withRouteID routeID h)"
proof (rule doesI)
  fix r g w g' w' and rest :: "work list"
  assume rest: "unwind rest = rest" and n: "length (gw_proxies g) = n" and run: "withRouteID routeID h r g w = Some (g', w')"
  then obtain w1 where s: "setRouteIDToResponseWriter routeID (Some w) = Some (Some w1)"
    and h: "h (r\<lparr>rq_Context := (rq_Context r)\<lparr>ctx_routeID := Some routeID\<rparr>\<rparr>) g w1 = Some (g', w')"
    by (auto simp: withRouteID_def split: option.splits)
  have p: "perform env (NameRoute routeID) (todo @ rest) r g w
      = (g, thr (todo @ rest) (r\<lparr>rq_Context := (rq_Context r)\<lparr>ctx_routeID := Some routeID\<rparr>\<rparr>) w1)"
    by (simp add: s)
  from alone_then [OF p doesD [OF assms rest h n]]
  show "\<exists>r'. (alone env)\<^sup>*\<^sup>* (g, thr ((NameRoute routeID # todo) @ rest) r w) (g', thr rest r' w')" by simp
qed

definition route_work :: "routeRuntime \<Rightarrow> work list" where
  "route_work rr = [NameRoute (rr_id rr), AskRate (rr_rateLimiter rr), AskPlace (rr_concurrencyLimiter rr),
     Choose (rr_proxyHandler rr)]"

lemma does_route: "rr_proxyHandler rr < n \<Longrightarrow> does env n (route_work rr) (route_handler env rr)"
  unfolding route_work_def route_handler_def
  by (intro does_name does_rate does_place does_proxy) (simp_all add: inside_def)

text \<open>Every proxy handler that the mux leads to exists.\<close>

definition leads :: "nat \<Rightarrow> mux \<Rightarrow> routeRuntime list \<Rightarrow> bool" where
  "leads n m routes \<longleftrightarrow> list_all (\<lambda>(p, t). case t of ProxyRoute i \<Rightarrow> rr_proxyHandler (routes ! i) < n | _ \<Rightarrow> True) m"

lemma mux_match_mem: "mux_match m path = Some t \<Longrightarrow> \<exists>p. (p, t) \<in> set m"
  using longest_match_Some by (force simp: mux_match_def)

lemma does_mux:
  assumes "leads n m routes"
  shows "does env n [FindRoute m routes] (mux_ServeHTTP env m routes)"
proof (rule doesI)
  fix r g w g' w' and rest :: "work list"
  assume rest: "unwind rest = rest" and n: "length (gw_proxies g) = n"
    and run: "mux_ServeHTTP env m routes r g w = Some (g', w')"
  have page: "\<exists>r'. (alone env)\<^sup>*\<^sup>* (g, thr (FindRoute m routes # rest) r w) (g', thr rest r' w')"
    if "perform env (FindRoute m routes) rest r g w = (g', thr (unwind rest) r w')"
    using alone_one [OF that] rest by auto
  have "\<exists>r'. (alone env)\<^sup>*\<^sup>* (g, thr (FindRoute m routes # rest) r w) (g', thr rest r' w')"
  proof (cases "se_own env m r")
    case (Some own)
    show ?thesis by (rule page) (use run Some in \<open>simp add: mux_ServeHTTP_def\<close>)
  next
    case own: None
    show ?thesis
    proof (cases "mux_match m (url_Path (rq_URL r))")
      case None
      show ?thesis by (rule page) (use run own None in \<open>simp add: mux_ServeHTTP_def not_found_def\<close>)
    next
      case (Some t)
      show ?thesis
      proof (cases t)
        case (ProxyRoute i)
        have "rr_proxyHandler (routes ! i) < n"
          using mux_match_mem [OF Some] assms ProxyRoute by (fastforce simp: leads_def list_all_iff)
        moreover have "route_handler env (routes ! i) r g w = Some (g', w')"
          using run own Some ProxyRoute by (simp add: mux_ServeHTTP_def)
        ultimately have "\<exists>r'. (alone env)\<^sup>*\<^sup>* (g, thr (route_work (routes ! i) @ rest) r w) (g', thr rest r' w')"
          by (intro doesD [OF does_route rest _ n])
        moreover have "perform env (FindRoute m routes) rest r g w = (g, thr (route_work (routes ! i) @ rest) r w)"
          using own Some ProxyRoute by (simp add: route_work_def Let_def)
        ultimately show ?thesis by (intro alone_then)
      qed (rule page; use run own Some in \<open>auto simp: mux_ServeHTTP_def handlePing_def handleHealth_def
          handleVersion_def get_only_def split: if_splits\<close>)+
    qed
  qed
  then show "\<exists>r'. (alone env)\<^sup>*\<^sup>* (g, thr ([FindRoute m routes] @ rest) r w) (g', thr rest r' w')" by simp
qed

lemma does_timeout:
  assumes "does env n todo h"
  shows "does env n (SetDeadline timeout # todo) (timeoutMiddleware timeout (se_start env) h)"
proof (rule doesI)
  fix r g w g' w' and rest :: "work list"
  assume rest: "unwind rest = rest" and n: "length (gw_proxies g) = n"
    and run: "timeoutMiddleware timeout (se_start env) h r g w = Some (g', w')"
  from alone_then [OF perform.simps(3) doesD [OF assms rest run [unfolded timeoutMiddleware_def] n]]
  show "\<exists>r'. (alone env)\<^sup>*\<^sup>* (g, thr ((SetDeadline timeout # todo) @ rest) r w) (g', thr rest r' w')" by simp
qed

lemma does_inner:
  assumes "leads n (mh_mux mh) (mh_routes mh)"
  shows "does env n [AskRate (mh_rate mh), AskPlace (mh_concurrency mh), SetDeadline (mh_timeout mh),
      FindRoute (mh_mux mh) (mh_routes mh)] (inner_handler env mh)"
  unfolding inner_handler_def
  by (intro does_rate does_place does_timeout does_mux assms) (simp_all add: inside_def)


text \<open>
  C13: A request that nothing interleaves with: its calls, one after the other, end, and leave the store
  and the writer that the main handler leaves. So the calls of a request are the main handler, cut into
  steps. (\<open>alone\<close> is a function, and no call is left to be done.)
\<close>

theorem request_is_its_calls:
  assumes "leads (length (gw_proxies g)) (mh_mux mh) (mh_routes mh)" and run: "main_ServeHTTP env mh r g w = Some (g', w')"
  shows "\<exists>r'. (alone env)\<^sup>*\<^sup>* (g, main_thread mh r w) (g', thr [] r' w')"
proof -
  obtain g1 rec w1 where inner: "inner_handler env mh r g (newStatusRecorder w) = Some (g1, Recorder rec w1)"
    using run by (auto simp: main_ServeHTTP_def accessLogMiddleware_def split: option.splits writer.splits)
  obtain r1 where s: "(alone env)\<^sup>*\<^sup>* (g, main_thread mh r w) (g1, thr [Log r] r1 (Recorder rec w1))"
    using doesD [OF does_inner [OF assms(1)] unwind_simps(3) inner refl] by (auto simp: main_thread_def)
  have "perform env (Log r) [] r1 g1 (Recorder rec w1) = (g', thr [] r1 w')"
    using run inner by (auto simp: main_ServeHTTP_def accessLogMiddleware_def log_request_def newStatusRecorder_def Let_def)
  from rtranclp_trans [OF s alone_one [OF this]] show ?thesis ..
qed

theorem request_is_its_calls_witness:
  "\<exists>r' g' w'. main_ServeHTTP demo_serve empty_handler ping_request one_place (Conn new_conn) = Some (g', w')
    \<and> (alone demo_serve)\<^sup>*\<^sup>* (one_place, main_thread empty_handler ping_request (Conn new_conn)) (g', thr [] r' w')"
proof -
  have "main_ServeHTTP demo_serve empty_handler ping_request one_place (Conn new_conn) \<noteq> None"
    unfolding option.simps by code_simp
  then obtain g' w' where run: "main_ServeHTTP demo_serve empty_handler ping_request one_place (Conn new_conn) = Some (g', w')" by auto
  have "leads (length (gw_proxies one_place)) (mh_mux empty_handler) (mh_routes empty_handler)"
    by (simp add: leads_def empty_handler_def)
  from request_is_its_calls [OF this run] run show ?thesis by blast
qed

end
