(* ===== verification/Interleaved.thy ===== *)
theory Interleaved
  imports In_Flight
begin

text \<open>
  Requests that interleave, call by call, with each other, with the ticks of the limiters, the checks of the
  upstreams, the building of new runtimes and the closing of old ones. The limiters, buckets and proxies of
  the gateway hold what the requests in flight account for, and every request ends.
\<close>

section \<open>Requests that interleave\<close>

text \<open>
  The store, the handlers of the runtimes that have been built, and the requests; and, for each bucket, how
  many requests it has let through and how often its ticker has fired. A request that has read a handler
  keeps it, so any handler may be met at any time.
\<close>

record flight =
  fl_store :: gateway
  fl_handlers :: "mainHandler list"
  fl_threads :: "thread list"
  fl_admitted :: "nat \<Rightarrow> nat"
  fl_fired :: "nat \<Rightarrow> nat"

definition admits :: "work \<Rightarrow> gateway \<Rightarrow> nat \<Rightarrow> nat" where
  "admits x g i = (if x = AskRate (Some i) \<and> fst (tb_Allow (Some (gw_buckets g ! i))) then 1 else 0)"

text \<open>
  \<^verbatim>\<open>ReverseProxy\<close> keeps the context of a request it clones; and no route has $2^{64}$ upstreams.
\<close>

inductive fl_step :: "flight \<Rightarrow> flight \<Rightarrow> bool" where
  built: "valid_config (be_parse benv) cfg \<Longrightarrow> buildRuntime benv cfg (fl_store s) = (g, res) \<Longrightarrow>
    list_all (\<lambda>route. length (rc_Upstreams route) < 2 ^ 64) (cfg_Routes cfg) \<Longrightarrow>
    fl_step s (s\<lparr>fl_store := g,
      fl_handlers := (case res of Inl e \<Rightarrow> [] | Inr rt \<Rightarrow> [rb_handler rt]) @ fl_handlers s\<rparr>)"
| arrived: "mh \<in> set (fl_handlers s) \<Longrightarrow> fl_step s (s\<lparr>fl_threads := fl_threads s @ [main_thread mh r w]\<rparr>)"
| called: "fl_threads s = ts @ thr (x # todo) r w # us \<Longrightarrow> (\<And>q. rq_Context (se_prepare env q) = rq_Context q) \<Longrightarrow>
    perform env x todo r (fl_store s) w = (g, t) \<Longrightarrow>
    fl_step s (s\<lparr>fl_store := g, fl_threads := ts @ t # us,
      fl_admitted := (\<lambda>i. fl_admitted s i + admits x (fl_store s) i)\<rparr>)"
| ticked: "j < length (gw_buckets (fl_store s)) \<Longrightarrow> tb_step (gw_buckets (fl_store s) ! j) lab b \<Longrightarrow>
    lab = Fire \<or> lab = Refill \<or> lab = Exit \<Longrightarrow>
    fl_step s (s\<lparr>fl_store := put_bucket (Some j) (Some b) (fl_store s),
      fl_fired := (fl_fired s)(j := fl_fired s j + fires [lab])\<rparr>)"
| probed: "fl_step s (s\<lparr>fl_store := probe_upstream now pr p k (fl_store s)\<rparr>)"
| closes_proxy: "fl_step s (s\<lparr>fl_store := close_proxy p (fl_store s)\<rparr>)"
| closes_bucket: "fl_step s (s\<lparr>fl_store := close_bucket a (fl_store s)\<rparr>)"
| recorded: "fl_step s (s\<lparr>fl_store := put_registry reg (fl_store s)\<rparr>)"

inductive fl_reach :: "flight \<Rightarrow> bool" where
  start: "fl_reach \<lparr>fl_store = put_registry reg no_objects, fl_handlers = [], fl_threads = [],
    fl_admitted = (\<lambda>_. 0), fl_fired = (\<lambda>_. 0)\<rparr>"
| step: "fl_reach s \<Longrightarrow> fl_step s s' \<Longrightarrow> fl_reach s'"

text \<open>What the requests have still to do: places to give back, and answers to wait for, by upstream.\<close>

definition returns :: "nat \<Rightarrow> thread list \<Rightarrow> nat" where
  "returns i ts = sum_list (map (\<lambda>t. count_list (th_todo t) (GiveBack i)) ts)"

fun awaits :: "nat \<Rightarrow> work \<Rightarrow> nat list" where
  "awaits p (Await q out) = (if p = q then (case ctx_upstream (rq_Context out) of None \<Rightarrow> [] | Some k \<Rightarrow> [k]) else [])"
| "awaits p x = []"

definition awaited :: "nat \<Rightarrow> thread list \<Rightarrow> nat list" where
  "awaited p ts = concat (map (\<lambda>t. concat (map (awaits p) (th_todo t))) ts)"

section \<open>What every step keeps\<close>

definition route_within :: "(nat \<Rightarrow> bool) \<Rightarrow> (nat \<Rightarrow> bool) \<Rightarrow> (nat \<Rightarrow> bool) \<Rightarrow> routeRuntime \<Rightarrow> bool" where
  "route_within P B S rr \<longleftrightarrow> P (rr_proxyHandler rr) \<and> pred_option B (rr_rateLimiter rr) \<and>
     pred_option S (rr_concurrencyLimiter rr)"

definition handler_within :: "(nat \<Rightarrow> bool) \<Rightarrow> (nat \<Rightarrow> bool) \<Rightarrow> (nat \<Rightarrow> bool) \<Rightarrow> mainHandler \<Rightarrow> bool" where
  "handler_within P B S mh \<longleftrightarrow> pred_option B (mh_rate mh) \<and> pred_option S (mh_concurrency mh) \<and>
     led (length (mh_routes mh)) (mh_mux mh) \<and> list_all (route_within P B S) (mh_routes mh)"

fun work_within :: "(nat \<Rightarrow> bool) \<Rightarrow> (nat \<Rightarrow> bool) \<Rightarrow> (nat \<Rightarrow> bool) \<Rightarrow> work \<Rightarrow> bool" where
  "work_within P B S (AskRate a) = pred_option B a"
| "work_within P B S (AskPlace a) = pred_option S a"
| "work_within P B S (FindRoute m routes) \<longleftrightarrow> led (length routes) m \<and> list_all (route_within P B S) routes"
| "work_within P B S (Choose p) = P p"
| "work_within P B S (Await p out) \<longleftrightarrow> P p \<and> ctx_upstream (rq_Context out) \<noteq> None"
| "work_within P B S (GiveBack i) = S i"
| "work_within P B S x = True"

text \<open>Only the next call can be a wait.\<close>

definition still :: "work \<Rightarrow> bool" where
  "still x \<longleftrightarrow> (\<forall>p out. x \<noteq> Await p out)"

definition tidy :: "work list \<Rightarrow> bool" where
  "tidy todo \<longleftrightarrow> list_all still (tl todo)"

definition place_good :: "gateway \<Rightarrow> nat \<Rightarrow> nat \<Rightarrow> bool" where
  "place_good g i n \<longleftrightarrow> i < length (gw_semaphores g) \<and> lim_ok (gw_semaphores g ! i) \<and>
     ch_len (lim_semaphore (gw_semaphores g ! i)) = n"

definition bucket_good :: "gateway \<Rightarrow> nat \<Rightarrow> nat \<Rightarrow> nat \<Rightarrow> bool" where
  "bucket_good g i adm fir \<longleftrightarrow> i < length (gw_buckets g) \<and> tb_inv (gw_buckets g ! i) \<and>
     int (adm + tb_potential (gw_buckets g ! i)) \<le> tb_burst (gw_buckets g ! i) + int fir"

definition proxy_good :: "gateway \<Rightarrow> nat \<Rightarrow> nat list \<Rightarrow> bool" where
  "proxy_good g p flying \<longleftrightarrow> p < length (gw_proxies g) \<and> length (h_upstreams (gw_proxies g ! p)) < 2 ^ 64 \<and>
     px_inv (gw_proxies g ! p) \<lparr>px_handler = gw_proxies g ! p, px_flying = flying\<rparr>"

definition objects_good :: "flight \<Rightarrow> (nat \<Rightarrow> bool) \<Rightarrow> (nat \<Rightarrow> bool) \<Rightarrow> (nat \<Rightarrow> bool) \<Rightarrow> bool" where
  "objects_good s P B S \<longleftrightarrow> (\<forall>i. S i \<longrightarrow> place_good (fl_store s) i (returns i (fl_threads s))) \<and>
     (\<forall>i. if B i then bucket_good (fl_store s) i (fl_admitted s i) (fl_fired s i) else fl_admitted s i = 0) \<and>
     (\<forall>p. P p \<longrightarrow> proxy_good (fl_store s) p (awaited p (fl_threads s)))"

definition all_within :: "flight \<Rightarrow> (nat \<Rightarrow> bool) \<Rightarrow> (nat \<Rightarrow> bool) \<Rightarrow> (nat \<Rightarrow> bool) \<Rightarrow> bool" where
  "all_within s P B S \<longleftrightarrow> list_all (handler_within P B S) (fl_handlers s) \<and>
     list_all (\<lambda>t. tidy (th_todo t) \<and> list_all (work_within P B S) (th_todo t)) (fl_threads s)"

text \<open>The objects that the handlers use.\<close>

definition fl_inv :: "flight \<Rightarrow> bool" where
  "fl_inv s \<longleftrightarrow> (\<exists>P B S. all_within s P B S \<and> objects_good s P B S)"

text \<open>What is left to do after a call, in terms of what was left before.\<close>

lemma unwind_within:
  "list_all p todo \<Longrightarrow> list_all p (unwind todo)"
  unfolding unwind_def by (auto simp: list_all_iff dest: set_dropWhileD)

lemma split_work: "takeWhile (\<lambda>x. \<not> deferred x) todo @ unwind todo = todo"
  by (simp add: unwind_def)

lemma defer_within: "p x \<Longrightarrow> list_all p todo \<Longrightarrow> list_all p (defer_work x todo)"
  unfolding defer_work_def using unwind_within by (auto simp: list_all_iff dest: set_takeWhileD)

lemma count_unwind: "count_list (unwind todo) (GiveBack i) = count_list todo (GiveBack i)"
  unfolding unwind_def by (induction todo) auto

lemma count_defer: "count_list (defer_work (GiveBack j) todo) (GiveBack i) = count_list todo (GiveBack i) + (if i = j then 1 else 0)"
proof -
  have "count_list (takeWhile (\<lambda>x. \<not> deferred x) todo) (GiveBack i) = 0"
    by (auto simp: count_list_0_iff dest: set_takeWhileD)
  then show ?thesis by (simp add: defer_work_def count_unwind)
qed

lemma still_simps [simp]:
  "still (AskRate a)" "still (AskPlace a)" "still (SetDeadline t)" "still (FindRoute m routes)" "still (NameRoute n)"
  "still (Choose p)" "still (GiveBack i)" "still (Log r)" "\<not> still (Await p out)"
  by (simp_all add: still_def)

lemma still_tidy: "list_all still todo \<Longrightarrow> tidy todo"
  by (cases todo) (simp_all add: tidy_def)

lemma still_awaits: "list_all still todo \<Longrightarrow> concat (map (awaits p) todo) = []"
proof (induction todo)
  case (Cons x todo)
  then show ?case by (cases x) simp_all
qed simp

lemma find_page: "\<forall>i. a \<noteq> ProxyRoute i \<Longrightarrow> th_todo (find_route env routes (Some a) todo r w) = unwind todo"
  by (cases a) (simp_all add: Let_def)

text \<open>What is left after a call; what a call adds is in front, or in front of what is deferred.\<close>

lemma call_shape:
  assumes "perform env x todo r g w = (g', t)"
  obtains (goes_on) "th_todo t = todo"
    | (page) "th_todo t = unwind todo"
    | (place) i where "x = AskPlace (Some i)" "th_todo t = defer_work (GiveBack i) todo"
    | (route) m routes i where "x = FindRoute m routes" "mux_match m (url_Path (rq_URL r)) = Some (ProxyRoute i)"
        "th_todo t = route_work (routes ! i) @ todo"
    | (wait) p inreq h h' out where "x = Choose p" "serve_select (se_now env) r (gw_proxies g ! p) w = (h, Inr inreq)"
        "rewriteRequest (se_now env) (se_nanos env) h inreq (se_prepare env inreq) = (h', out)"
        "th_todo t = Await p out # todo"
    | (stuck) "(\<exists>n. x = NameRoute n) \<or> (\<exists>q. x = Log q)" "th_todo t = x # todo"
proof (cases x)
  case (AskRate a)
  then show ?thesis using assms that(1,2)
    by (auto simp: ask_rate_def simp del: tb_Allow.simps split: if_splits prod.splits)
next
  case (AskPlace a)
  then show ?thesis using assms that(1,2,3)
    by (auto simp: ask_place_def Let_def simp del: tryAcquire.simps split: option.splits if_splits prod.splits)
next
  case (FindRoute m routes)
  show ?thesis
  proof (cases "\<exists>i. mux_match m (url_Path (rq_URL r)) = Some (ProxyRoute i) \<and> se_own env m r = None")
    case True
    then obtain i where i: "mux_match m (url_Path (rq_URL r)) = Some (ProxyRoute i)" "se_own env m r = None" by blast
    then have "th_todo t = route_work (routes ! i) @ todo"
      using assms FindRoute by (auto simp: route_work_def Let_def)
    with FindRoute i(1) show ?thesis by (rule that(4))
  next
    case False
    then have "th_todo t = unwind todo"
      using assms FindRoute find_page by (cases "mux_match m (url_Path (rq_URL r))") (auto split: option.splits)
    then show ?thesis by (rule that(2))
  qed
next
  case (Choose p)
  then show ?thesis using assms that(2,5)
    by (auto simp: choose_upstream_def split: prod.splits sum.splits)
next
  case (NameRoute n)
  then show ?thesis using assms that(1,6) by (auto split: option.splits)
next
  case (Log q)
  then show ?thesis using assms that(1,6) by (auto simp: log_request_def split: option.splits)
qed (use assms that(1) in \<open>auto simp: await_def split_beta\<close>)

lemma selected_context:
  assumes "serve_select now r h w = (h', Inr inreq)" and "\<And>q. rq_Context (prepare q) = rq_Context q"
  shows "\<exists>k. selectUpstream now h = (Some k, h') \<and>
    fst (rewriteRequest now' nanos h' inreq (prepare inreq)) = h' \<and>
    ctx_upstream (rq_Context (snd (rewriteRequest now' nanos h' inreq (prepare inreq)))) = Some k"
proof -
  obtain k where k: "selectUpstream now h = (Some k, h')" and inreq: "inreq = r\<lparr>rq_Context := (rq_Context r)\<lparr>ctx_upstream := Some k\<rparr>\<rparr>"
    using assms(1) by (auto simp: serve_select_def Let_def split: prod.splits option.splits)
  then have "ctx_upstream (rq_Context inreq) = Some k" by simp
  with assms(2) [of inreq] k show ?thesis by (simp add: rewriteRequest_def rewrite_to_def set_url_def Let_def)
qed

lemma tidy_kept:
  assumes "perform env x todo r g w = (g', t)" and "tidy (x # todo)"
  shows "tidy (th_todo t)"
proof -
  have s: "list_all still todo" using assms(2) by (simp add: tidy_def)
  note after = still_tidy [OF s] still_tidy [OF unwind_within [OF s]] still_tidy [OF defer_within [OF _ s]]
  show ?thesis
    using assms(1)
  proof (cases rule: call_shape)
    case (route m routes i)
    then have "list_all still (th_todo t)" using s by (simp add: route_work_def)
    then show ?thesis by (rule still_tidy)
  qed (use s after in \<open>auto simp: tidy_def\<close>)
qed

lemma target_route: "mux_match m path = Some (ProxyRoute i) \<Longrightarrow> led (length routes) m \<Longrightarrow> i < length routes"
  using mux_match_mem by (fastforce simp: led_def list_all_iff)

lemma within_kept:
  assumes "perform env x todo r g w = (g', t)" and w: "list_all (work_within P B S) (x # todo)"
    and ctx: "\<And>q. rq_Context (se_prepare env q) = rq_Context q"
  shows "list_all (work_within P B S) (th_todo t)"
  using assms(1)
proof (cases rule: call_shape)
  case page
  with w unwind_within show ?thesis by simp
next
  case (place i)
  with w show ?thesis by (simp add: defer_within)
next
  case (route m routes i)
  have "i < length routes" and "list_all (route_within P B S) routes"
    using w route target_route [of m "url_Path (rq_URL r)" i routes] by simp_all
  then have "route_within P B S (routes ! i)" by (simp add: list_all_length)
  with w route(3) show ?thesis by (simp add: route_work_def route_within_def)
next
  case (wait p inreq h h' out)
  have "\<exists>k. ctx_upstream (rq_Context out) = Some k"
    using selected_context [where prepare = "se_prepare env", OF wait(2) ctx, of "se_now env" "se_nanos env"]
    unfolding wait(3) by auto
  with wait w show ?thesis by auto
qed (use w in simp_all)

section \<open>What a call does to the objects\<close>

lemma put_semaphore_nth:
  "i < length (gw_semaphores g) \<Longrightarrow> gw_semaphores (put_semaphore (Some j) (Some l) g) ! i = (if i = j then l else gw_semaphores g ! i)"
  "length (gw_semaphores (put_semaphore a v g)) = length (gw_semaphores g)"
  by (auto simp: put_semaphore_def split: option.split)

lemma put_bucket_nth:
  "i < length (gw_buckets g) \<Longrightarrow> gw_buckets (put_bucket (Some j) (Some b) g) ! i = (if i = j then b else gw_buckets g ! i)"
  "length (gw_buckets (put_bucket a v g)) = length (gw_buckets g)"
  by (auto simp: put_bucket_def split: option.split)

lemma put_frames [frame]:
  "gw_semaphores (put_bucket a b g) = gw_semaphores g" "gw_semaphores (put_proxy p h g) = gw_semaphores g"
  "gw_semaphores (put_registry reg g) = gw_semaphores g"
  "gw_buckets (put_semaphore a l g) = gw_buckets g" "gw_buckets (put_proxy p h g) = gw_buckets g"
  "gw_buckets (put_registry reg g) = gw_buckets g" "gw_proxies (put_registry reg g) = gw_proxies g"
  by (simp_all add: put_bucket_def put_proxy_def put_registry_def put_semaphore_def split: option.split)

text \<open>A call touches one object at most.\<close>

lemma log_request_store: "\<exists>reg. fst (log_request env r0 todo r g w) = put_registry reg g"
proof -
  have "put_registry (gw_registry g) g = g" by (simp add: put_registry_def)
  then show ?thesis
    by (auto simp: log_request_def accessLogMiddleware_def Let_def split: option.splits writer.splits)
      (metis)+
qed

lemma log_request_frame [frame]:
  "gw_semaphores (fst (log_request env r0 todo r g w)) = gw_semaphores g"
  "gw_buckets (fst (log_request env r0 todo r g w)) = gw_buckets g"
  "gw_proxies (fst (log_request env r0 todo r g w)) = gw_proxies g"
  using log_request_store [of env r0 todo r g w] by (auto simp: put_frames)

lemma quiet_calls:
  assumes "perform env x todo r g w = (g', t)"
  shows "(\<forall>a. x \<noteq> AskPlace a) \<Longrightarrow> (\<forall>i. x \<noteq> GiveBack i) \<Longrightarrow> gw_semaphores g' = gw_semaphores g"
    and "(\<forall>a. x \<noteq> AskRate a) \<Longrightarrow> gw_buckets g' = gw_buckets g"
    and "(\<forall>p. x \<noteq> Choose p) \<Longrightarrow> (\<forall>p out. x \<noteq> Await p out) \<Longrightarrow> gw_proxies g' = gw_proxies g"
proof -
  have g': "g' = fst (perform env x todo r g w)" by (simp add: assms)
  show "(\<forall>a. x \<noteq> AskPlace a) \<Longrightarrow> (\<forall>i. x \<noteq> GiveBack i) \<Longrightarrow> gw_semaphores g' = gw_semaphores g"
    unfolding g' by (cases x) (auto simp: frame ask_rate_def choose_upstream_def await_def split_beta simp del: tb_Allow.simps
        split: option.split sum.split)
  show "(\<forall>a. x \<noteq> AskRate a) \<Longrightarrow> gw_buckets g' = gw_buckets g"
    unfolding g' by (cases x) (auto simp: frame ask_place_def choose_upstream_def await_def split_beta Let_def simp del: tryAcquire.simps
        split: option.split sum.split)
  show "(\<forall>p. x \<noteq> Choose p) \<Longrightarrow> (\<forall>p out. x \<noteq> Await p out) \<Longrightarrow> gw_proxies g' = gw_proxies g"
    unfolding g' by (cases x) (auto simp: frame ask_place_def ask_rate_def split_beta Let_def simp del: tb_Allow.simps tryAcquire.simps
        split: option.split)
qed

lemma place_after:
  assumes "perform env x todo r g w = (g', t)" and good: "place_good g i (count_list (x # todo) (GiveBack i) + m)"
  shows "place_good g' i (count_list (th_todo t) (GiveBack i) + m)"
proof -
  have i: "i < length (gw_semaphores g)" "lim_ok (gw_semaphores g ! i)"
    "ch_len (lim_semaphore (gw_semaphores g ! i)) = count_list (x # todo) (GiveBack i) + m"
    using good by (simp_all add: place_good_def)
  consider (ask) j where "x = AskPlace (Some j)" | (given) j where "x = GiveBack j"
    | (quiet) "gw_semaphores g' = gw_semaphores g" "\<forall>j. x \<noteq> AskPlace (Some j)" "\<forall>j. x \<noteq> GiveBack j"
  proof (cases "(\<exists>j. x = AskPlace (Some j)) \<or> (\<exists>j. x = GiveBack j)")
    case True
    then show ?thesis using that(1,2) by blast
  next
    case False
    have "gw_semaphores g' = gw_semaphores g"
    proof (cases "\<exists>a. x = AskPlace a")
      case True
      with False have "x = AskPlace None" by (metis not_None_eq)
      with assms(1) show ?thesis by (simp add: ask_place_def)
    qed (use False quiet_calls(1) [OF assms(1)] in blast)
    with False that(3) show ?thesis by blast
  qed
  then show ?thesis
  proof cases
    case (ask j)
    obtain ok l where a: "tryAcquire (get_at gw_semaphores (Some j) g) = (ok, Some l)"
      "lim_take (gw_semaphores g ! j) = (ok, l)"
      using tryAcquire_Some [of "gw_semaphores g ! j"] by (metis get_at_def option.simps(5) surj_pair fst_conv snd_conv)
    have "gw_semaphores g' ! i = (if i = j then l else gw_semaphores g ! i)" "length (gw_semaphores g') = length (gw_semaphores g)"
      "count_list (th_todo t) (GiveBack i) = count_list todo (GiveBack i) + (if i = j \<and> ok then 1 else 0)"
      using assms(1) ask a(1) i(1) put_semaphore_nth
      by (auto simp: ask_place_def count_unwind count_defer simp del: tryAcquire.simps split: if_splits)
    with i a(2) ask show ?thesis
      by (auto simp: place_good_def lim_take_def lim_ok_def chan_ok_def try_send_def split: if_splits)
  next
    case (given j)
    have "gw_semaphores g' ! i = (if i = j then lim_give (gw_semaphores g ! j) else gw_semaphores g ! i)"
      "length (gw_semaphores g') = length (gw_semaphores g)" "th_todo t = todo"
      using assms(1) given i(1) put_semaphore_nth by (auto simp: get_at_def release_Some simp del: release.simps)
    with i given show ?thesis
      by (auto simp: place_good_def lim_give_def lim_ok_def chan_ok_def try_recv_def)
  next
    case quiet
    have "count_list (th_todo t) (GiveBack i) = count_list todo (GiveBack i)"
      using assms(1) quiet(2,3) by (cases rule: call_shape) (auto simp: count_unwind route_work_def)
    with quiet i show ?thesis by (auto simp: place_good_def)
  qed
qed


lemma bucket_step:
  assumes "bucket_good g i adm fir" and "tb_step (gw_buckets g ! i) lab b"
  shows "bucket_good (put_bucket (Some i) (Some b) g) i (adm + admissions [lab]) (fir + fires [lab])"
  using assms(1) tb_step_potential [OF assms(2)] tb_step_burst [OF assms(2)] tb_step_inv [OF assms(2)]
  by (auto simp: bucket_good_def put_bucket_nth)

lemma bucket_other:
  "bucket_good g i adm fir \<Longrightarrow> i \<noteq> j \<Longrightarrow> bucket_good (put_bucket (Some j) b g) i adm fir"
  by (cases b) (auto simp: bucket_good_def put_bucket_def)

lemma bucket_same: "gw_buckets g' = gw_buckets g \<Longrightarrow> bucket_good g i adm fir \<Longrightarrow> bucket_good g' i adm fir"
  by (simp add: bucket_good_def)

lemma bucket_after:
  assumes "perform env x todo r g w = (g', t)" and good: "bucket_good g i adm fir"
  shows "bucket_good g' i (adm + admits x g i) fir"
proof (cases "\<exists>j. x = AskRate (Some j)")
  case True
  then obtain j where x: "x = AskRate (Some j)" ..
  obtain ok b where a: "tb_Allow (Some (gw_buckets g ! j)) = (ok, Some b)" by (simp add: split_beta)
  have g': "g' = put_bucket (Some j) (Some b) g"
    using assms(1) a by (auto simp: x ask_rate_def get_at_def simp del: tb_Allow.simps split: if_splits)
  show ?thesis
  proof (cases "i = j")
    case True
    from bucket_step [OF good tb_step.allow [OF a [folded True]]] True a x g'
    show ?thesis by (cases ok) (simp_all add: admits_def admissions_def fires_def del: tb_Allow.simps)
  next
    case False
    with bucket_other [OF good this] x show ?thesis by (simp add: g' admits_def)
  qed
next
  case False
  have "gw_buckets g' = gw_buckets g"
  proof (cases "x = AskRate None")
    case True
    then show ?thesis using assms(1) by (simp add: ask_rate_def get_at_def)
  next
    case n: False
    have "x \<noteq> AskRate a" for a using False n by (cases a) auto
    then show ?thesis by (intro quiet_calls(2) [OF assms(1)] allI)
  qed
  then have "bucket_good g' i adm fir" using good by (rule bucket_same)
  moreover have "admits x g i = 0" using False by (simp add: admits_def)
  ultimately show ?thesis by simp
qed

lemma px_inv_length: "length (h_upstreams h) = length (h_upstreams h') \<Longrightarrow> px_inv h s = px_inv h' s"
  by (simp add: px_inv_def)

lemma proxy_step:
  assumes good: "proxy_good g p ks" and step: "px_step \<lparr>px_handler = gw_proxies g ! p, px_flying = ks\<rparr> \<lparr>px_handler = h, px_flying = ks'\<rparr>"
  shows "proxy_good (put_proxy p h g) p ks'"
proof -
  have "px_inv (gw_proxies g ! p) \<lparr>px_handler = h, px_flying = ks'\<rparr>"
    using good px_inv_step [OF step] by (simp add: proxy_good_def)
  moreover from this have "length (h_upstreams h) = length (h_upstreams (gw_proxies g ! p))" by (simp add: px_inv_def)
  ultimately show ?thesis using good px_inv_length [of h "gw_proxies g ! p"] by (simp add: proxy_good_def put_proxy_def)
qed

lemma proxy_other: "proxy_good g p ks \<Longrightarrow> p \<noteq> q \<Longrightarrow> proxy_good (put_proxy q h g) p ks"
  by (simp add: proxy_good_def put_proxy_def)

lemma proxy_same: "gw_proxies g' = gw_proxies g \<Longrightarrow> proxy_good g p ks \<Longrightarrow> proxy_good g' p ks"
  by (simp add: proxy_good_def)

text \<open>The order in which the requests wait does not matter.\<close>

lemma proxy_good_perm: "proxy_good g p ks \<Longrightarrow> (\<And>k. count_list ks k = count_list ks' k) \<Longrightarrow> proxy_good g p ks'"
  by (simp add: proxy_good_def px_inv_def)

text \<open>The report of an outcome.\<close>

lemma reply_step:
  assumes "ctx_upstream (rq_Context out) = Some k" and "serve_reply now out informs reply h w = (h', w')"
  shows "px_step \<lparr>px_handler = h, px_flying = k # ks\<rparr> \<lparr>px_handler = h', px_flying = ks\<rparr>"
proof (cases reply)
  case (Broken err)
  then have h': "h' = fst (handleProxyError now out err h (fold inform informs w))"
    using assms(2) by (simp add: serve_reply_def Let_def)
  show ?thesis
    using px_step.broken [of k "\<lparr>px_handler = h, px_flying = k # ks\<rparr>" out now err "fold inform informs w"] assms(1) h' by simp
next
  case (Reply status hdr body)
  let ?resp = "\<lparr>rs_StatusCode = status, rs_Header = hdr, rs_Body = body, rs_Request = out\<rparr>"
  have h': "h' = fst (modifyResponse now h ?resp)"
    using assms(2) Reply by (simp add: serve_reply_def split_beta Let_def)
  show ?thesis
    using px_step.answered [of k "\<lparr>px_handler = h, px_flying = k # ks\<rparr>" ?resp now] assms(1) h' by simp
qed

lemma proxy_after:
  assumes call: "perform env x todo r g w = (g', t)" and tidy: "tidy (x # todo)"
    and w: "list_all (work_within P B S) (x # todo)" and ctx: "\<And>q. rq_Context (se_prepare env q) = rq_Context q"
    and good: "proxy_good g p (concat (map (awaits p) (x # todo)) @ ks)"
  shows "proxy_good g' p (concat (map (awaits p) (th_todo t)) @ ks)"
proof -
  have s: "list_all still todo" using tidy by (simp add: tidy_def)
  note quiet = still_awaits [OF s] still_awaits [OF unwind_within [OF s]] still_awaits [OF defer_within [OF still_simps(7) s]]
  show ?thesis
  proof (cases "(\<exists>q. x = Choose q) \<or> (\<exists>q out. x = Await q out)")
    case False
    have same: "gw_proxies g' = gw_proxies g" using quiet_calls(3) [OF call] False by blast
    have "concat (map (awaits p) (x # todo)) = []" using False by (cases x) (simp_all add: quiet)
    moreover have "concat (map (awaits p) (th_todo t)) = []"
      using call
    proof (cases rule: call_shape)
      case (stuck)
      with False show ?thesis by (cases x) (simp_all add: quiet)
    qed (use False quiet in \<open>auto simp: route_work_def\<close>)
    ultimately show ?thesis using proxy_same [OF same good] by (simp only:)
  next
    case True
    then consider q where "x = Choose q" | q out where "x = Await q out" by blast
    then show ?thesis
    proof cases
      case 1
      have good: "proxy_good g p ks" using good by (simp add: 1 quiet)
      obtain h sel where sel: "serve_select (se_now env) r (gw_proxies g ! q) w = (h, sel)" by (metis surj_pair)
      show ?thesis
      proof (cases sel)
        case (Inl w1)
        then have t: "g' = put_proxy q h g" "th_todo t = unwind todo"
          using call sel by (auto simp: 1 choose_upstream_def)
        have "selectUpstream (se_now env) (gw_proxies g ! q) = (None, h)"
          using sel Inl by (auto simp: serve_select_def Let_def split: prod.splits option.splits)
        from proxy_step [OF good, of h ks] px_step.turned_away [of "se_now env" "\<lparr>px_handler = gw_proxies g ! q, px_flying = ks\<rparr>" h] this
        have "proxy_good (put_proxy q h g) p ks"
          using proxy_other [OF good, of q h] by (cases "p = q") simp_all
        then show ?thesis by (simp add: t quiet)
      next
        case (Inr inreq)
        obtain k where k: "selectUpstream (se_now env) (gw_proxies g ! q) = (Some k, h)"
          and rw: "fst (rewriteRequest (se_now env) (se_nanos env) h inreq (se_prepare env inreq)) = h"
          and c: "ctx_upstream (rq_Context (snd (rewriteRequest (se_now env) (se_nanos env) h inreq (se_prepare env inreq)))) = Some k"
          using selected_context [where prepare = "se_prepare env", OF sel [unfolded Inr] ctx] by blast
        then obtain out where out: "rewriteRequest (se_now env) (se_nanos env) h inreq (se_prepare env inreq) = (h, out)"
          by (metis prod.collapse)
        then have t: "g' = put_proxy q h g" "th_todo t = Await q out # todo"
          using call sel Inr by (auto simp: 1 choose_upstream_def)
        have a: "awaits p (Await q out) = (if p = q then [k] else [])" using c out by simp
        from proxy_step [OF good, of h "k # ks"] px_step.started [of "se_now env" "\<lparr>px_handler = gw_proxies g ! q, px_flying = ks\<rparr>" k h] k
        have "proxy_good (put_proxy q h g) p (awaits p (Await q out) @ ks)"
          unfolding a using proxy_other [OF good, of q h] by (cases "p = q") simp_all
        then show ?thesis by (simp add: t quiet del: awaits.simps)
      qed
    next
      case 2
      obtain informs reply where b: "se_backend env out = (informs, reply)" by (metis surj_pair)
      obtain h w' where rep: "serve_reply (se_later env) out informs reply (gw_proxies g ! q) w = (h, w')" by (metis surj_pair)
      have t: "g' = put_proxy q h g" "th_todo t = todo" using call b rep by (auto simp: 2 await_def)
      obtain k where k: "ctx_upstream (rq_Context out) = Some k" using w by (auto simp: 2)
      have "proxy_good (put_proxy q h g) p ks"
      proof (cases "p = q")
        case True
        have "proxy_good g p (k # ks)" using good by (simp add: 2 True k quiet [unfolded True])
        from proxy_step [OF this] reply_step [OF k rep] show ?thesis by (simp add: True)
      next
        case False
        have "proxy_good g p ks" using good by (simp add: 2 False quiet)
        with False show ?thesis by (simp add: proxy_other)
      qed
      then show ?thesis by (simp add: t quiet)
    qed
  qed
qed


section \<open>The steps of the system\<close>

lemma returns_split: "returns i (ts @ t # us) = count_list (th_todo t) (GiveBack i) + returns i (ts @ us)"
  by (simp add: returns_def)

lemma awaited_split:
  "count_list (awaited p (ts @ t # us)) k = count_list (concat (map (awaits p) (th_todo t)) @ awaited p (ts @ us)) k"
  by (simp add: awaited_def)

lemma returns_outside: "all_within s P B S \<Longrightarrow> \<not> S i \<Longrightarrow> returns i (fl_threads s) = 0"
  by (fastforce simp: all_within_def returns_def list_all_iff sum_list_eq_0_iff count_list_0_iff)

lemma awaits_outside: "work_within P B S x \<Longrightarrow> \<not> P p \<Longrightarrow> awaits p x = []"
  by (cases x) auto

lemma awaited_outside: "all_within s P B S \<Longrightarrow> \<not> P p \<Longrightarrow> awaited p (fl_threads s) = []"
  using awaits_outside by (fastforce simp: all_within_def awaited_def list_all_iff)

text \<open>What a call does to all of them.\<close>

lemma fl_inv_called:
  assumes inv: "all_within s P B S" "objects_good s P B S" and ts: "fl_threads s = ts @ thr (x # todo) r w # us"
    and ctx: "\<And>q. rq_Context (se_prepare env q) = rq_Context q" and call: "perform env x todo r (fl_store s) w = (g, t)"
  defines "s' \<equiv> s\<lparr>fl_store := g, fl_threads := ts @ t # us, fl_admitted := (\<lambda>i. fl_admitted s i + admits x (fl_store s) i)\<rparr>"
  shows "all_within s' P B S" and "objects_good s' P B S"
proof -
  have x: "tidy (x # todo)" "list_all (work_within P B S) (x # todo)"
    using inv(1) by (simp_all add: all_within_def ts)
  note after = tidy_kept [OF call x(1)] within_kept [OF call x(2) ctx]
  show "all_within s' P B S" using inv(1) after by (simp add: all_within_def ts s'_def)
  show "objects_good s' P B S"
    unfolding objects_good_def
  proof (intro conjI allI impI)
    fix i assume "S i"
    then have "place_good (fl_store s) i (returns i (fl_threads s))" using inv(2) by (simp add: objects_good_def)
    then show "place_good (fl_store s') i (returns i (fl_threads s'))"
      using place_after [OF call, of i "returns i (ts @ us)"] by (simp add: ts returns_split s'_def)
  next
    fix i show "if B i then bucket_good (fl_store s') i (fl_admitted s' i) (fl_fired s' i) else fl_admitted s' i = 0"
    proof (cases "B i")
      case True
      then have "bucket_good (fl_store s) i (fl_admitted s i) (fl_fired s i)" using inv(2) by (simp add: objects_good_def)
      from bucket_after [OF call this] True show ?thesis by (simp add: s'_def)
    next
      case False
      then have "fl_admitted s i = 0" using inv(2) by (simp add: objects_good_def)
      moreover have "admits x (fl_store s) i = 0" using x(2) False by (auto simp: admits_def)
      ultimately show ?thesis using False by (simp add: s'_def)
    qed
  next
    fix p assume "P p"
    then have "proxy_good (fl_store s) p (awaited p (fl_threads s))" using inv(2) by (simp add: objects_good_def)
    then have "proxy_good (fl_store s) p (concat (map (awaits p) (x # todo)) @ awaited p (ts @ us))"
      by (rule proxy_good_perm) (simp only: ts awaited_split thread.simps)
    from proxy_after [OF call x ctx this]
    have "proxy_good g p (awaited p (ts @ t # us))"
      by (rule proxy_good_perm) (simp only: awaited_split)
    then show "proxy_good (fl_store s') p (awaited p (fl_threads s'))" by (simp add: s'_def)
  qed
qed

text \<open>What ticks, checks and closing do.\<close>

lemma objects_store:
  assumes "objects_good s P B S" and "gw_semaphores g = gw_semaphores (fl_store s)"
    and "\<And>i. B i \<Longrightarrow> bucket_good (fl_store s) i (fl_admitted s i) (fl_fired s i) \<Longrightarrow> bucket_good g i (fl_admitted s i) (fired i)"
    and "\<And>p. P p \<Longrightarrow> proxy_good (fl_store s) p (awaited p (fl_threads s)) \<Longrightarrow> proxy_good g p (awaited p (fl_threads s))"
  shows "objects_good (s\<lparr>fl_store := g, fl_fired := fired\<rparr>) P B S"
  using assms by (auto simp: objects_good_def place_good_def)

lemma same_fired: "s\<lparr>fl_store := g, fl_fired := fl_fired s\<rparr> = s\<lparr>fl_store := g\<rparr>"
  by simp

lemma all_within_store: "all_within (s\<lparr>fl_store := g, fl_fired := fired\<rparr>) P B S = all_within s P B S"
  by (simp add: all_within_def)

lemma proxy_put:
  assumes "proxy_good g p ks" and "\<And>ks. px_step \<lparr>px_handler = gw_proxies g ! q, px_flying = ks\<rparr> \<lparr>px_handler = h, px_flying = ks\<rparr>"
  shows "proxy_good (put_proxy q h g) p ks"
  using proxy_step [of g p ks h ks] proxy_other [OF assms(1), of q h] assms by (cases "p = q") simp_all

lemma bucket_closed: "bucket_good g i adm fir \<Longrightarrow> bucket_good (close_bucket a g) i adm fir"
proof (cases a)
  case (Some j)
  assume good: "bucket_good g i adm fir"
  obtain b where b: "tb_Close (Some (gw_buckets g ! j)) = Some b"
    by (cases "tb_done (gw_buckets g ! j)") simp_all
  have c: "close_bucket a g = put_bucket (Some j) (Some b) g"
    using b Some by (simp add: close_bucket_def get_at_def del: tb_Close.simps)
  show ?thesis
  proof (cases "i = j")
    case True
    from bucket_step [OF good tb_step.close [OF b [folded True]]] True c
    show ?thesis by (simp add: admissions_def fires_def)
  next
    case False
    with good c show ?thesis by (simp add: bucket_other)
  qed
qed (simp add: close_bucket_def put_bucket_def)

text \<open>What building does: what was there stays, and what a new handler uses is new, or was in order already.\<close>

lemma good_extends:
  assumes "extends g g'"
  shows "place_good g i n \<Longrightarrow> place_good g' i n" and "bucket_good g i adm fir \<Longrightarrow> bucket_good g' i adm fir"
    and "proxy_good g p ks \<Longrightarrow> proxy_good g' p ks"
  using assms by (auto simp: extends_def place_good_def bucket_good_def proxy_good_def nth_append)

lemma fresh_good:
  "semaphore_wired g n (Some i) \<Longrightarrow> place_good g i 0"
  "rate_wired g rate burst (Some i) \<Longrightarrow> bucket_good g i 0 fir"
  by (simp_all add: semaphore_wired_def place_good_def rate_wired_def open_bucket_def bucket_good_def tb_potential_def)

lemma fresh_proxy_good:
  assumes "proxy_wired g route p" and "length (rc_Upstreams route) < 2 ^ 64"
  shows "proxy_good g p []"
proof -
  let ?h = "gw_proxies g ! p"
  have h: "p < length (gw_proxies g)" "h_inv ?h" "list_all fresh_upstream (h_upstreams ?h)"
    "length (h_upstreams ?h) = length (rc_Upstreams route)"
    using assms(1) by (simp_all add: proxy_wired_def)
  then have "slots (h_upstreams ?h ! k) = 0" if "k < length (h_upstreams ?h)" for k
    using that fresh_slots by (simp add: h_inv_def list_all_length)
  with h assms(2) show ?thesis by (simp add: proxy_good_def px_inv_def list_all_length)
qed

lemma within_mono:
  assumes "\<And>p. P p \<Longrightarrow> P' p" and "\<And>i. B i \<Longrightarrow> B' i" and "\<And>i. S i \<Longrightarrow> S' i"
  shows "route_within P B S rr \<Longrightarrow> route_within P' B' S' rr" and "handler_within P B S mh \<Longrightarrow> handler_within P' B' S' mh"
    and "work_within P B S x \<Longrightarrow> work_within P' B' S' x"
proof -
  have opt: "pred_option p a \<Longrightarrow> (\<And>i. p i \<Longrightarrow> q i) \<Longrightarrow> pred_option q a" for p q :: "nat \<Rightarrow> bool" and a
    by (cases a) simp_all
  show route: "route_within P B S rr \<Longrightarrow> route_within P' B' S' rr" for rr
    using assms opt [of B _ B'] opt [of S _ S'] by (auto simp: route_within_def)
  show "handler_within P B S mh \<Longrightarrow> handler_within P' B' S' mh"
    using assms opt [of B _ B'] opt [of S _ S'] route by (auto simp: handler_within_def list_all_iff)
  show "work_within P B S x \<Longrightarrow> work_within P' B' S' x"
    using assms opt [of B _ B'] opt [of S _ S'] route by (cases x) (auto simp: list_all_iff)
qed

lemma fl_inv_built:
  assumes inv: "all_within s P B S" "objects_good s P B S" and valid: "valid_config (be_parse benv) cfg"
    and b: "buildRuntime benv cfg (fl_store s) = (g, res)" and size: "list_all (\<lambda>route. length (rc_Upstreams route) < 2 ^ 64) (cfg_Routes cfg)"
  shows "fl_inv (s\<lparr>fl_store := g, fl_handlers := (case res of Inl e \<Rightarrow> [] | Inr rt \<Rightarrow> [rb_handler rt]) @ fl_handlers s\<rparr>)"
proof (cases res)
  case (Inl e)
  with buildRuntime_sound [OF valid b] have "extends (fl_store s) g" by (auto simp: built_def)
  note keep = good_extends [OF this]
  have "objects_good (s\<lparr>fl_store := g\<rparr>) P B S" using inv(2) keep by (auto simp: objects_good_def)
  moreover have "all_within (s\<lparr>fl_store := g\<rparr>) P B S" using inv(1) by (simp add: all_within_def)
  ultimately show ?thesis unfolding fl_inv_def using Inl by auto
next
  case (Inr rt)
  with buildRuntime_sound [OF valid b] have wired: "bundle_wired (fl_store s) cfg g rt" by simp
  then have keep: "extends (fl_store s) g" and routes: "list_all2 (wired g) (cfg_Routes cfg) (rb_routes rt)"
    and rate: "rate_wired g (sc_RateLimitRPS (cfg_Server cfg)) (sc_RateLimitBurst (cfg_Server cfg)) (mh_rate (rb_handler rt))"
    and conc: "semaphore_wired g (sc_MaxConcurrency (cfg_Server cfg)) (mh_concurrency (rb_handler rt))"
    and mh: "mh_routes (rb_handler rt) = rb_routes rt"
    by (simp_all add: bundle_wired_def)
  have route: "\<exists>c \<in> set (cfg_Routes cfg). wired g c rr" if "rr \<in> set (rb_routes rt)" for rr
    using routes that by (metis in_set_conv_nth list_all2_conv_all_nth)
  let ?P = "\<lambda>p. P p \<or> (\<exists>rr \<in> set (rb_routes rt). rr_proxyHandler rr = p)"
  let ?B = "\<lambda>i. B i \<or> mh_rate (rb_handler rt) = Some i \<or> (\<exists>rr \<in> set (rb_routes rt). rr_rateLimiter rr = Some i)"
  let ?S = "\<lambda>i. S i \<or> mh_concurrency (rb_handler rt) = Some i \<or> (\<exists>rr \<in> set (rb_routes rt). rr_concurrencyLimiter rr = Some i)"
  let ?s = "s\<lparr>fl_store := g, fl_handlers := rb_handler rt # fl_handlers s\<rparr>"
  have opt: "pred_option p a" if "\<And>i. a = Some i \<Longrightarrow> p i" for p :: "nat \<Rightarrow> bool" and a
    using that by (cases a) simp_all
  have "handler_within ?P ?B ?S (rb_handler rt)"
    using buildRuntime_led [OF b [unfolded Inr]] mh
    by (auto simp: handler_within_def route_within_def list_all_iff intro!: opt)
  moreover have mono: "handler_within P B S m \<Longrightarrow> handler_within ?P ?B ?S m" "work_within P B S x \<Longrightarrow> work_within ?P ?B ?S x" for m x
    by (rule within_mono; simp)+
  ultimately have "all_within ?s ?P ?B ?S"
    using inv(1) by (auto simp: all_within_def list_all_iff)
  moreover have "objects_good ?s ?P ?B ?S"
    unfolding objects_good_def
  proof (intro conjI allI impI)
    fix i assume new: "?S i"
    show "place_good (fl_store ?s) i (returns i (fl_threads ?s))"
    proof (cases "S i")
      case True
      then show ?thesis using inv(2) good_extends(1) [OF keep] by (simp add: objects_good_def)
    next
      case False
      then have "\<exists>n. semaphore_wired g n (Some i)" using new conc route by (auto simp: wired_def) (metis)+
      then show ?thesis using fresh_good(1) returns_outside [OF inv(1) False] by auto
    qed
  next
    fix i show "if ?B i then bucket_good (fl_store ?s) i (fl_admitted ?s i) (fl_fired ?s i) else fl_admitted ?s i = 0"
    proof (cases "B i")
      case True
      then have "bucket_good (fl_store s) i (fl_admitted s i) (fl_fired s i)" using inv(2) by (simp add: objects_good_def)
      with True good_extends(2) [OF keep] show ?thesis by simp
    next
      case False
      then have none: "fl_admitted s i = 0" using inv(2) by (simp add: objects_good_def)
      have "bucket_good g i 0 (fl_fired s i)" if new: "?B i"
      proof -
        have "\<exists>r b. rate_wired g r b (Some i)" using False new rate route by (auto simp: wired_def) (metis)+
        then show ?thesis using fresh_good(2) by blast
      qed
      then show ?thesis using none by simp
    qed
  next
    fix p assume new: "?P p"
    show "proxy_good (fl_store ?s) p (awaited p (fl_threads ?s))"
    proof (cases "P p")
      case True
      then show ?thesis using inv(2) good_extends(3) [OF keep] by (simp add: objects_good_def)
    next
      case False
      then have "\<exists>c \<in> set (cfg_Routes cfg). proxy_wired g c p" using new route by (auto simp: wired_def)
      then show ?thesis using fresh_proxy_good size awaited_outside [OF inv(1) False] by (auto simp: list_all_iff)
    qed
  qed
  ultimately show ?thesis unfolding fl_inv_def using Inr by auto
qed

lemma fl_inv_store:
  assumes "fl_inv s" and "gw_semaphores g = gw_semaphores (fl_store s)"
    and "\<And>i. bucket_good (fl_store s) i (fl_admitted s i) (fl_fired s i) \<Longrightarrow> bucket_good g i (fl_admitted s i) (fired i)"
    and "\<And>p ks. proxy_good (fl_store s) p ks \<Longrightarrow> proxy_good g p ks"
  shows "fl_inv (s\<lparr>fl_store := g, fl_fired := fired\<rparr>)"
proof -
  obtain P B S where "all_within s P B S" "objects_good s P B S" using assms(1) by (auto simp: fl_inv_def)
  with objects_store [OF this(2) assms(2-4)] show ?thesis unfolding fl_inv_def by (metis all_within_store)
qed

lemma fl_inv_proxy:
  assumes "fl_inv s" and "\<And>ks. px_step \<lparr>px_handler = gw_proxies (fl_store s) ! q, px_flying = ks\<rparr> \<lparr>px_handler = h, px_flying = ks\<rparr>"
  shows "fl_inv (s\<lparr>fl_store := put_proxy q h (fl_store s)\<rparr>)"
proof -
  have "bucket_good (put_proxy q h (fl_store s)) i adm fir" if "bucket_good (fl_store s) i adm fir" for i adm fir
    using that by (rule bucket_same [rotated]) (simp add: frame)
  moreover have "proxy_good (put_proxy q h (fl_store s)) p ks" if "proxy_good (fl_store s) p ks" for p ks
    using that assms(2) by (rule proxy_put)
  ultimately show ?thesis
    using fl_inv_store [OF assms(1), of "put_proxy q h (fl_store s)" "fl_fired s"] by (simp add: frame same_fired)
qed

lemma fl_inv_others:
  assumes "fl_inv s"
  shows "fl_inv (s\<lparr>fl_store := close_bucket a (fl_store s)\<rparr>)" and "fl_inv (s\<lparr>fl_store := put_registry reg (fl_store s)\<rparr>)"
proof -
  have "proxy_good (close_bucket a (fl_store s)) p ks" if "proxy_good (fl_store s) p ks" for p ks
    using that by (rule proxy_same [rotated]) (simp add: close_bucket_def)
  then show "fl_inv (s\<lparr>fl_store := close_bucket a (fl_store s)\<rparr>)"
    using fl_inv_store [OF assms, of "close_bucket a (fl_store s)" "fl_fired s"] bucket_closed
    by (simp add: close_bucket_def frame same_fired)
  have "bucket_good (put_registry reg (fl_store s)) i adm fir" if "bucket_good (fl_store s) i adm fir" for i adm fir
    using that by (rule bucket_same [rotated]) (simp add: frame)
  moreover have "proxy_good (put_registry reg (fl_store s)) p ks" if "proxy_good (fl_store s) p ks" for p ks
    using that by (rule proxy_same [rotated]) (simp add: frame)
  ultimately show "fl_inv (s\<lparr>fl_store := put_registry reg (fl_store s)\<rparr>)"
    using fl_inv_store [OF assms, of "put_registry reg (fl_store s)" "fl_fired s"] by (simp add: frame same_fired)
qed

lemma fl_inv_ticked:
  assumes "fl_inv s" and "tb_step (gw_buckets (fl_store s) ! j) lab b" and "admissions [lab] = 0"
  shows "fl_inv (s\<lparr>fl_store := put_bucket (Some j) (Some b) (fl_store s), fl_fired := (fl_fired s)(j := fl_fired s j + fires [lab])\<rparr>)"
proof (rule fl_inv_store [OF assms(1)])
  fix i assume good: "bucket_good (fl_store s) i (fl_admitted s i) (fl_fired s i)"
  show "bucket_good (put_bucket (Some j) (Some b) (fl_store s)) i (fl_admitted s i) (((fl_fired s)(j := fl_fired s j + fires [lab])) i)"
    using bucket_step [OF good, of lab b] bucket_other [OF good, of j "Some b"] assms(2,3) by (cases "i = j") simp_all
next
  fix p ks assume "proxy_good (fl_store s) p ks"
  then show "proxy_good (put_bucket (Some j) (Some b) (fl_store s)) p ks" by (rule proxy_same [rotated]) simp
qed (simp add: frame)

lemma fl_inv_step [step_inv]:
  assumes "fl_step s s'" and "fl_inv s"
  shows "fl_inv s'"
proof -
  obtain P B S where inv: "all_within s P B S" "objects_good s P B S" using assms(2) by (auto simp: fl_inv_def)
  note proxy = px_step.checked [where s = "\<lparr>px_handler = h, px_flying = ks\<rparr>" for h ks, simplified]
    px_step.closed [where s = "\<lparr>px_handler = h, px_flying = ks\<rparr>" for h ks, simplified]
  from assms(1) show ?thesis
  proof cases
    case (built benv cfg g res)
    then show ?thesis using fl_inv_built [OF inv] by blast
  next
    case (arrived mh r w)
    have "handler_within P B S mh" using inv(1) arrived(2) by (simp add: all_within_def list_all_iff)
    then have "all_within s' P B S"
      using inv(1) by (simp add: arrived(1) all_within_def main_thread_def tidy_def handler_within_def)
    moreover have "objects_good s' P B S"
      using inv(2) by (simp add: arrived(1) objects_good_def returns_def awaited_def main_thread_def)
    ultimately show ?thesis unfolding fl_inv_def by blast
  next
    case (called ts x todo r w us env g t)
    from fl_inv_called [OF inv called(2,3,4)] called(1) show ?thesis unfolding fl_inv_def by blast
  next
    case (ticked j lab b)
    have "admissions [lab] = 0" using ticked(4) by (auto simp: admissions_def)
    then show ?thesis unfolding ticked(1) by (rule fl_inv_ticked [OF assms(2) ticked(3)])
  next
    case (probed now pr p k)
    show ?thesis unfolding probed probe_upstream_def by (rule fl_inv_proxy [OF assms(2) proxy(1)])
  next
    case (closes_proxy p)
    show ?thesis unfolding closes_proxy close_proxy_def by (rule fl_inv_proxy [OF assms(2) proxy(2)])
  qed (use fl_inv_others [OF assms(2)] in auto)
qed

lemma fl_reach_inv: "fl_reach s \<Longrightarrow> fl_inv s"
proof (induction rule: fl_reach.induct)
  case (start reg)
  show ?case unfolding fl_inv_def
    by (intro exI [of _ "\<lambda>_. False"]) (simp add: all_within_def objects_good_def)
qed (rule fl_inv_step)

section \<open>Properties\<close>

text \<open>
  C2: Places: whatever interleaves - requests that come, wait, fail or end, reloads that build and close -
  a limiter that a handler uses counts exactly the requests that have still to give a place back, and these
  are never more than its capacity. So no place is lost or given back twice, by any way through the
  handlers, and when all requests have ended all places are free.
\<close>

theorem requests_hold_places:
  assumes "fl_reach s" and "mh \<in> set (fl_handlers s)"
    and "mh_concurrency mh = Some i \<or> (\<exists>rr \<in> set (mh_routes mh). rr_concurrencyLimiter rr = Some i)"
  shows "lim_inUse (get_at gw_semaphores (Some i) (fl_store s)) = int (returns i (fl_threads s))
    \<and> int (returns i (fl_threads s)) \<le> lim_Capacity (get_at gw_semaphores (Some i) (fl_store s))"
proof -
  obtain P B S where inv: "all_within s P B S" "objects_good s P B S" using fl_reach_inv [OF assms(1)] by (auto simp: fl_inv_def)
  have "handler_within P B S mh" using inv(1) assms(2) by (simp add: all_within_def list_all_iff)
  then have "S i" using assms(3) by (auto simp: handler_within_def route_within_def list_all_iff)
  then have "place_good (fl_store s) i (returns i (fl_threads s))" using inv(2) by (simp add: objects_good_def)
  then show ?thesis by (auto simp: place_good_def get_at_def lim_ok_def chan_ok_def)
qed

text \<open>The first request of a gateway, after the global limiters.\<close>

lemma demo_built:
  obtains g b i j rr where "buildRuntime demo_build demo_config (put_registry (Some (NewRegistry 0)) no_objects) = (g, Inr b)"
    and "rate_wired g 100 100 (Some j)" and "semaphore_wired g 10 (Some i)" and "wired g demo_route rr"
    and "mh_rate (rb_handler b) = Some j" and "mh_concurrency (rb_handler b) = Some i" and "mh_routes (rb_handler b) = [rr]"
proof -
  let ?g0 = "put_registry (Some (NewRegistry 0)) no_objects"
  have v: "valid_config (be_parse demo_build) demo_config" using demo_config_valid by simp
  have l: "list_all literal_pattern (config_patterns demo_config)" unfolding demo_patterns by code_simp
  have d: "distinct (config_patterns demo_config)" by (simp add: demo_patterns)
  obtain g b where gb: "buildRuntime demo_build demo_config ?g0 = (g, Inr b)" and ok: "bundle_wired ?g0 demo_config g b"
    using buildRuntime_literal [OF v demo_rules_literal l, of ?g0] d by (auto simp: bundle_ok_def)
  have w: "rate_wired g 100 100 (mh_rate (rb_handler b))" "semaphore_wired g 10 (mh_concurrency (rb_handler b))"
    "list_all2 (wired g) [demo_route] (mh_routes (rb_handler b))"
    using ok by (simp_all add: bundle_wired_def demo_config_def)
  obtain j where j: "mh_rate (rb_handler b) = Some j" using w(1) by (cases "mh_rate (rb_handler b)") (simp_all add: rate_wired_def)
  obtain i where i: "mh_concurrency (rb_handler b) = Some i"
    using w(2) by (cases "mh_concurrency (rb_handler b)") (simp_all add: semaphore_wired_def)
  obtain rr where rr: "mh_routes (rb_handler b) = [rr]" "wired g demo_route rr" using w(3) by (auto simp: list_all2_Cons1)
  from that [OF gb w(1) [unfolded j] w(2) [unfolded i] rr(2) j i rr(1)] show ?thesis .
qed

lemma demo_flight:
  "\<exists>s mh rr i j. fl_reach s \<and> mh \<in> set (fl_handlers s) \<and> rr \<in> set (mh_routes mh) \<and> mh_concurrency mh = Some i \<and>
    mh_rate mh = Some j \<and> returns i (fl_threads s) = 1 \<and> fl_admitted s j = 1 \<and>
    h_upstreams (gw_proxies (fl_store s) ! rr_proxyHandler rr) \<noteq> [] \<and>
    (\<exists>timeout todo r w. fl_threads s = [thr (SetDeadline timeout # todo) r w])"
proof -
  obtain g b i j rr where gb: "buildRuntime demo_build demo_config (put_registry (Some (NewRegistry 0)) no_objects) = (g, Inr b)"
    and rate: "rate_wired g 100 100 (Some j)" and conc: "semaphore_wired g 10 (Some i)" and rr: "wired g demo_route rr"
    and ptr: "mh_rate (rb_handler b) = Some j" "mh_concurrency (rb_handler b) = Some i" "mh_routes (rb_handler b) = [rr]"
    by (rule demo_built)
  let ?mh = "rb_handler b"
  have v: "valid_config (be_parse demo_build) demo_config" using demo_config_valid by simp
  define s1 where "s1 = \<lparr>fl_store = g, fl_handlers = [?mh], fl_threads = [], fl_admitted = (\<lambda>_. 0), fl_fired = (\<lambda>_. 0)\<rparr>"
  have "fl_reach s1"
    using fl_reach.step [OF fl_reach.start fl_step.built [OF v, of _ g "Inr b"]] gb by (simp add: s1_def demo_config_def demo_route_def)
  define t where "t = main_thread ?mh api_request (Conn new_conn)"
  have "fl_step s1 (s1\<lparr>fl_threads := [t]\<rparr>)"
    using fl_step.arrived [of ?mh s1] by (simp add: s1_def t_def)
  with \<open>fl_reach s1\<close> have "fl_reach (s1\<lparr>fl_threads := [t]\<rparr>)" by (rule fl_reach.step)
  obtain l' where a: "tb_Allow (Some (gw_buckets g ! j)) = (True, Some l')"
    using fresh_limits_admit(1) [OF rate] by (auto simp: get_at_def split_beta)
  let ?g1 = "put_bucket (Some j) (Some l') g"
  have "get_at gw_buckets (Some j) g \<noteq> None" by (simp add: get_at_def)
  then have p1: "perform demo_serve (AskRate (Some j)) todo r g w = (?g1, thr todo r w)" for todo r w
    by (rule ask_rate_cases(2)) (simp add: get_at_def a del: tb_Allow.simps)
  let ?todo = "[AskPlace (Some i), SetDeadline (mh_timeout ?mh), FindRoute (mh_mux ?mh) (mh_routes ?mh), Log api_request]"
  have keeps: "rq_Context (se_prepare demo_serve q) = rq_Context q" for q by (simp add: demo_serve_def)
  let ?t1 = "thr ?todo api_request (newStatusRecorder (Conn new_conn))"
  define s2 where "s2 = s1\<lparr>fl_store := ?g1, fl_threads := [?t1], fl_admitted := admits (AskRate (Some j)) g\<rparr>"
  have "fl_step (s1\<lparr>fl_threads := [t]\<rparr>) s2"
    using fl_step.called [of "s1\<lparr>fl_threads := [t]\<rparr>" "[]" "AskRate (Some j)" ?todo api_request "newStatusRecorder (Conn new_conn)" "[]"
        demo_serve ?g1 ?t1] keeps p1 a
    by (simp add: s1_def s2_def t_def main_thread_def ptr del: perform.simps)
  with \<open>fl_reach (s1\<lparr>fl_threads := [t]\<rparr>)\<close> have "fl_reach s2" by (rule fl_reach.step)
  have "fst (tryAcquire (get_at gw_semaphores (Some i) ?g1))"
    using fresh_limits_admit(2) [OF conc] by (simp add: get_at_def frame del: tryAcquire.simps)
  then obtain l2 where q: "tryAcquire (get_at gw_semaphores (Some i) ?g1) = (True, l2)" by (metis prod.collapse)
  let ?g2 = "put_semaphore (Some i) l2 ?g1"
  let ?t2 = "thr (defer_work (GiveBack i) (tl ?todo)) api_request (newStatusRecorder (Conn new_conn))"
  have none: "admits (AskPlace (Some i)) ?g1 k = 0" for k by (simp add: admits_def)
  define s3 where "s3 = s2\<lparr>fl_store := ?g2, fl_threads := [?t2]\<rparr>"
  have "fl_step s2 s3"
    using fl_step.called [of s2 "[]" "AskPlace (Some i)" "tl ?todo" api_request "newStatusRecorder (Conn new_conn)" "[]"
        demo_serve ?g2 ?t2] keeps ask_place_cases(2) [OF q] none
    by (simp add: s1_def s2_def s3_def del: perform.simps)
  with \<open>fl_reach s2\<close> have "fl_reach s3" by (rule fl_reach.step)
  moreover have "returns i (fl_threads s3) = 1" by (simp add: s3_def returns_def count_defer)
  moreover have "h_upstreams (gw_proxies (fl_store s3) ! rr_proxyHandler rr) \<noteq> []"
    using rr by (simp add: s3_def wired_def proxy_wired_def)
  moreover have "?mh \<in> set (fl_handlers s3)" "fl_admitted s3 j = 1"
    by (simp_all add: s3_def s2_def s1_def admits_def a del: tb_Allow.simps)
  moreover have "rr \<in> set (mh_routes ?mh)" by (simp add: ptr)
  moreover have "\<exists>timeout todo r w. fl_threads s3 = [thr (SetDeadline timeout # todo) r w]"
    by (simp add: s3_def defer_work_def)
  ultimately show ?thesis using ptr by blast
qed

theorem requests_hold_places_witness:
  "\<exists>s i. fl_reach s \<and> lim_inUse (get_at gw_semaphores (Some i) (fl_store s)) = 1
    \<and> 1 \<le> lim_Capacity (get_at gw_semaphores (Some i) (fl_store s))"
proof -
  from demo_flight obtain s mh i where s: "fl_reach s" "mh \<in> set (fl_handlers s)" "mh_concurrency mh = Some i"
    and one: "returns i (fl_threads s) = 1" by auto
  from requests_hold_places [OF s(1,2), of i] s(3) one s(1) show ?thesis by auto
qed



text \<open>
  C1: Half-open slots: whatever interleaves, a breaker of a route has given out at most as many half-open
  slots as there are requests of the gateway that wait for an answer of its upstream. So a breaker whose
  upstream no request waits for holds none, and lets a request pass as soon as its open time is over.
\<close>

theorem slots_are_awaited:
  assumes "fl_reach s" and "mh \<in> set (fl_handlers s)" and "rr \<in> set (mh_routes mh)" and "p = rr_proxyHandler rr"
    and "k < length (h_upstreams (gw_proxies (fl_store s) ! p))" and "u = h_upstreams (gw_proxies (fl_store s) ! p) ! k"
  shows "slots u \<le> int (count_list (awaited p (fl_threads s)) k)
    \<and> (k \<notin> set (awaited p (fl_threads s)) \<longrightarrow>
        pred_option (\<lambda>c. cb_nextAttemptAt c \<le> t \<longrightarrow> fst (cb_allow t c)) (up_circuitBreaker u))"
proof -
  obtain P B S where inv: "all_within s P B S" "objects_good s P B S" using fl_reach_inv [OF assms(1)] by (auto simp: fl_inv_def)
  have "handler_within P B S mh" using inv(1) assms(2) by (simp add: all_within_def list_all_iff)
  then have "P p" using assms(3,4) by (auto simp: handler_within_def route_within_def list_all_iff)
  then have "proxy_good (fl_store s) p (awaited p (fl_threads s))" using inv(2) by (simp add: objects_good_def)
  then have px: "px_inv (gw_proxies (fl_store s) ! p) \<lparr>px_handler = gw_proxies (fl_store s) ! p, px_flying = awaited p (fl_threads s)\<rparr>"
    by (simp add: proxy_good_def)
  show ?thesis
  proof (cases "up_circuitBreaker u")
    case None
    then show ?thesis by (simp add: slots_def)
  next
    case (Some c)
    with px_inv_slots [OF px assms(5), of c t] assms(6) show ?thesis by (simp add: slots_def)
  qed
qed

theorem slots_are_awaited_witness:
  "\<exists>s p. fl_reach s \<and> h_upstreams (gw_proxies (fl_store s) ! p) \<noteq> []
    \<and> slots (h_upstreams (gw_proxies (fl_store s) ! p) ! 0) \<le> int (count_list (awaited p (fl_threads s)) 0)"
proof -
  from demo_flight obtain s mh rr where s: "fl_reach s" "mh \<in> set (fl_handlers s)" "rr \<in> set (mh_routes mh)"
    and ups: "h_upstreams (gw_proxies (fl_store s) ! rr_proxyHandler rr) \<noteq> []" by auto
  from slots_are_awaited [OF s refl _ refl, of 0] s(1) ups show ?thesis by auto
qed

section \<open>Every request ends\<close>

text \<open>What a call is counted as: itself, and the calls it can lead to.\<close>

fun call_count :: "work \<Rightarrow> nat" where
  "call_count (AskPlace a) = 2"
| "call_count (FindRoute m routes) = 7"
| "call_count (Choose p) = 2"
| "call_count x = 1"

definition calls_left :: "thread \<Rightarrow> nat" where
  "calls_left t = sum_list (map call_count (th_todo t))"

text \<open>A request that has something to do logs last, and has its recorder until then.\<close>

definition logs_last :: "work list \<Rightarrow> bool" where
  "logs_last todo \<longleftrightarrow> (\<exists>pre q. todo = pre @ [Log q] \<and> (\<forall>q'. Log q' \<notin> set pre))"

definition going :: "thread \<Rightarrow> bool" where
  "going t \<longleftrightarrow> th_todo t = [] \<or> logs_last (th_todo t) \<and> is_recorder (th_writer t)"

lemma logs_last_Cons: "logs_last (x # todo) \<longleftrightarrow> (if todo = [] then \<exists>q. x = Log q else (\<forall>q. x \<noteq> Log q) \<and> logs_last todo)"
  by (auto simp: logs_last_def Cons_eq_append_conv)

lemma logs_last_append: "(\<forall>q. Log q \<notin> set pre) \<Longrightarrow> logs_last todo \<Longrightarrow> logs_last (pre @ todo)"
  unfolding logs_last_def by (elim exE conjE, rule_tac x = "pre @ prea" in exI) auto

lemma logs_last_unwind:
  assumes "logs_last todo"
  shows "logs_last (unwind todo)"
proof -
  obtain pre q where t: "todo = pre @ [Log q]" "\<forall>q'. Log q' \<notin> set pre" using assms by (auto simp: logs_last_def)
  have "unwind (pre @ [Log q]) = unwind pre @ [Log q]" unfolding unwind_def by (induction pre) simp_all
  moreover have "\<forall>q'. Log q' \<notin> set (unwind pre)" using t(2) by (auto simp: unwind_def dest: set_dropWhileD)
  ultimately show ?thesis unfolding logs_last_def t(1) by blast
qed

lemma logs_last_defer:
  assumes "logs_last todo"
  shows "logs_last (defer_work (GiveBack i) todo)"
proof -
  have "\<forall>q. Log q \<notin> set (takeWhile (\<lambda>x. \<not> deferred x) todo @ [GiveBack i])" by (auto dest: set_takeWhileD)
  from logs_last_append [OF this logs_last_unwind [OF assms]] show ?thesis by (simp add: defer_work_def)
qed

lemma refusal_recorder: "is_recorder w \<Longrightarrow> is_recorder (http_Error msg 429 (plain_text w))"
    "is_recorder w \<Longrightarrow> is_recorder (http_Error msg 503 (plain_text w))"
  by (intro any.W_error any.W_plain; simp add: final_status_def informational_def)+

lemma recorder_kept:
  assumes "perform env x todo r g w = (g', t)" and w: "is_recorder w" and "\<forall>q. x \<noteq> Log q"
  shows "is_recorder (th_writer t)"
proof (cases x)
  case (AskRate a)
  then show ?thesis using assms(1) w refusal_recorder [OF w]
    by (auto simp: ask_rate_def simp del: tb_Allow.simps split: if_splits prod.splits)
next
  case (AskPlace a)
  then show ?thesis using assms(1) w refusal_recorder [OF w]
    by (auto simp: ask_place_def Let_def simp del: tryAcquire.simps
        split: option.splits if_splits prod.splits)
next
  case (FindRoute m routes)
  have e: "is_recorder (http_Error msg st w)" if "final_status st" for msg st using any.W_error [OF w that] .
  have "is_recorder (th_writer (find_route env routes a todo r w))" for a
    using w e [of 404] e [of 405] any.W_body [OF w]
    by (cases "(env, routes, a, todo, r, w)" rule: find_route.cases)
      (auto simp: Let_def handlePing_def handleHealth_def handleVersion_def get_only_def final_status_def informational_def)
  moreover have "is_recorder (fold run_op own w)" if "se_own env m r = Some own" for own
    using env_allowed_recorder [of env] that w by (auto simp: env_allowed_def)
  ultimately show ?thesis using assms(1) FindRoute by (auto split: option.splits)
next
  case (Choose p)
  have "is_recorder (http_Error msg 503 (edit_header f (edit_header f' w)))" for msg f f'
    by (intro any.W_error any.W_edit w) (simp add: final_status_def informational_def)
  then show ?thesis using assms(1) Choose w
    by (auto simp: choose_upstream_def serve_select_def Let_def split: prod.splits sum.splits option.splits)
next
  case (Await p out)
  obtain informs reply where b: "se_backend env out = (informs, reply)" by (metis surj_pair)
  have "reply_allowed is_recorder (informs, reply)" using env_allowed_recorder [of env] b by (metis env_allowed_def)
  from any.W_reply [OF this w] show ?thesis using assms(1) Await b by (auto simp: await_def split_beta)
next
  case (NameRoute n)
  then show ?thesis using assms(1) w by (cases w) auto
qed (use assms in auto)

lemma call_counts:
  assumes call: "perform env x todo r g w = (g', t)" and w: "is_recorder w"
  shows "sum_list (map call_count (th_todo t)) < sum_list (map call_count (x # todo))"
proof -
  have pos: "0 < call_count x" by (cases x) simp_all
  let ?n = "\<lambda>xs. sum_list (map call_count xs)"
  have "?n (takeWhile (\<lambda>x. \<not> deferred x) todo) + ?n (unwind todo) = ?n todo"
    by (simp flip: sum_list_append map_append add: split_work)
  then have le: "?n (unwind todo) \<le> ?n todo" "?n (defer_work (GiveBack i) todo) = Suc (?n todo)" for i
    by (simp_all add: defer_work_def)
  from call show ?thesis
  proof (cases rule: call_shape)
    case stuck
    then have "th_todo t = todo"
      using call w by (cases w) (auto simp: log_request_def accessLogMiddleware_def newStatusRecorder_def Let_def)
    with stuck(2) show ?thesis by simp
  qed (use pos le in \<open>simp_all add: route_work_def\<close>)
qed

lemma going_kept:
  assumes call: "perform env x todo r g w = (g', t)" and go: "going (thr (x # todo) r w)"
  shows "going t"
proof -
  have w: "is_recorder w" and last: "logs_last (x # todo)" using go by (simp_all add: going_def)
  show ?thesis
  proof (cases "todo = []")
    case True
    then obtain q where "x = Log q" using last by (auto simp: logs_last_Cons)
    with call w True show ?thesis
      by (cases w) (auto simp: going_def log_request_def accessLogMiddleware_def newStatusRecorder_def Let_def)
  next
    case False
    then have x: "\<forall>q. x \<noteq> Log q" and todo: "logs_last todo" using last by (auto simp: logs_last_Cons)
    from call have "logs_last (th_todo t)"
    proof (cases rule: call_shape)
      case (route m routes i)
      with todo False show ?thesis by (simp add: logs_last_Cons route_work_def)
    qed (use todo x False logs_last_unwind logs_last_defer last in \<open>auto simp: logs_last_Cons\<close>)
    with recorder_kept [OF call w x] show ?thesis by (simp add: going_def)
  qed
qed

lemma main_thread_going: "going (main_thread mh r w)" "calls_left (main_thread mh r w) = 12"
  by (simp_all add: going_def main_thread_def logs_last_Cons newStatusRecorder_def calls_left_def)

lemma threads_going: "fl_reach s \<Longrightarrow> list_all (\<lambda>t. going t \<and> calls_left t \<le> 12) (fl_threads s)"
proof (induction rule: fl_reach.induct)
  case (step s s')
  from step(2) show ?case
  proof cases
    case (called ts x todo r w us env g t)
    have go: "going (thr (x # todo) r w)" and le: "calls_left (thr (x # todo) r w) \<le> 12"
      using step.IH called(2) by simp_all
    then have "calls_left t < calls_left (thr (x # todo) r w)"
      using call_counts [OF called(4)] by (simp add: going_def calls_left_def)
    with step.IH called le going_kept [OF called(4) go] show ?thesis by simp
  qed (use step.IH main_thread_going in simp_all)
qed simp

text \<open>
  C7: Every request ends: whatever interleaves, a call of a request, which can always be made, brings it
  nearer to its end, and no request makes more than 12 calls. None waits for another, and the loop of
  \<^verbatim>\<open>setRouteIDToResponseWriter\<close>, which need not end, always does, for the recorder is there. (A backend
  is taken to answer or fail; the request's deadline sees to that.)
\<close>

theorem every_request_ends:
  assumes "fl_reach s" and "fl_threads s = ts @ thr (x # todo) r w # us" and "perform env x todo r (fl_store s) w = (g, t)"
  shows "calls_left t < calls_left (thr (x # todo) r w) \<and> calls_left (thr (x # todo) r w) \<le> 12"
proof -
  have "going (thr (x # todo) r w)" and le: "calls_left (thr (x # todo) r w) \<le> 12"
    using threads_going [OF assms(1)] by (simp_all add: assms(2))
  then have "is_recorder w" by (simp add: going_def)
  from call_counts [OF assms(3) this] le show ?thesis by (simp add: calls_left_def)
qed

theorem every_request_ends_witness:
  "\<exists>s x todo r w t. fl_reach s \<and> fl_threads s = [thr (x # todo) r w] \<and> snd (perform demo_serve x todo r (fl_store s) w) = t
    \<and> calls_left t < calls_left (thr (x # todo) r w)"
proof -
  from demo_flight obtain s timeout todo r w where s: "fl_reach s" "fl_threads s = [] @ thr (SetDeadline timeout # todo) r w # []"
    by auto
  obtain g t where p: "perform demo_serve (SetDeadline timeout) todo r (fl_store s) w = (g, t)" by (metis surj_pair)
  from every_request_ends [OF s p] show ?thesis using s p by (metis append_Nil snd_conv)
qed

end
