(* ===== verification/Lifecycle.thy ===== *)
theory Lifecycle
  imports Gateway_System
begin

text \<open>
  Starting and stopping: \<^verbatim>\<open>internal/server/lifecycle.go\<close> and \<^verbatim>\<open>cmd/gateway/main.go\<close>. What
  \<^verbatim>\<open>ListenAndServe\<close>, \<^verbatim>\<open>Shutdown\<close> and \<^verbatim>\<open>Close\<close> of an \<^verbatim>\<open>http.Server\<close> return, and in which order the
  goroutines send it, is an input; an error is a value.
\<close>

section \<open>Errors\<close>

datatype serve_error = ErrServerClosed | ServeError string

datatype stop_error =
    ServerStopped string serve_error
  | ShutdownFailed string string
  | CloseFailed string string
  | Joined "stop_error list"

text \<open>\<^verbatim>\<open>errors.Join\<close>: nil if all are nil, otherwise the ones that are not.\<close>

definition errors_Join :: "stop_error option \<Rightarrow> stop_error option \<Rightarrow> stop_error option" where
  "errors_Join a b =
     (let errs = List.map_filter id [a, b] in if errs = [] then None else Some (Joined errs))"

fun error_leaves :: "stop_error \<Rightarrow> stop_error list" where
  "error_leaves (Joined es) = concat (map error_leaves es)"
| "error_leaves e = [e]"

section \<open>The servers\<close>

definition activeHTTPServers :: "server \<Rightarrow> (string \<times> httpServer option) list" where
  "activeHTTPServers s =
     (let servers = [(''main'', sv_httpServer s)]
      in if sv_adminHTTPServer s \<noteq> None then servers @ [(''admin'', sv_adminHTTPServer s)] else servers)"

text \<open>What a goroutine of \<^verbatim>\<open>Start\<close> sends when its server has returned.\<close>

definition start_message :: "string \<times> serve_error option \<Rightarrow> stop_error option" where
  "start_message r = (case r of (name, err) \<Rightarrow>
     (case err of
        None \<Rightarrow> None
      | Some e \<Rightarrow> if e \<noteq> ErrServerClosed then Some (ServerStopped name e) else None))"

text \<open>
  The receiving loop: \<open>n\<close> messages are still to come, of which the listed ones arrive, in this order.
  \<open>None\<close> means that it blocks: no message is there, and some server still listens.
\<close>

fun receive :: "nat \<Rightarrow> stop_error option list \<Rightarrow> stop_error option option" where
  "receive 0 ms = Some None"
| "receive (Suc n) [] = None"
| "receive (Suc n) (Some e # ms) = Some (Some e)"
| "receive (Suc n) (None # ms) = receive n ms"

definition Start :: "server \<Rightarrow> (string \<times> serve_error option) list \<Rightarrow> stop_error option option" where
  "Start s arrivals = receive (length (activeHTTPServers s)) (map start_message arrivals)"

text \<open>\<^verbatim>\<open>Shutdown\<close>: all messages are awaited and joined as they arrive, then the resources are closed.\<close>

definition shutdown_message :: "string \<times> string option \<Rightarrow> stop_error option" where
  "shutdown_message r = (case r of (name, err) \<Rightarrow> map_option (ShutdownFailed name) err)"

definition join_all :: "stop_error option list \<Rightarrow> stop_error option" where
  "join_all ms = fold (\<lambda>m result. errors_Join result m) ms None"

definition Shutdown :: "(string \<times> string option) list \<Rightarrow> site \<Rightarrow> site \<times> stop_error option" where
  "Shutdown arrivals t =
     (let (s, g) = CloseResource (st_server t) (st_store t)
      in (\<lparr>st_server = s, st_store = g\<rparr>, join_all (map shutdown_message arrivals)))"

text \<open>\<^verbatim>\<open>Close\<close>: one server after the other; only errors are joined.\<close>

definition Close :: "(string \<Rightarrow> string option) \<Rightarrow> site \<Rightarrow> site \<times> stop_error option" where
  "Close answers t =
     (let result = fold (\<lambda>target result. case answers (fst target) of
                           None \<Rightarrow> result
                         | Some err \<Rightarrow> errors_Join result (Some (CloseFailed (fst target) err)))
                     (activeHTTPServers (st_server t)) None;
          (s, g) = CloseResource (st_server t) (st_store t)
      in (\<lparr>st_server = s, st_store = g\<rparr>, result))"

section \<open>The main program\<close>

datatype fatal =
    FatalLoad config_error
  | FatalShutdownTimeout config_error
  | FatalCreate build_error
  | FatalStart stop_error
  | FatalStopped stop_error

datatype startup = Fatal fatal | Crashed build_panic | Running duration site

text \<open>Up to the point where the servers are started.\<close>

definition main_setup :: "build_env \<Rightarrow> load_env \<Rightarrow> string \<Rightarrow> startup" where
  "main_setup env files configPath =
     (case Load (le_read files) (le_unmarshal files) (le_lookup files) (be_parse env) configPath of
        Inl e \<Rightarrow> Fatal (FatalLoad e)
      | Inr cfg \<Rightarrow>
          (case ShutdownTimeoutDuration cfg of
             Inl e \<Rightarrow> Fatal (FatalShutdownTimeout e)
           | Inr shutdownTimeout \<Rightarrow>
               (case NewWithConfigPath env cfg configPath no_objects of
                  (g, Inl (BuildError e)) \<Rightarrow> Fatal (FatalCreate e)
                | (g, Inl (BuildPanic p)) \<Rightarrow> Crashed p
                | (g, Inr s) \<Rightarrow> Running shutdownTimeout \<lparr>st_server = s, st_store = g\<rparr>)))"

text \<open>
  After it: either \<^verbatim>\<open>Start\<close> returns first, or the signal comes first, and then the servers are shut
  down, closed by force if that failed, and \<^verbatim>\<open>Start\<close> is awaited. What the site is by then comes with
  the event, and an exit code is 0 or the 1 of \<^verbatim>\<open>log.Fatalf\<close>.
\<close>

datatype main_event =
    StartReturned "stop_error option"
  | Signalled "(string \<times> string option) list" "string \<Rightarrow> string option" "stop_error option"

definition main_run :: "main_event \<Rightarrow> site \<Rightarrow> site \<times> fatal option" where
  "main_run ev t =
     (case ev of
        StartReturned err \<Rightarrow> (t, map_option FatalStart err)
      | Signalled arrivals answers started \<Rightarrow>
          (let (t1, err) = Shutdown arrivals t;
               t2 = (if err \<noteq> None then fst (Close answers t1) else t1)
           in (t2, map_option FatalStopped started)))"

section \<open>Messages and joined errors\<close>

lemma receive_first:
  "length ms \<le> n \<Longrightarrow> receive n ms =
    (case find (\<lambda>m. m \<noteq> None) ms of Some m \<Rightarrow> Some m | None \<Rightarrow> if length ms = n then Some None else None)"
  by (induction n ms rule: receive.induct) auto

lemma errors_Join_leaves:
  "errors_Join a b = None \<longleftrightarrow> a = None \<and> b = None"
  "(case errors_Join a b of None \<Rightarrow> [] | Some e \<Rightarrow> error_leaves e) =
     (case a of None \<Rightarrow> [] | Some e \<Rightarrow> error_leaves e) @ (case b of None \<Rightarrow> [] | Some e \<Rightarrow> error_leaves e)"
  by (cases a; cases b; simp add: errors_Join_def map_filter_simps)+

lemma join_fold:
  "fold (\<lambda>m result. errors_Join result m) ms result = None \<longleftrightarrow> result = None \<and> (\<forall>m \<in> set ms. m = None)"
  "(case fold (\<lambda>m result. errors_Join result m) ms result of None \<Rightarrow> [] | Some e \<Rightarrow> error_leaves e) =
     (case result of None \<Rightarrow> [] | Some e \<Rightarrow> error_leaves e) @
       concat (map (\<lambda>m. case m of None \<Rightarrow> [] | Some e \<Rightarrow> error_leaves e) ms)"
  by (induction ms arbitrary: result) (auto simp: errors_Join_leaves)

lemma shutdown_leaves:
  "(case join_all (map shutdown_message arrivals) of None \<Rightarrow> [] | Some e \<Rightarrow> error_leaves e) =
    List.map_filter shutdown_message arrivals"
  unfolding join_all_def join_fold(2)
  by (induction arrivals) (auto simp: map_filter_simps shutdown_message_def split: option.split)

section \<open>Closing the site\<close>

lemma CloseResource_stops:
  assumes "sys_inv t" and "CloseResource (st_server t) (st_store t) = (s, g)"
  shows "s = st_server t \<and> runs_exactly g (\<lambda>_. False) (\<lambda>_. False)"
proof -
  obtain live where none: "sv_healthCheckers (st_server t) = []"
    and run: "runs_exactly (st_store t) (live_proxies live (st_server t)) (live_buckets live (st_server t))"
    using assms(1) by (auto simp: sys_inv_def Let_def runs_config_def)
  have "closed_in (sv_proxyHandlers (st_server t)) (sv_rateLimiters (st_server t)) (st_store t) g"
    using closeRuntimeResources_closed [of "sv_proxyHandlers (st_server t)" "sv_rateLimiters (st_server t)" "st_store t"
        "sv_healthCheckers (st_server t)"] assms(2)
    by (auto simp: CloseResource_def split_beta)
  from runs_exactly_cong [OF closed_runs [OF this run]] have "runs_exactly g (\<lambda>_. False) (\<lambda>_. False)" by auto
  moreover have "s = st_server t" using assms(2) none by (auto simp: CloseResource_def closeRuntimeResources_def)
  ultimately show ?thesis by simp
qed

text \<open>A site in which nothing runs any more.\<close>

definition all_stopped :: "gateway \<Rightarrow> bool" where
  "all_stopped g \<longleftrightarrow> list_all tb_done (gw_buckets g) \<and>
     list_all (\<lambda>h. list_all (\<lambda>u. pred_option hc_done (up_activeHealth u)) (h_upstreams h)) (gw_proxies g)"

lemma runs_none: "runs_exactly g (\<lambda>_. False) (\<lambda>_. False) \<Longrightarrow> all_stopped g"
  by (simp add: runs_exactly_def all_stopped_def list_all_length)

lemma stopped_site:
  assumes "sys_inv t" and "CloseResource (st_server t) (st_store t) = (s, g)"
  shows "s = st_server t" and "all_stopped g" and "sys_inv \<lparr>st_server = s, st_store = g\<rparr>"
  using CloseResource_stops [OF assms] runs_none inv_closed [of "st_server t" "st_store t"] assms
  by (auto, cases t, auto)

section \<open>Properties\<close>

text \<open>
  C39: \<^verbatim>\<open>Start\<close> returns the first error that one of its servers stops with, as soon as it arrives; a
  server that was shut down in order counts as no error; and without an error it returns nil exactly
  when all its servers, one or two, have stopped, and blocks as long as one of them listens.
\<close>

theorem Start_first_error:
  assumes "length arrivals \<le> length (activeHTTPServers s)"
  shows "Start s arrivals =
    (case find (\<lambda>m. m \<noteq> None) (map start_message arrivals) of
       Some m \<Rightarrow> Some m
     | None \<Rightarrow> if length arrivals = (if sv_adminHTTPServer s = None then 1 else 2) then Some None else None)"
proof -
  have n: "length (activeHTTPServers s) = (if sv_adminHTTPServer s = None then 1 else 2)"
    by (simp add: activeHTTPServers_def Let_def)
  show ?thesis
    using assms receive_first [of "map start_message arrivals" "length (activeHTTPServers s)"]
    by (simp only: Start_def length_map n)
qed

theorem Start_first_error_witness:
  "Start demo_server [(''admin'', Some ErrServerClosed), (''main'', Some (ServeError ''port in use''))] =
     Some (Some (ServerStopped ''main'' (ServeError ''port in use'')))"
  by (subst Start_first_error) (simp_all add: activeHTTPServers_def demo_server_def start_message_def Let_def)



text \<open>
  Only a configuration that does not load stops \<^verbatim>\<open>main\<close> before the servers are started: once it
  has loaded, the shutdown timeout can be read and creating the gateway returns no error (these
  branches of \<^verbatim>\<open>main\<close> are never taken); the gateway runs, or the mux has panicked.
\<close>

theorem main_fails_only_to_load:
  "main_setup env files path = Fatal e \<longleftrightarrow>
     (\<exists>err. Load (le_read files) (le_unmarshal files) (le_lookup files) (be_parse env) path = Inl err \<and> e = FatalLoad err)"
proof (cases "Load (le_read files) (le_unmarshal files) (le_lookup files) (be_parse env) path")
  case (Inr cfg)
  have valid: "valid_config (be_parse env) cfg" using Load_valid Inr by blast
  then obtain timeout where timeout: "ShutdownTimeoutDuration cfg = Inr timeout"
    by (auto simp: valid_config_def duration_ok_def split: sum.splits)
  obtain g r where new: "NewWithConfigPath env cfg path no_objects = (g, r)" by (metis surj_pair)
  have "r \<noteq> Inl (BuildError b)" for b
  proof
    assume r: "r = Inl (BuildError b)"
    obtain g1 b1 where build: "buildRuntime env cfg (no_objects\<lparr>gw_registry := Some (NewRegistry (be_now env))\<rparr>) = (g1, b1)"
      by (metis surj_pair)
    from buildRuntime_sound [OF valid build] new r build show False
      by (auto simp: NewWithConfigPath_def Let_def split: sum.splits if_splits)
  qed
  then show ?thesis
    using Inr timeout new by (auto simp: main_setup_def split: sum.splits build_stop.splits)
qed (auto simp: main_setup_def)
end
