(* ===== verification/Demo_Backend.thy ===== *)
theory Demo_Backend
  imports Lifecycle
begin

text \<open>
  The sample backends \<^verbatim>\<open>cmd/backend/main.go\<close> and \<^verbatim>\<open>cmd/backend2/main.go\<close>, which differ in their port
  only, and what they look like from behind a route of the gateway. Their pages show what the gateway
  has sent them, so they tell whether the headers, the path and the guards work together.
\<close>

section \<open>The pages\<close>

text \<open>
  What a page reads from outside: \<^verbatim>\<open>r.URL.Query().Get\<close> and \<^verbatim>\<open>io.ReadAll(r.Body)\<close>; and what the mux answers
  by itself. A page says how long it sleeps, and what it writes.
\<close>

record backend_env =
  bk_query :: "string \<Rightarrow> string \<Rightarrow> string"
  bk_body :: "http_request \<Rightarrow> string + string"

type_synonym backend_handler = "http_request \<Rightarrow> writer \<Rightarrow> duration \<times> writer"

definition greeted_name :: "backend_env \<Rightarrow> http_request \<Rightarrow> string" where
  "greeted_name env r =
     (let name = bk_query env (url_RawQuery (rq_URL r)) ''name'' in if name = '''' then ''anonymous'' else name)"

definition backend_headers :: "writer \<Rightarrow> writer" where
  "backend_headers w = edit_header (header_set ''X-Backend-Server'' ''demo-backend'') (plain_text w)"

definition hello_text :: "string \<Rightarrow> string \<Rightarrow> string" where
  "hello_text name traceID = ''Hello '' @ name @ ''. response from backend, traceID:'' @ traceID"

definition backend_hello :: "backend_env \<Rightarrow> backend_handler" where
  "backend_hello env = (\<lambda>r w.
     let name = greeted_name env r; w1 = backend_headers w; traceID = header_get ''X-Trace-ID'' (rq_Header r)
     in (0, w_Write (hello_text name traceID) w1))"

definition hello_v2_text :: "string \<Rightarrow> string \<Rightarrow> string \<Rightarrow> string \<Rightarrow> string \<Rightarrow> string \<Rightarrow> string" where
  "hello_v2_text name host xff xfh xfp gw =
     ''hello, '' @ name @ ''. response from backend'' @ [byte 10] @ ''host='' @ host @ [byte 10] @
     ''x-forwarded-for='' @ xff @ [byte 10] @ ''x-forwarded-host='' @ xfh @ [byte 10] @
     ''x-forwarded-proto='' @ xfp @ [byte 10] @ ''x-gateway='' @ gw @ [byte 10]"

definition backend_hello_v2 :: "backend_env \<Rightarrow> backend_handler" where
  "backend_hello_v2 env = (\<lambda>r w.
     let name = greeted_name env r; w1 = backend_headers w
     in (0, w_Write (hello_v2_text name (rq_Host r) (header_get ''X-Forwarded-For'' (rq_Header r))
           (header_get ''X-Forwarded-Host'' (rq_Header r)) (header_get ''X-Forwarded-Proto'' (rq_Header r))
           (header_get ''X-Gateway'' (rq_Header r))) w1))"

definition backend_echo :: "backend_env \<Rightarrow> backend_handler" where
  "backend_echo env = (\<lambda>r w.
     case bk_body env r of
       Inl err \<Rightarrow> (0, http_Error ''read request body failed'' 400 w)
     | Inr body \<Rightarrow> (0, w_Write (''method='' @ rq_Method r @ '' path='' @ url_Path (rq_URL r) @ '' body='' @ body)
         (plain_text w)))"

definition backend_error :: backend_handler where
  "backend_error = (\<lambda>r w. (0, http_Error ''backend busy'' 503 w))"

definition backend_slow :: backend_handler where
  "backend_slow = (\<lambda>r w. (5 * second, w_Write ''slow response from backend'' (plain_text w)))"

definition backend_health :: backend_handler where
  "backend_health = (\<lambda>r w.
     if rq_Method r \<noteq> ''GET'' then (0, http_Error ''method not allowed'' 405 w)
     else (0, w_Write (''ok'' @ [byte 10]) (plain_text w)))"

section \<open>The server\<close>

datatype backend_page = HelloPage | HelloV2Page | EchoPage | BusyPage | SlowPage | AlivePage

fun backend_page_handler :: "backend_env \<Rightarrow> backend_page \<Rightarrow> backend_handler" where
  "backend_page_handler env HelloPage = backend_hello env"
| "backend_page_handler env HelloV2Page = backend_hello_v2 env"
| "backend_page_handler env EchoPage = backend_echo env"
| "backend_page_handler env BusyPage = backend_error"
| "backend_page_handler env SlowPage = backend_slow"
| "backend_page_handler env AlivePage = backend_health"

definition backend_pages :: "(string \<times> backend_page) list" where
  "backend_pages = [(''/hello'', HelloPage), (''/hello/v2'', HelloV2Page), (''/echo'', EchoPage),
     (''/error'', BusyPage), (''/slow'', SlowPage), (''/health'', AlivePage)]"

definition backend_ServeHTTP :: "backend_env \<Rightarrow> (string \<times> backend_page) list \<Rightarrow> backend_handler" where
  "backend_ServeHTTP env m = (\<lambda>r w.
     case mux_match m (url_Path (rq_URL r)) of
       None \<Rightarrow> (0, http_Error ''404 page not found'' 404 w)
     | Some page \<Rightarrow> backend_page_handler env page r w)"

text \<open>
  \<^verbatim>\<open>main\<close>: the mux is filled, then \<^verbatim>\<open>ListenAndServe\<close> returns something, or never does (\<open>served\<close> is not
  called); the program dies unless it was \<^verbatim>\<open>http.ErrServerClosed\<close>.
\<close>

definition backend_main ::
    "string \<Rightarrow> mux_rules \<Rightarrow> build_panic + httpServer \<times> (string \<times> backend_page) list" where
  "backend_main addr rules =
     res_bind (handle_all rules backend_pages []) (\<lambda>m.
     Inr (\<lparr>srv_Addr = addr, srv_ReadHeaderTimeout = 0\<rparr>, m))"

definition backend1 :: "mux_rules \<Rightarrow> build_panic + httpServer \<times> (string \<times> backend_page) list" where
  "backend1 = backend_main '':8081''"

definition backend2 :: "mux_rules \<Rightarrow> build_panic + httpServer \<times> (string \<times> backend_page) list" where
  "backend2 = backend_main '':8082''"

definition backend_exit :: "serve_error option \<Rightarrow> serve_error option" where
  "backend_exit err = (case err of None \<Rightarrow> None | Some e \<Rightarrow> if e \<noteq> ErrServerClosed then Some e else None)"

section \<open>Between the gateway and a backend\<close>

text \<open>
  What \<^verbatim>\<open>net/http\<close> makes of an outgoing request on the other side, of what a handler has written, and of
  a request whose deadline passes before the answer.
\<close>

definition received :: "http_request \<Rightarrow> http_request" where
  "received q = q\<lparr>rq_Host := (if rq_Host q = '''' then url_Host (rq_URL q) else rq_Host q),
     rq_URL := (rq_URL q)\<lparr>url_Scheme := '''', url_Host := ''''\<rparr>,
     rq_Context := \<lparr>ctx_upstream = None, ctx_routeID = None, ctx_deadline = None\<rparr>\<rparr>"

definition answered_with :: "writer \<Rightarrow> reply" where
  "answered_with w = (let c = the_conn w in case cn_status c of
     None \<Rightarrow> Reply 200 (cn_header c) []
   | Some status \<Rightarrow> Reply status (cn_sent c) [cn_body c])"

definition backend_call ::
    "backend_env \<Rightarrow> (string \<times> backend_page) list \<Rightarrow> go_time \<Rightarrow> http_request \<Rightarrow> int list \<times> reply" where
  "backend_call env m start q =
     (let (slept, w) = backend_ServeHTTP env m (received q) (Conn new_conn)
      in case ctx_deadline (rq_Context q) of
           Some d \<Rightarrow> if start + slept > d then ([], Broken deadline_exceeded) else ([], answered_with w)
         | None \<Rightarrow> ([], answered_with w))"

section \<open>Facts\<close>

lemma backend_main_pages: "backend_main addr rules = Inr (h, m) \<Longrightarrow> m = backend_pages \<and> srv_Addr h = addr"
  by (auto simp: backend_main_def res_bind_Inr dest: handle_all_Inr)

lemma backend_match [simp]:
  "mux_match backend_pages ''/hello'' = Some HelloPage" "mux_match backend_pages ''/hello/v2'' = Some HelloV2Page"
  "mux_match backend_pages ''/error'' = Some BusyPage" "mux_match backend_pages ''/slow'' = Some SlowPage"
  "mux_match backend_pages ''/health'' = Some AlivePage"
  by (simp_all add: backend_pages_def mux_match_def pattern_matches_def has_suffix_def has_prefix_Cons1)

lemma answered_page:
  "answered_with (w_Write body (edit_header f (Conn new_conn))) = Reply 200 (f (\<lambda>_. [])) [body]"
  by (simp add: answered_with_def conn_WriteHeader_def informational_def Let_def)

lemma answered_error:
  "\<not> informational status \<Longrightarrow>
    answered_with (http_Error msg status (Conn new_conn)) = Reply status (error_header (\<lambda>_. [])) [msg @ [byte 10]]"
  by (simp add: answered_with_def http_Error_conn)

text \<open>What a page of the backend sees of a request that came through a route.\<close>

lemma received_rewritten:
  assumes "url_RawQuery (up_url u) = ''''"
  shows "url_Path (rq_URL (received (rewrite_to nanos h u inreq out))) =
      rewritePath (url_Path (rq_URL inreq)) (h_stripPrefix h)"
    and "url_RawQuery (rq_URL (received (rewrite_to nanos h u inreq out))) = url_RawQuery (rq_URL out)"
    and "rq_Host (received (rewrite_to nanos h u inreq out)) = url_Host (up_url u)"
    and "rq_Header (received q) = rq_Header q"
  using assms by (simp_all add: received_def rewrite_to_def set_url_def Let_def)

lemma strip_path:
  "rewritePath (s @ ''/hello/v2'') s = ''/hello/v2''"
  "rewritePath (s @ ''/error'') s = ''/error''" "rewritePath (s @ ''/slow'') s = ''/slow''"
  by (simp_all add: rewritePath_eq has_prefix_Cons1)

text \<open>A route in front of a backend: the gateway's part of the exchange around one call.\<close>

lemma exchange_call:
  assumes "selectUpstream now h = (Some k, h')" and "\<And>q. rq_Context (prepare q) = rq_Context q"
  obtains out where "rq_Context out = (rq_Context r)\<lparr>ctx_upstream := Some k\<rparr>"
    and "out = rewrite_to nanos h' (h_upstreams h' ! k)
      (r\<lparr>rq_Context := (rq_Context r)\<lparr>ctx_upstream := Some k\<rparr>\<rparr>)
      (prepare (r\<lparr>rq_Context := (rq_Context r)\<lparr>ctx_upstream := Some k\<rparr>\<rparr>))"
    and "proxy_ServeHTTP prepare backend now nanos later r h w =
      serve_reply later out (fst (backend out)) (snd (backend out)) h' w"
  using assms
  by (simp add: proxy_ServeHTTP_def serve_select_def rewriteRequest_def rewrite_to_def set_url_def
      Let_def split_beta)

lemma backend_call_page:
  assumes "mux_match m (url_Path (rq_URL (received q))) = Some page"
    and "backend_page_handler env page (received q) (Conn new_conn) = (slept, w)"
    and "\<And>d. ctx_deadline (rq_Context q) = Some d \<Longrightarrow> start + slept \<le> d"
  shows "backend_call env m start q = ([], answered_with w)"
  using assms by (auto simp: backend_call_def backend_ServeHTTP_def split: option.split)

section \<open>Properties\<close>

text \<open>
  C31: The page \<open>/hello/v2\<close> of a sample backend behind a route shows that the backend learns of the
  client what it should: the host is the upstream's, the forwarded address, host and scheme are the
  client's, the gateway names itself, and the query parameter comes through; the client gets this page
  with the names of the backend and of the upstream, and the upstream is credited with a success.
\<close>

theorem backend_sees_the_client:
  assumes "backend_main addr rules = Inr (srv, m)"
    and sel: "selectUpstream now h = (Some k, h')" and k: "k < length (h_upstreams h)"
    and w: "untouched w" "cn_header (the_conn w) = (\<lambda>_. [])"
    and prep: "\<And>q. rq_Context (prepare q) = rq_Context q"
    and query: "\<And>q. url_RawQuery (rq_URL (prepare q)) = url_RawQuery (rq_URL q)"
    and dropped: "\<And>q. rq_Header (prepare q) ''X-Forwarded-For'' = []"
    and path: "url_Path (rq_URL r) = h_stripPrefix h @ ''/hello/v2''"
    and client: "split_host (rq_RemoteAddr r) = Some ip"
    and plain: "url_RawQuery (up_url (h_upstreams h' ! k)) = ''''"
    and deadline: "\<And>d. ctx_deadline (rq_Context r) = Some d \<Longrightarrow> start \<le> d"
  shows "\<exists>w'. proxy_ServeHTTP prepare (backend_call env m start) now nanos later r h w =
      (upd_upstream k (recordSuccess later) h', w')
    \<and> cn_status (the_conn w') = Some 200
    \<and> cn_body (the_conn w') = hello_v2_text (greeted_name env r) (url_Host (up_url (h_upstreams h' ! k))) ip
        (rq_Host r) (if rq_TLS r then ''https'' else ''http'') gatewayName
    \<and> header_get ''X-Backend-Server'' (cn_sent (the_conn w')) = ''demo-backend''
    \<and> header_get ''X-Gateway-Upstream'' (cn_sent (the_conn w')) = up_id (h_upstreams h' ! k)"
proof -
  have m: "m = backend_pages" using backend_main_pages [OF assms(1)] by simp
  have same: "h_stripPrefix h' = h_stripPrefix h" "k < length (h_upstreams h')"
    using selectUpstream_frame [of now h] selectUpstream_length [of now h] sel k by simp_all
  obtain out where ctx: "rq_Context out = (rq_Context r)\<lparr>ctx_upstream := Some k\<rparr>"
    and out: "out = rewrite_to nanos h' (h_upstreams h' ! k)
      (r\<lparr>rq_Context := (rq_Context r)\<lparr>ctx_upstream := Some k\<rparr>\<rparr>)
      (prepare (r\<lparr>rq_Context := (rq_Context r)\<lparr>ctx_upstream := Some k\<rparr>\<rparr>))"
    and call: "proxy_ServeHTTP prepare (backend_call env m start) now nanos later r h w =
      serve_reply later out (fst (backend_call env m start out)) (snd (backend_call env m start out)) h' w"
    using exchange_call [where nanos = nanos and backend = "backend_call env m start" and w = w and r = r, OF sel prep] .
  note seen = received_rewritten [OF plain]
  have page: "mux_match m (url_Path (rq_URL (received out))) = Some HelloV2Page"
    unfolding out seen(1) by (simp add: m path same strip_path)
  let ?text = "hello_v2_text (greeted_name env r) (url_Host (up_url (h_upstreams h' ! k))) ip
        (rq_Host r) (if rq_TLS r then ''https'' else ''http'') gatewayName"
  let ?hdr = "header_set ''X-Backend-Server'' ''demo-backend''
        (header_set ''Content-Type'' ''text/plain; charset=utf-8'' (\<lambda>_. []))"
  have "greeted_name env (received out) = greeted_name env r"
    by (simp add: greeted_name_def out seen(2) query)
  moreover have "header_get ''X-Forwarded-For'' (rq_Header (received out)) = ip"
    "header_get ''X-Forwarded-Host'' (rq_Header (received out)) = rq_Host r"
    "header_get ''X-Forwarded-Proto'' (rq_Header (received out)) = (if rq_TLS r then ''https'' else ''http'')"
    "header_get ''X-Gateway'' (rq_Header (received out)) = gatewayName"
    by (simp_all add: out seen(4) header_get_def rewrite_header set_x_forwarded_def Let_def
        header_set_def client dropped)
  moreover have "rq_Host (received out) = url_Host (up_url (h_upstreams h' ! k))" unfolding out by (rule seen(3))
  ultimately have "backend_page_handler env HelloV2Page (received out) (Conn new_conn) =
      (0, w_Write ?text (backend_headers (Conn new_conn)))"
    by (simp add: backend_hello_v2_def Let_def)
  from backend_call_page [OF page this, where start = start] deadline
  have reply: "backend_call env m start out = ([], Reply 200 ?hdr [?text])"
    by (simp add: ctx backend_headers_def plain_text_def answered_with_def conn_WriteHeader_def informational_def Let_def)
  have key: "header_key ''X-Backend-Server'' = ''X-Backend-Server''" by code_simp
  have "ctx_upstream (rq_Context out) = Some k" by (simp add: ctx)
  note sent = reply_delivered [OF this same(2) w(1) _ w(2), of 200 later ?hdr "[?text]"]
  show ?thesis
    unfolding call reply fst_conv snd_conv
    by (rule ex_forward [OF sent])
      (simp_all add: informational_def header_get_def header_set_def key split del: if_split)
qed

text \<open>
  The guards hear of a sample backend's faults: the page \<open>/error\<close> reaches the client as it is and
  is a failure of the upstream, and the page \<open>/slow\<close>, which sleeps for five seconds, gives 504 and a
  failure if the deadline the gateway has set passes before.
\<close>

theorem backend_faults_count:
  assumes "backend_main addr rules = Inr (srv, m)"
    and sel: "selectUpstream now h = (Some k, h')" and k: "k < length (h_upstreams h)"
    and w: "untouched w" "cn_header (the_conn w) = (\<lambda>_. [])"
    and prep: "\<And>q. rq_Context (prepare q) = rq_Context q"
    and plain: "url_RawQuery (up_url (h_upstreams h' ! k)) = ''''"
    and deadline: "ctx_deadline (rq_Context r) = Some d" "start \<le> d"
  shows "(url_Path (rq_URL r) = h_stripPrefix h @ ''/error'' \<longrightarrow>
      (\<exists>w'. proxy_ServeHTTP prepare (backend_call env m start) now nanos later r h w =
          (upd_upstream k (recordFailure later ''backend status=503'') h', w')
        \<and> cn_status (the_conn w') = Some 503 \<and> cn_body (the_conn w') = ''backend busy'' @ [byte 10]))
    \<and> (url_Path (rq_URL r) = h_stripPrefix h @ ''/slow'' \<and> d < start + 5 * second \<longrightarrow>
      (\<exists>w'. proxy_ServeHTTP prepare (backend_call env m start) now nanos later r h w =
          (upd_upstream k (recordFailure later ''context deadline exceeded'') h', w')
        \<and> cn_status (the_conn w') = Some 504))"
proof -
  have m: "m = backend_pages" using backend_main_pages [OF assms(1)] by simp
  have same: "h_stripPrefix h' = h_stripPrefix h" "k < length (h_upstreams h')"
    using selectUpstream_frame [of now h] selectUpstream_length [of now h] sel k by simp_all
  obtain out where ctx: "rq_Context out = (rq_Context r)\<lparr>ctx_upstream := Some k\<rparr>"
    and out: "out = rewrite_to nanos h' (h_upstreams h' ! k)
      (r\<lparr>rq_Context := (rq_Context r)\<lparr>ctx_upstream := Some k\<rparr>\<rparr>)
      (prepare (r\<lparr>rq_Context := (rq_Context r)\<lparr>ctx_upstream := Some k\<rparr>\<rparr>))"
    and call: "proxy_ServeHTTP prepare (backend_call env m start) now nanos later r h w =
      serve_reply later out (fst (backend_call env m start out)) (snd (backend_call env m start out)) h' w"
    using exchange_call [where nanos = nanos and backend = "backend_call env m start" and w = w and r = r, OF sel prep] .
  have ctx_k: "ctx_upstream (rq_Context out) = Some k" by (simp add: ctx)
  have path: "url_Path (rq_URL (received out)) = rewritePath (url_Path (rq_URL r)) (h_stripPrefix h)"
    unfolding out received_rewritten(1) [OF plain] by (simp add: same)
  have busy: "\<exists>w'. serve_reply later out (fst (backend_call env m start out)) (snd (backend_call env m start out)) h' w =
        (upd_upstream k (recordFailure later ''backend status=503'') h', w')
      \<and> cn_status (the_conn w') = Some 503 \<and> cn_body (the_conn w') = ''backend busy'' @ [byte 10]"
    if p: "url_Path (rq_URL r) = h_stripPrefix h @ ''/error''"
  proof -
    have s: "itoa 503 = ''503''" by code_simp
    have "mux_match m (url_Path (rq_URL (received out))) = Some BusyPage" unfolding path p strip_path m by simp
    from backend_call_page [OF this, where start = start and env = env] deadline
    have reply: "backend_call env m start out =
        ([], Reply 503 (error_header (\<lambda>_. [])) [''backend busy'' @ [byte 10]])"
      by (simp add: backend_error_def ctx answered_error informational_def)
    note sent = reply_delivered [OF ctx_k same(2) w(1) _ w(2), of 503 later "error_header (\<lambda>_. [])"
        "[''backend busy'' @ [byte 10]]"]
    show ?thesis
      unfolding reply fst_conv snd_conv by (rule ex_forward [OF sent]) (simp_all add: informational_def s)
  qed
  have late: "\<exists>w'. serve_reply later out (fst (backend_call env m start out)) (snd (backend_call env m start out)) h' w =
        (upd_upstream k (recordFailure later ''context deadline exceeded'') h', w')
      \<and> cn_status (the_conn w') = Some 504"
    if p: "url_Path (rq_URL r) = h_stripPrefix h @ ''/slow''" and d: "d < start + 5 * second"
  proof -
    have "mux_match m (url_Path (rq_URL (received out))) = Some SlowPage" unfolding path p strip_path m by simp
    then have "backend_call env m start out = ([], Broken deadline_exceeded)"
      using d deadline by (simp add: backend_call_def backend_ServeHTTP_def backend_slow_def ctx)
    then show ?thesis
      using ctx_k w(1)
      by (simp add: serve_reply_def handleProxyError_def deadline_exceeded_def statusCodeFromProxyError_def
          isTimeoutError_def http_Error_conn informational_def Let_def)
  qed
  show ?thesis unfolding call using busy late by blast
qed

section \<open>A request to a sample backend\<close>

definition demo_backend :: backend_env where
  "demo_backend = \<lparr>bk_query = (\<lambda>q name. ''''), bk_body = (\<lambda>_. Inr '''')\<rparr>"

definition drop_forwarded :: "http_request \<Rightarrow> http_request" where
  "drop_forwarded q = q\<lparr>rq_Header := (rq_Header q)(''X-Forwarded-For'' := [])\<rparr>"

definition page_request :: "string \<Rightarrow> http_request" where
  "page_request path = demo_request\<lparr>rq_URL := demo_url\<lparr>url_Path := path\<rparr>,
     rq_Context := \<lparr>ctx_upstream = None, ctx_routeID = None, ctx_deadline = Some 9\<rparr>\<rparr>"

lemma demo_backend_main: "backend1 demo_rules = Inr (\<lparr>srv_Addr = '':8081'', srv_ReadHeaderTimeout = 0\<rparr>, backend_pages)"
  by (simp add: backend1_def backend_main_def backend_pages_def mux_Handle_def demo_rules_def has_prefix_Cons1)

lemma page_request_facts:
  "ctx_deadline (rq_Context (page_request path)) = Some 9" "url_Path (rq_URL (page_request path)) = path"
  "rq_Host (page_request path) = ''gw''" "\<not> rq_TLS (page_request path)" "rq_RemoteAddr (page_request path) = ''10.0.0.7:5123''"
  "greeted_name demo_backend (page_request path) = ''anonymous''"
  by (simp_all add: page_request_def demo_request_def greeted_name_def demo_backend_def)

lemma guarded_handler_facts:
  "h_stripPrefix guarded_handler = ''/api''" "1 < length (h_upstreams guarded_handler)"
  "url_RawQuery (up_url (h_upstreams (guarded_handler\<lparr>h_nextIndex := n\<rparr>) ! 1)) = ''''"
  "url_Host (up_url (h_upstreams guarded_handler ! 1)) = ''localhost:8081''"
  by (simp_all add: guarded_handler_def plain_upstream_def demo_url_def)

lemma drop_forwarded_facts:
  "rq_Context (drop_forwarded q) = rq_Context q" "url_RawQuery (rq_URL (drop_forwarded q)) = url_RawQuery (rq_URL q)"
  "rq_Header (drop_forwarded q) ''X-Forwarded-For'' = []"
  by (simp_all add: drop_forwarded_def)

theorem backend_sees_the_client_witness:
  "\<exists>h' w'. proxy_ServeHTTP drop_forwarded (backend_call demo_backend backend_pages 5) (\<lambda>_. 5) 1 6
      (page_request ''/api/hello/v2'') guarded_handler (Conn new_conn) = (h', w')
    \<and> cn_body (the_conn w') = hello_v2_text ''anonymous'' ''localhost:8081'' ''10.0.0.7'' ''gw'' ''http'' gatewayName"
proof -
  let ?r = "page_request ''/api/hello/v2''"
  have path: "url_Path (rq_URL ?r) = h_stripPrefix guarded_handler @ ''/hello/v2''"
    by (simp add: page_request_facts guarded_handler_facts)
  have client: "split_host (rq_RemoteAddr ?r) = Some ''10.0.0.7''" unfolding page_request_facts by code_simp
  have deadline: "5 \<le> d" if "ctx_deadline (rq_Context ?r) = Some d" for d
    using that by (simp add: page_request_facts)
  have hd: "cn_header (the_conn (Conn new_conn)) = (\<lambda>_. [])" by simp
  from backend_sees_the_client [OF demo_backend_main [unfolded backend1_def] guarded_handler_select
      guarded_handler_facts(2) untouched_new(2) hd drop_forwarded_facts path client guarded_handler_facts(3) deadline,
      where env = demo_backend and nanos = 1 and later = 6]
  show ?thesis by (auto simp: page_request_facts guarded_handler_facts(4) [unfolded One_nat_def])
qed

theorem backend_faults_count_witness:
  "\<exists>h' w'. proxy_ServeHTTP drop_forwarded (backend_call demo_backend backend_pages 5) (\<lambda>_. 5) 1 6
      (page_request ''/api/slow'') guarded_handler (Conn new_conn) = (h', w') \<and> cn_status (the_conn w') = Some 504"
proof -
  let ?r = "page_request ''/api/slow''"
  have path: "url_Path (rq_URL ?r) = h_stripPrefix guarded_handler @ ''/slow''"
    by (simp add: page_request_facts guarded_handler_facts)
  have hd: "cn_header (the_conn (Conn new_conn)) = (\<lambda>_. [])" by simp
  have late: "(5 :: go_time) \<le> 9" "9 < 5 + 5 * second" by simp_all
  from backend_faults_count [OF demo_backend_main [unfolded backend1_def] guarded_handler_select
      guarded_handler_facts(2) untouched_new(2) hd drop_forwarded_facts(1) guarded_handler_facts(3)
      page_request_facts(1) [of "''/api/slow''"] late(1), where env = demo_backend and nanos = 1 and later = 6]
  show ?thesis using path late(2) by blast
qed

end
