(* ===== verification/Spec2Isabelle.thy ===== *)
theory Spec2Isabelle
  imports Prometheus Interleaved Demo_Backend
begin

text \<open>
  A model of \<^verbatim>\<open>go-mini-gateway\<close>, an HTTP reverse proxy with active and passive health checks, circuit
  breakers, rate and concurrency limits, metrics, an admin server and configuration reloads.

  \<^bold>\<open>How the program works\<close>

  \<^verbatim>\<open>cmd/gateway/main.go\<close> loads a JSON file (\<^verbatim>\<open>internal/config\<close>), builds a runtime from it
  (\<^verbatim>\<open>internal/server/runtime.go\<close>, \<^verbatim>\<open>route_runtime.go\<close>) and serves it. A request passes the access log, the
  global rate and concurrency limiters, the timeout and the mux; the mux leads it to a system route or
  to a route, where it passes the route's own limiters (\<^verbatim>\<open>internal/ratelimit\<close>, \<^verbatim>\<open>internal/concurrency\<close>) and
  reaches the proxy (\<^verbatim>\<open>internal/proxy\<close>), which chooses an upstream by round robin among those whose guards
  let the request pass: the active check (\<^verbatim>\<open>internal/health\<close>), the passive health state and the circuit
  breaker. The outcome is reported to the guards, and the access log reports to the metrics
  (\<^verbatim>\<open>internal/metrics\<close>). The admin server shows all this and reloads the file, which exchanges the whole
  runtime at once.

  \<^bold>\<open>Theories\<close>, in the order of their imports

  \<^item> \<^verbatim>\<open>Prelude\<close>: machine integers, time, error values, the collections of facts. \<^verbatim>\<open>Go_Strings\<close>, \<^verbatim>\<open>Http\<close>,
    \<^verbatim>\<open>Go_Float\<close>, \<^verbatim>\<open>Go_Duration\<close>: what the code uses of Go's library (strings, headers and response writers,
    \<^verbatim>\<open>float64\<close> rounding, \<^verbatim>\<open>time.ParseDuration\<close>); \<^verbatim>\<open>Http\<close> holds the \<^verbatim>\<open>statusRecorder\<close> as well.
  \<^item> \<^verbatim>\<open>Guard\<close>: the contract of everything that guards an upstream, as locales. \<^verbatim>\<open>Circuit_Breaker\<close>
    (\<^verbatim>\<open>internal/proxy/circuit_breaker.go\<close>), \<^verbatim>\<open>Passive_Health\<close> (\<^verbatim>\<open>passive_health.go\<close>) and \<^verbatim>\<open>Upstream\<close>
    (\<^verbatim>\<open>upstream.go\<close>, \<^verbatim>\<open>types.go\<close>) interpret them; \<^verbatim>\<open>Health_Checker\<close> is \<^verbatim>\<open>internal/health/checker.go\<close>, with the
    single loads and stores of its goroutine and its readers; \<^verbatim>\<open>Proxy_Handler\<close> is \<^verbatim>\<open>handler.go\<close> and
    \<^verbatim>\<open>proxy_error.go\<close>, the hooks around the reverse proxy of the standard library.
  \<^item> \<^verbatim>\<open>Gate\<close>: channels and the contract of a limiter. \<^verbatim>\<open>Limiter\<close> (\<^verbatim>\<open>internal/concurrency\<close>) and \<^verbatim>\<open>Token_Bucket\<close>
    (\<^verbatim>\<open>internal/ratelimit\<close>) interpret it.
  \<^item> \<^verbatim>\<open>Config_Env\<close> (\<^verbatim>\<open>internal/config/env.go\<close> and the structs) and \<^verbatim>\<open>Config\<close> (\<^verbatim>\<open>config.go\<close>).
  \<^item> \<^verbatim>\<open>Metrics\<close> (\<^verbatim>\<open>internal/metrics/registry.go\<close>) and \<^verbatim>\<open>Prometheus\<close> (\<^verbatim>\<open>prometheus.go\<close>).
  \<^item> \<^verbatim>\<open>Middleware\<close> (\<^verbatim>\<open>internal/server/middleware.go\<close>, \<^verbatim>\<open>route_context.go\<close>, \<^verbatim>\<open>system_handlers.go\<close> and the
    middlewares of the limiters), \<^verbatim>\<open>Route_Runtime\<close> (\<^verbatim>\<open>route_runtime.go\<close>, \<^verbatim>\<open>runtime.go\<close>: building),
    \<^verbatim>\<open>Gateway\<close> (the same files: serving), \<^verbatim>\<open>Server\<close> (\<^verbatim>\<open>server.go\<close>, \<^verbatim>\<open>reload.go\<close>, \<^verbatim>\<open>reloadable_handler.go\<close>,
    \<^verbatim>\<open>pprof.go\<close>, the registration of \<^verbatim>\<open>admin.go\<close>), \<^verbatim>\<open>Admin\<close> (\<^verbatim>\<open>admin.go\<close>, \<^verbatim>\<open>admin_auth.go\<close>,
    \<^verbatim>\<open>admin_dto.go\<close>, \<^verbatim>\<open>json_response.go\<close>).
  \<^item> \<^verbatim>\<open>Gateway_System\<close>: the process as a transition system over all of them, one whole request, reload or
    closing after the other. \<^verbatim>\<open>Overlap\<close>: the same with reloads, requests and closing interleaved; what a
    reload does before the lock, under it and after it (\<open>prepare_reload\<close>, \<open>swap_runtime\<close>, object by object
    \<open>close_proxy\<close> and \<open>close_bucket\<close>) are steps of their own. \<^verbatim>\<open>In_Flight\<close>: a
    request cut into its calls (\<open>perform\<close>); \<^verbatim>\<open>Interleaved\<close>: all requests of the process, call by call, with
    ticks, checks, builds and closing in any order (\<open>fl_step\<close>). \<^verbatim>\<open>Lifecycle\<close> (\<^verbatim>\<open>lifecycle.go\<close>,
    \<^verbatim>\<open>cmd/gateway/main.go\<close>): starting and stopping. \<^verbatim>\<open>Demo_Backend\<close> (\<^verbatim>\<open>cmd/backend\<close>, \<^verbatim>\<open>cmd/backend2\<close>): the
    sample backends, alone and behind a route.

  \<^bold>\<open>State and operations\<close>

  A struct is a record with a prefix on its fields (\<open>tb_\<close>, \<open>lim_\<close>, \<open>cb_\<close>, \<open>ph_\<close>, \<open>hc_\<close>, \<open>up_\<close>, \<open>h_\<close>,
  \<open>rr_\<close>, \<open>sv_\<close>), a method a function on it under its Go name or with that prefix. From \<^verbatim>\<open>Route_Runtime\<close> on,
  proxies, buckets and semaphores live in a store (\<open>gateway\<close>) and pointers are positions in it, since
  handlers, admin pages and the lists for closing share them. A handler is a function from request,
  state and response writer to the new state and writer; \<open>None\<close> means that it never returns. Errors
  are sums, panics of the mux and of \<^verbatim>\<open>time.NewTicker\<close> are values too.

  \<^bold>\<open>What the lemmas show\<close>

  \<^item> Guards: invariants, thresholds, recovery, refinement of an abstract three-state breaker, and over all
    interleavings of a route (\<open>px_step\<close>) that half-open slots do not leak.
  \<^item> Selection: equality with a reference (the first upstream in rotation that lets the request pass),
    fairness, and what the wrap of the 64-bit counter does.
  \<^item> Exchanges: for each outcome of a backend, what the client gets and which guard is told.
  \<^item> Limiters: bounds over all interleavings of requests, ticks and closing.
  \<^item> Configuration: validation equals a declarative predicate, expansion equals the concatenation of its
    parts, loading gives valid configurations in normal form.
  \<^item> Metrics: the registry equals sums over the list of records; label text can be read back.
  \<^item> Building: exactly when it succeeds, and how what it builds is wired. Serving: one contract for all
    handlers (\<open>gateway_service\<close>, \<open>gateway_main\<close>), interpreted several times: every request is answered,
    recorded once, gives back its places, touches one proxy only.
  \<^item> Server and process: a reload is all or nothing; in every reachable state the server runs its
    configuration and nothing else is left running, also when reloads, requests and closing overlap
    (every object has one owner: the server, a reload under way, or a closing); whole operations are
    sequences of the detailed steps; the admin server changes nothing but by a reload, and not without
    the token; a shutdown stops everything, except a runtime that a reload has prepared by then.
  \<^item> Requests in flight: made alone, the calls of a request do what the main handler does; interleaved,
    every limiter counts the requests that hold its places, every bucket keeps its rate, every half-open
    slot belongs to a request that waits for its upstream, and every request ends within 12 calls.
  \<^item> Sample backends: what they see of a client through a route, and that their faults reach the guards.

  \<^bold>\<open>Bounds and termination\<close>

  No fuel is used. Go's \<open>int\<close> and \<open>int64\<close> wrap at 64 bits (\<open>i64\<close>), the round-robin counter is a
  \<open>64 word\<close>; where a claim needs that no wrap happens it says so (\<open>no_wrap\<close>, configured limits that fit an
  \<open>int64\<close>). The one loop of the code that may not end, in \<^verbatim>\<open>setRouteIDToResponseWriter\<close>, is a
  \<^theory_text>\<open>partial_function\<close>, with a proof of when it returns.

  \<^bold>\<open>Parameters\<close>

  \<^verbatim>\<open>url.Parse\<close> and \<^verbatim>\<open>URL.String\<close>, the file system, the JSON decoder and encoder, the environment, the
  clock, \<^verbatim>\<open>sha256\<close>, the pages of \<^verbatim>\<open>net/http/pprof\<close>, what \<^verbatim>\<open>httputil.ReverseProxy\<close> does to a request before
  its hooks, the backends, and which patterns \<^verbatim>\<open>http.ServeMux\<close> refuses are arguments of the definitions
  that use them. For the mux some claims assume what its documentation says of patterns without
  wildcards (\<open>literal_rules\<close>).

  \<^bold>\<open>Not modelled\<close>

  Log lines; the sockets, connections and goroutines of \<^verbatim>\<open>net/http\<close> (their results are inputs); the
  flag of the command line. In \<^verbatim>\<open>Gateway\<close>, \<^verbatim>\<open>Gateway_System\<close> and \<^verbatim>\<open>Overlap\<close> a request is served in one
  step, between reading the handler and the answer; \<^verbatim>\<open>Interleaved\<close> cuts it into calls that hold a lock or
  are one channel operation. Inside a call nothing interleaves, except the selection of an upstream, which
  takes one lock after the other and is one step as well; the loads and stores of the checker are modelled
  one by one in \<^verbatim>\<open>Health_Checker\<close>. A handler that panics inside the reverse proxy (\<^verbatim>\<open>http.ErrAbortHandler\<close>)
  is not modelled. Building a runtime is one step, too: it makes objects that nobody else knows of. The
  metrics registry is the only thing it shares, and it does not touch it.
\<close>

end
